(* ===== verification/Py_Prelude.thy ===== *)
theory Py_Prelude
  imports
    Main
    "HOL-Library.Sublist"
    "HOL-Library.List_Lexorder"
    "HOL-Library.Char_ord"
    "HOL-Library.AList"
    "HOL-Library.Word"
begin

text \<open>
  What the Python sources use of the language itself: exceptions as values, the string
  methods, dictionaries in insertion order, loops over a list that may raise.  A Python
  string is a list of characters, a \<^verbatim>\<open>bytes\<close> value a list of 8-bit words, an \<^verbatim>\<open>int\<close> is
  an \<^typ>\<open>int\<close>, and a raised exception is the left summand of a result.  The lemmas that
  every later theory uses are declared for the simplifier or gathered in the collections
  \<open>result_simps\<close> (running code that may raise) and \<open>string_facts\<close> (splitting and joining).
\<close>

named_theorems result_simps "evaluation and inversion of code that may raise"
named_theorems string_facts "splitting, joining and searching strings"

type_synonym byte = "8 word"
type_synonym bytes = "byte list"

section \<open>Exceptions\<close>

text \<open>
  The exceptions that leave a modelled function.  \<open>Exits\<close> is \<^verbatim>\<open>sys.exit\<close> with a code,
  \<open>ExitsWith\<close> the same call with a message, \<open>Diverges\<close> stands for a loop that never ends
  and \<open>Unrepresentable\<close> for a text with characters that the model's strings do not have.  The Docker errors form the hierarchy
  \<^verbatim>\<open>ImageNotFound < NotFound < APIError\<close>.
\<close>

datatype py_error =
    ValueError
  | AttributeError
  | KeyError
  | IndexError
  | TypeError
  | RecursionError
  | FileNotFoundError
  | FileExistsError
  | IsADirectoryError
  | NotADirectoryError
  | OSError
  | DockerImageNotFound
  | DockerNotFound
  | DockerAPIError
  | StreamError
  | KeyboardInterrupt
  | Diverges
  | Unrepresentable
  | PlainException string
  | Exits int
  | ExitsWith string

type_synonym 'a result = "py_error + 'a"

definition bindr :: "'a result \<Rightarrow> ('a \<Rightarrow> 'b result) \<Rightarrow> 'b result" where
  "bindr m f = (case m of Inl e \<Rightarrow> Inl e | Inr x \<Rightarrow> f x)"

lemma bindr_Inr [simp, result_simps]: "bindr (Inr x) f = f x"
  by (simp add: bindr_def)

lemma bindr_Inl [simp, result_simps]: "bindr (Inl e) f = Inl e"
  by (simp add: bindr_def)

lemma bindr_eq_Inr [result_simps]:
  "bindr m f = Inr y \<longleftrightarrow> (\<exists>x. m = Inr x \<and> f x = Inr y)"
  by (simp add: bindr_def split: sum.split)

lemma bindr_eq_Inl [result_simps]:
  "bindr m f = Inl e \<longleftrightarrow> m = Inl e \<or> (\<exists>x. m = Inr x \<and> f x = Inl e)"
  by (simp add: bindr_def split: sum.split)

lemma bindrE:
  assumes "bindr m f = Inr y"
  obtains x where "m = Inr x" and "f x = Inr y"
  using assms by (auto simp: bindr_eq_Inr)

lemma bindr_assoc: "bindr (bindr m f) g = bindr m (\<lambda>x. bindr (f x) g)"
  by (simp add: bindr_def split: sum.split)

lemma bindr_cong [fundef_cong]:
  assumes "m = m'" and "\<And>x. m' = Inr x \<Longrightarrow> f x = f' x"
  shows "bindr m f = bindr m' f'"
  using assms by (simp add: bindr_def split: sum.split)

text \<open>A loop over a list whose body changes a state and may raise.\<close>

fun foldm :: "('s \<Rightarrow> 'a \<Rightarrow> 's result) \<Rightarrow> 's \<Rightarrow> 'a list \<Rightarrow> 's result" where
  "foldm f s [] = Inr s"
| "foldm f s (x # xs) = bindr (f s x) (\<lambda>s'. foldm f s' xs)"

lemma foldm_append: "foldm f s (xs @ ys) = bindr (foldm f s xs) (\<lambda>s'. foldm f s' ys)"
  by (induction xs arbitrary: s) (simp_all add: bindr_assoc)

lemma foldm_invariant:
  assumes "foldm f s xs = Inr s'" and "P s"
    and "\<And>t x t'. x \<in> set xs \<Longrightarrow> P t \<Longrightarrow> f t x = Inr t' \<Longrightarrow> P t'"
  shows "P s'"
  using assms
proof (induction xs arbitrary: s)
  case Nil
  then show ?case by simp
next
  case (Cons x xs)
  from Cons.prems(1) obtain t where t: "f s x = Inr t" and rest: "foldm f t xs = Inr s'"
    by (auto simp: bindr_eq_Inr)
  have "P t" using Cons.prems(2,3) t by auto
  then show ?case using Cons.IH [OF rest] Cons.prems(3) by auto
qed

lemma list_all2_map_back: "list_all2 (\<lambda>x y. f y = x) xs ys \<Longrightarrow> map f ys = xs"
  by (induction rule: list_all2_induct) auto

section \<open>Strings\<close>

abbreviation startswith :: "'a list \<Rightarrow> 'a list \<Rightarrow> bool" where
  "startswith s p \<equiv> prefix p s"

abbreviation endswith :: "'a list \<Rightarrow> 'a list \<Rightarrow> bool" where
  "endswith s p \<equiv> suffix p s"

text \<open>\<^verbatim>\<open>s.find(sub, off)\<close>: the least index at or after \<open>off\<close>; \<open>None\<close> stands for \<open>-1\<close>.\<close>

fun find_sub :: "'a list \<Rightarrow> 'a list \<Rightarrow> nat option" where
  "find_sub sub [] = (if sub = [] then Some 0 else None)"
| "find_sub sub (x # xs) =
     (if prefix sub (x # xs) then Some 0 else map_option Suc (find_sub sub xs))"

definition find_from :: "'a list \<Rightarrow> 'a list \<Rightarrow> nat \<Rightarrow> nat option" where
  "find_from s sub off =
     (if off \<le> length s then map_option (\<lambda>k. off + k) (find_sub sub (drop off s)) else None)"

lemma find_sub_Some:
  "find_sub sub s = Some k \<Longrightarrow>
     k \<le> length s \<and> prefix sub (drop k s) \<and> (\<forall>j < k. \<not> prefix sub (drop j s))"
proof (induction s arbitrary: k)
  case Nil
  then show ?case by (simp split: if_splits)
next
  case (Cons x xs)
  show ?case
  proof (cases "prefix sub (x # xs)")
    case True
    with Cons.prems show ?thesis by simp
  next
    case False
    with Cons.prems obtain m where m: "find_sub sub xs = Some m" "k = Suc m" by auto
    have later: "\<not> prefix sub (drop j (x # xs))" if "j < k" for j
    proof (cases j)
      case 0
      with False show ?thesis by simp
    next
      case (Suc i)
      with that m Cons.IH [of m] show ?thesis by simp
    qed
    from m Cons.IH [of m] later show ?thesis by simp
  qed
qed

lemma find_sub_None: "find_sub sub s = None \<longleftrightarrow> (\<forall>j \<le> length s. \<not> prefix sub (drop j s))"
proof (induction s)
  case Nil
  then show ?case by auto
next
  case (Cons x xs)
  have "(\<forall>j \<le> length (x # xs). \<not> prefix sub (drop j (x # xs))) \<longleftrightarrow>
      \<not> prefix sub (x # xs) \<and> (\<forall>j \<le> length xs. \<not> prefix sub (drop j xs))" (is "?all \<longleftrightarrow> ?split")
  proof
    assume all: ?all
    from all have "\<not> prefix sub (drop 0 (x # xs))" by blast
    moreover have "\<not> prefix sub (drop j xs)" if "j \<le> length xs" for j
      using all [rule_format, of "Suc j"] that by simp
    ultimately show ?split by simp
  next
    assume split: ?split
    show ?all
    proof (intro allI impI)
      fix j assume "j \<le> length (x # xs)"
      with split show "\<not> prefix sub (drop j (x # xs))" by (cases j) auto
    qed
  qed
  with Cons.IH show ?case by simp
qed

lemma find_from_Some:
  assumes "find_from s sub off = Some k"
  shows "off \<le> k" and "k + length sub \<le> length s" and "prefix sub (drop k s)"
    and "\<And>j. off \<le> j \<Longrightarrow> j < k \<Longrightarrow> \<not> prefix sub (drop j s)"
proof -
  from assms obtain m where m: "find_sub sub (drop off s) = Some m" "k = off + m" "off \<le> length s"
    by (auto simp: find_from_def split: if_splits)
  note first = find_sub_Some [OF m(1)]
  show "off \<le> k" using m by simp
  show pre: "prefix sub (drop k s)" using first m by (simp add: add.commute)
  show "k + length sub \<le> length s"
    using prefix_length_le [OF pre] first m(2,3) by (simp add: le_diff_conv2)
  show "\<not> prefix sub (drop j s)" if "off \<le> j" "j < k" for j
    using first m(2) that by (auto dest!: spec [of _ "j - off"])
qed

lemma find_from_le:
  assumes "off \<le> i" and "i \<le> length s" and "prefix sub (drop i s)"
  shows "\<exists>k. find_from s sub off = Some k \<and> k \<le> i"
proof -
  from assms have at: "prefix sub (drop (i - off) (drop off s))" "i - off \<le> length (drop off s)"
    by auto
  then obtain m where m: "find_sub sub (drop off s) = Some m"
    using find_sub_None [of sub "drop off s"] by (cases "find_sub sub (drop off s)") auto
  with find_sub_Some [OF m] at have "m \<le> i - off" by (meson not_le)
  with m assms show ?thesis by (auto simp: find_from_def)
qed

lemma find_from_eq_Some:
  assumes "off \<le> k" and "k \<le> length s" and "prefix sub (drop k s)"
    and "\<And>j. off \<le> j \<Longrightarrow> j < k \<Longrightarrow> \<not> prefix sub (drop j s)"
  shows "find_from s sub off = Some k"
proof -
  from find_from_le [OF assms(1,2,3)] obtain j where j: "find_from s sub off = Some j" "j \<le> k"
    by blast
  with find_from_Some(1,3) [OF j(1)] assms(4) have "\<not> j < k" by blast
  with j show ?thesis by simp
qed

text \<open>\<^verbatim>\<open>s.split(c)\<close> for a one-character separator, and \<^verbatim>\<open>sep.join(parts)\<close>.\<close>

fun split_on :: "'a \<Rightarrow> 'a list \<Rightarrow> 'a list list" where
  "split_on c [] = [[]]"
| "split_on c (x # xs) =
     (if x = c then [] # split_on c xs
      else (case split_on c xs of [] \<Rightarrow> [[x]] | s # ss \<Rightarrow> (x # s) # ss))"

fun joined :: "'a list \<Rightarrow> 'a list list \<Rightarrow> 'a list" where
  "joined sep [] = []"
| "joined sep [s] = s"
| "joined sep (s # t # ts) = s @ sep @ joined sep (t # ts)"

lemma split_on_not_Nil [simp]: "split_on c s \<noteq> []"
  by (induction s) (auto split: list.splits)

lemma joined_split_on [string_facts]: "joined [c] (split_on c s) = s"
proof (induction s)
  case Nil
  then show ?case by simp
next
  case (Cons x xs)
  obtain t ts where t: "split_on c xs = t # ts"
    by (cases "split_on c xs") auto
  with Cons.IH show ?case by (cases ts) auto
qed

lemma split_on_no_sep: "seg \<in> set (split_on c s) \<Longrightarrow> c \<notin> set seg"
proof (induction s arbitrary: seg)
  case Nil
  then show ?case by simp
next
  case (Cons x xs)
  then show ?case by (auto split: if_splits list.splits)
qed

lemma split_on_whole [simp]: "c \<notin> set s \<Longrightarrow> split_on c s = [s]"
  by (induction s) auto

lemma split_on_append [simp]: "c \<notin> set a \<Longrightarrow> split_on c (a @ c # b) = a # split_on c b"
  by (induction a) auto

lemma split_on_joined [string_facts]:
  "segs \<noteq> [] \<Longrightarrow> (\<forall>s \<in> set segs. c \<notin> set s) \<Longrightarrow> split_on c (joined [c] segs) = segs"
  by (induction "[c]" segs rule: joined.induct) auto

lemma set_joined_subset: "set (joined sep segs) \<subseteq> set sep \<union> (\<Union>s \<in> set segs. set s)"
  by (induction sep segs rule: joined.induct) auto

lemma joined_Cons: "ts \<noteq> [] \<Longrightarrow> joined sep (s # ts) = s @ sep @ joined sep ts"
  by (cases ts) auto

lemma joined_append:
  "xs \<noteq> [] \<Longrightarrow> ys \<noteq> [] \<Longrightarrow> joined sep (xs @ ys) = joined sep xs @ sep @ joined sep ys"
  by (induction sep xs rule: joined.induct) (auto simp: joined_Cons)

lemma split_on_concat: "split_on c (a @ c # b) = split_on c a @ split_on c b"
proof (induction a)
  case Nil
  then show ?case by simp
next
  case (Cons x xs)
  show ?case
  proof (cases "split_on c xs")
    case (Cons s ss)
    with Cons.IH show ?thesis by simp
  qed simp
qed

lemma split_on_nonlast: "last (split_on c (a @ c # b)) = last (split_on c b)"
  by (simp add: split_on_concat)

text \<open>\<^verbatim>\<open>s.rsplit(c, 1)\<close>: one part, or the two parts around the last separator.\<close>

definition rsplit_once :: "'a \<Rightarrow> 'a list \<Rightarrow> 'a list list" where
  "rsplit_once c s =
     (if c \<in> set s
      then [rev (tl (dropWhile (\<lambda>x. x \<noteq> c) (rev s))), rev (takeWhile (\<lambda>x. x \<noteq> c) (rev s))]
      else [s])"

lemma rsplit_once_append [simp]: "c \<notin> set b \<Longrightarrow> rsplit_once c (a @ c # b) = [a, b]"
  by (simp add: rsplit_once_def takeWhile_append dropWhile_append)

lemma rsplit_once_whole [simp]: "c \<notin> set s \<Longrightarrow> rsplit_once c s = [s]"
  by (simp add: rsplit_once_def)

lemma rsplit_once_cases:
  obtains "c \<notin> set s" and "rsplit_once c s = [s]"
  | a b where "s = a @ c # b" and "c \<notin> set b" and "rsplit_once c s = [a, b]"
  using split_list_last [of c s] by (cases "c \<in> set s") auto

text \<open>\<^verbatim>\<open>s.replace(old, new)\<close>: every non-overlapping occurrence, from the left.\<close>

fun replace_nonempty :: "'a list \<Rightarrow> 'a list \<Rightarrow> 'a list \<Rightarrow> 'a list" where
  "replace_nonempty old new [] = []"
| "replace_nonempty old new (x # xs) =
     (if prefix old (x # xs)
      then new @ replace_nonempty old new (drop (length old - 1) xs)
      else x # replace_nonempty old new xs)"

definition replaced :: "'a list \<Rightarrow> 'a list \<Rightarrow> 'a list \<Rightarrow> 'a list" where
  "replaced old new s =
     (if old = [] then new @ concat (map (\<lambda>x. x # new) s) else replace_nonempty old new s)"

lemma replace_nonempty_same: "old \<noteq> [] \<Longrightarrow> replace_nonempty old old s = s"
proof (induction s rule: measure_induct_rule [where f = length])
  case (less s)
  show ?case
  proof (cases s)
    case (Cons x xs)
    show ?thesis
    proof (cases "prefix old s")
      case True
      then obtain zs where zs: "s = old @ zs" by (auto simp: prefix_def)
      with Cons less.prems have tail: "drop (length old - 1) xs = zs"
        by (cases old) auto
      have "length zs < length s" using zs less.prems by (cases old) auto
      with less True Cons tail zs show ?thesis by simp
    next
      case False
      with less Cons show ?thesis by simp
    qed
  qed simp
qed

lemma replaced_same [simp]: "old \<noteq> [] \<Longrightarrow> replaced old old s = s"
  by (simp add: replaced_def replace_nonempty_same)

section \<open>Dictionaries\<close>

text \<open>
  A dictionary whose order of insertion matters is an association list: \<^verbatim>\<open>d[k] = v\<close> is
  \<^const>\<open>AList.update\<close>, which keeps the place of an existing key as Python does.
\<close>

type_synonym ('k, 'v) dict = "('k \<times> 'v) list"

abbreviation dict_put :: "'k \<Rightarrow> 'v \<Rightarrow> ('k, 'v) dict \<Rightarrow> ('k, 'v) dict" where
  "dict_put \<equiv> AList.update"

abbreviation dict_get :: "('k, 'v) dict \<Rightarrow> 'k \<Rightarrow> 'v option" where
  "dict_get \<equiv> map_of"

lemma dict_put_new: "k \<notin> set (map fst d) \<Longrightarrow> dict_put k v d = d @ [(k, v)]"
  by (induction d) auto

definition get_or :: "('k, 'v) dict \<Rightarrow> 'k \<Rightarrow> 'v \<Rightarrow> 'v" where
  "get_or d k v = (case dict_get d k of None \<Rightarrow> v | Some w \<Rightarrow> w)"

text \<open>\<^verbatim>\<open>int(x)\<close> of a number of microseconds in seconds: Python truncates towards zero.\<close>

definition trunc_seconds :: "int \<Rightarrow> int" where
  "trunc_seconds t = (if 0 \<le> t then t div 1000000 else - ((- t) div 1000000))"

end
