(* ===== verification/Arg_Parser.thy ===== *)
theory Arg_Parser
  imports Py_Prelude
begin

text \<open>
  The part of \<^verbatim>\<open>argparse\<close> (as of Python 3.12) that the sources use: options with no value, with one or
  with an optional one, and a positional argument that takes all that remains.  Every argument is
  first read as an option or as a positional one, also behind the first positional argument;
  errors end the program with code 2, \<^verbatim>\<open>--help\<close> ends it with code 0.  The texts of help and
  usage are not modelled.
\<close>

section \<open>Options\<close>

datatype arg_value = VNone | VBool bool | VText string | VList "string option list"

type_synonym namespace = "(string, arg_value) dict"

datatype arity = NoValue | OneValue | MaybeValue

datatype effect = SetTrue | SetValue | AppendValue | ShowHelp

record option_spec =
  opt_names :: "string list"
  opt_dest :: string
  opt_arity :: arity
  opt_effect :: effect
  opt_choices :: "string list option"
  opt_default :: arg_value

text \<open>The option strings in the order in which they were added.\<close>

definition option_strings :: "option_spec list \<Rightarrow> (string \<times> option_spec) list" where
  "option_strings specs = concat (map (\<lambda>opt. map (\<lambda>n. (n, opt)) (opt_names opt)) specs)"

definition find_option :: "option_spec list \<Rightarrow> string \<Rightarrow> option_spec option" where
  "find_option specs s = map_of (option_strings specs) s"

section \<open>Reading one argument\<close>

text \<open>
  \<open>Known opt name eq e\<close> is an option, the string by which it was found, whether its value came with an
  equals sign, and that value; \<open>DashDash\<close> ends the options.
\<close>

datatype reading = Positional | DashDash | UnknownOption | Known option_spec string bool "string option"

definition dash :: char where "dash = CHR ''-''"
definition equals :: char where "equals = CHR ''=''"

definition partition_eq :: "string \<Rightarrow> string \<times> string option" where
  "partition_eq s =
     (takeWhile (\<lambda>c. c \<noteq> equals) s,
      case dropWhile (\<lambda>c. c \<noteq> equals) s of [] \<Rightarrow> None | _ # e \<Rightarrow> Some e)"

definition long_option :: "string \<Rightarrow> bool" where
  "long_option s = prefix [dash, dash] s"

text \<open>What an abbreviation, or an option with its value attached, can stand for.\<close>

definition long_tuple :: "string \<times> string option \<Rightarrow> string \<times> option_spec \<Rightarrow> reading list" where
  "long_tuple pe no =
     (if prefix (fst pe) (fst no) then [Known (snd no) (fst no) (snd pe \<noteq> None) (snd pe)] else [])"

definition short_tuple :: "string \<Rightarrow> string \<times> option_spec \<Rightarrow> reading list" where
  "short_tuple s no =
     (if fst no = take 2 s then [Known (snd no) (fst no) False (Some (drop 2 s))]
      else if prefix s (fst no) then [Known (snd no) (fst no) False None] else [])"

definition option_tuples :: "option_spec list \<Rightarrow> string \<Rightarrow> reading list" where
  "option_tuples specs s =
     concat (map (if long_option s then long_tuple (partition_eq s) else short_tuple s) (option_strings specs))"

definition digits :: "string \<Rightarrow> bool" where
  "digits s \<longleftrightarrow> s \<noteq> [] \<and> list_all (\<lambda>c. CHR ''0'' \<le> c \<and> c \<le> CHR ''9'') s"

text \<open>A pattern's dollar sign also matches before a newline at the end.\<close>

definition negative_number :: "string \<Rightarrow> bool" where
  "negative_number s =
     (let t = tl (if s \<noteq> [] \<and> last s = CHR 0x0A then butlast s else s);
          whole = takeWhile (\<lambda>c. c \<noteq> CHR ''.'') t
      in digits t \<or> whole \<noteq> t \<and> (whole = [] \<or> digits whole) \<and> digits (drop (Suc (length whole)) t))"

definition parse_optional :: "option_spec list \<Rightarrow> string \<Rightarrow> reading result" where
  "parse_optional specs s =
     (if s = [] \<or> hd s \<noteq> dash then Inr Positional
      else
        case find_option specs s of
          Some opt \<Rightarrow> Inr (Known opt s False None)
        | None \<Rightarrow>
            if length s = 1 then Inr Positional
            else
              case (if snd (partition_eq s) = None then None else find_option specs (fst (partition_eq s))) of
                Some opt \<Rightarrow> Inr (Known opt (fst (partition_eq s)) True (snd (partition_eq s)))
              | None \<Rightarrow>
                  (case option_tuples specs s of
                     [] \<Rightarrow> if negative_number s \<or> CHR '' '' \<in> set s then Inr Positional else Inr UnknownOption
                   | [t] \<Rightarrow> Inr t
                   | _ \<Rightarrow> Inl (Exits 2)))"

fun classify :: "option_spec list \<Rightarrow> string list \<Rightarrow> (string \<times> reading) list result" where
  "classify specs [] = Inr []"
| "classify specs (s # ss) =
     (if s = [dash, dash] then Inr ((s, DashDash) # map (\<lambda>t. (t, Positional)) ss)
      else bindr (parse_optional specs s) (\<lambda>r. bindr (classify specs ss) (\<lambda>ts. Inr ((s, r) # ts))))"

section \<open>Consuming options\<close>

definition check_choice :: "option_spec \<Rightarrow> string \<Rightarrow> string result" where
  "check_choice opt s =
     (case opt_choices opt of None \<Rightarrow> Inr s | Some cs \<Rightarrow> if s \<in> set cs then Inr s else Inl (Exits 2))"

definition given_value :: "option_spec \<Rightarrow> string list \<Rightarrow> string option result" where
  "given_value opt ss = (case ss of [] \<Rightarrow> Inr None | s # _ \<Rightarrow> bindr (check_choice opt s) (\<lambda>v. Inr (Some v)))"

definition items :: "namespace \<Rightarrow> string \<Rightarrow> string option list" where
  "items ns d = (case dict_get ns d of Some (VList xs) \<Rightarrow> xs | _ \<Rightarrow> [])"

definition take_action :: "namespace \<Rightarrow> option_spec \<times> string list \<Rightarrow> namespace result" where
  "take_action ns act =
     (case act of (opt, ss) \<Rightarrow>
        case opt_effect opt of
          ShowHelp \<Rightarrow> Inl (Exits 0)
        | SetTrue \<Rightarrow> Inr (dict_put (opt_dest opt) (VBool True) ns)
        | SetValue \<Rightarrow>
            bindr (given_value opt ss) (\<lambda>v.
            Inr (dict_put (opt_dest opt) (case v of None \<Rightarrow> VNone | Some s \<Rightarrow> VText s) ns))
        | AppendValue \<Rightarrow>
            bindr (given_value opt ss) (\<lambda>v. Inr (dict_put (opt_dest opt) (VList (items ns (opt_dest opt) @ [v])) ns)))"

text \<open>
  The actions of one argument: short options may stand together, the last one with its value.  The
  result has the actions, what is left over of the argument, and the arguments that follow.
\<close>

function cluster ::
  "option_spec list \<Rightarrow> option_spec \<Rightarrow> string \<Rightarrow> bool \<Rightarrow> string option \<Rightarrow> (string \<times> reading) list \<Rightarrow>
   ((option_spec \<times> string list) list \<times> string list \<times> (string \<times> reading) list) result" where
  "cluster specs opt n eq None rest =
     (case opt_arity opt of
        NoValue \<Rightarrow> Inr ([(opt, [])], [], rest)
      | OneValue \<Rightarrow> (case rest of (s, Positional) # ts \<Rightarrow> Inr ([(opt, [s])], [], ts) | _ \<Rightarrow> Inl (Exits 2))
      | MaybeValue \<Rightarrow> (case rest of (s, Positional) # ts \<Rightarrow> Inr ([(opt, [s])], [], ts)
                      | _ \<Rightarrow> Inr ([(opt, [])], [], rest)))"
| "cluster specs opt n eq (Some e) rest =
     (if opt_arity opt \<noteq> NoValue then Inr ([(opt, [e])], [], rest)
      else if long_option n \<or> e = [] \<or> eq \<or> hd e = dash then Inl (Exits 2)
      else
        case find_option specs [dash, hd e] of
          None \<Rightarrow> Inr ([(opt, [])], [dash # e], rest)
        | Some opt' \<Rightarrow>
            bindr (if tl e = [] then cluster specs opt' [dash, hd e] False None rest
                   else if hd (tl e) = equals then cluster specs opt' [dash, hd e] True (Some (tl (tl e))) rest
                   else cluster specs opt' [dash, hd e] False (Some (tl e)) rest)
              (\<lambda>(acts, left, ts). Inr ((opt, []) # acts, left, ts)))"
  by pat_completeness auto
termination
  by (relation "measure (\<lambda>(specs, opt, n, eq, e, rest). case e of None \<Rightarrow> 0 | Some s \<Rightarrow> Suc (length s))") auto

declare cluster.simps [simp del]

lemma cluster_rest:
  "cluster specs opt n eq e rest = Inr (acts, left, ts) \<Longrightarrow> suffix ts rest"
proof (induction specs opt n eq e rest arbitrary: acts left rule: cluster.induct)
  case (1 specs opt n eq rest)
  then show ?case
    by (simp add: cluster.simps(1) split: arity.splits list.splits prod.splits reading.splits) (auto simp: suffix_def)
next
  case (2 specs opt n eq e rest)
  show ?case
  proof (cases "opt_arity opt \<noteq> NoValue \<or> long_option n \<or> e = [] \<or> eq \<or> hd e = dash \<or> find_option specs [dash, hd e] = None")
    case True
    with "2.prems" show ?thesis by (auto simp: cluster.simps(2) split: if_splits option.splits)
  next
    case False
    then obtain opt' where o: "find_option specs [dash, hd e] = Some opt'" by auto
    let ?c = "if tl e = [] then cluster specs opt' [dash, hd e] False None rest
       else if hd (tl e) = equals then cluster specs opt' [dash, hd e] True (Some (tl (tl e))) rest
       else cluster specs opt' [dash, hd e] False (Some (tl e)) rest"
    from "2.prems" False o obtain acts' where "?c = Inr (acts', left, ts)"
      by (auto simp: cluster.simps(2) elim!: bindrE simp del: if_split)
    with "2.IH" False o show ?thesis by (simp split: if_split_asm)
  qed
qed

lemma cluster_shorter: "cluster specs opt n eq e rest = Inr (acts, left, ts) \<Longrightarrow> length ts < Suc (length rest)"
  using cluster_rest suffix_length_le by (fastforce simp: less_Suc_eq_le)

text \<open>
  The loop over the arguments.  With \<open>stop\<close> it ends at the first one that is not an option, as it
  does before a positional argument that takes all that remains; without, such arguments are
  left over.
\<close>

function parse_options ::
  "option_spec list \<Rightarrow> bool \<Rightarrow> (string \<times> reading) list \<Rightarrow> namespace \<Rightarrow> string list \<Rightarrow>
   (namespace \<times> string list \<times> string list) result" where
  "parse_options specs stop [] ns extras = Inr (ns, extras, [])"
| "parse_options specs stop ((s, r) # ts) ns extras =
     (case r of
        Known opt n eq e \<Rightarrow>
          bindr (cluster specs opt n eq e ts) (\<lambda>(acts, left, ts').
          bindr (foldm take_action ns acts) (\<lambda>ns'.
          parse_options specs stop ts' ns' (extras @ left)))
      | UnknownOption \<Rightarrow> parse_options specs stop ts ns (extras @ [s])
      | _ \<Rightarrow> if stop then Inr (ns, extras, s # map fst ts)
             else parse_options specs stop ts ns (extras @ [s]))"
  by pat_completeness auto
termination
  by (relation "measure (\<lambda>(specs, stop, ts, ns, extras). length ts)")
    (auto dest: cluster_shorter)

definition start_namespace :: "option_spec list \<Rightarrow> namespace" where
  "start_namespace specs =
     fold (\<lambda>opt ns. if opt_effect opt = ShowHelp then ns else dict_put (opt_dest opt) (opt_default opt) ns) specs []"

text \<open>\<^verbatim>\<open>parse_known_args\<close> of a parser with a positional argument \<open>d\<close> that takes all that remains, or none.\<close>

definition parse_known ::
  "option_spec list \<Rightarrow> string option \<Rightarrow> string list \<Rightarrow> (namespace \<times> string list) result" where
  "parse_known specs d args =
     bindr (classify specs args) (\<lambda>ts.
     bindr (parse_options specs (d \<noteq> None) ts (start_namespace specs) []) (\<lambda>(ns, extras, rest).
     Inr (case d of None \<Rightarrow> ns | Some x \<Rightarrow> dict_put x (VList (map Some rest)) ns, extras)))"

section \<open>What is read\<close>

lemma classify_args: "classify specs ss = Inr ts \<Longrightarrow> map fst ts = ss"
  by (induction ss arbitrary: ts) (auto simp: comp_def split: if_splits elim!: bindrE)

text \<open>Reading an argument fails in one way only, and then the whole command line fails, wherever the
  argument stands before a double dash.\<close>

lemma parse_optional_error: "parse_optional specs s = Inl e \<Longrightarrow> e = Exits 2"
  by (auto simp: parse_optional_def split: if_splits option.splits list.splits)

lemma classify_error: "classify specs ss = Inl e \<Longrightarrow> e = Exits 2"
  by (induction ss) (auto simp: bindr_eq_Inl dest: parse_optional_error split: if_splits)

lemma classify_ambiguous:
  assumes "parse_optional specs s = Inl e" and "[dash, dash] \<notin> set pre" and "s \<noteq> [dash, dash]"
  shows "classify specs (pre @ s # post) = Inl (Exits 2)"
  using assms(2)
proof (induction pre)
  case Nil
  with assms parse_optional_error [OF assms(1)] show ?case by simp
next
  case (Cons p pre)
  then show ?case using parse_optional_error [of specs p]
    by (cases "parse_optional specs p") auto
qed

text \<open>What is left for the positional argument is the end of the command line.\<close>

lemma parse_options_rest:
  "parse_options specs stop ts ns extras = Inr (ns', extras', rest) \<Longrightarrow> suffix rest (map fst ts)"
proof (induction specs stop ts ns extras rule: parse_options.induct)
  case (2 specs stop s r ts ns extras)
  show ?case
  proof (cases r)
    case (Known opt n eq e)
    with "2.prems" obtain acts left ts' ns1 where c: "cluster specs opt n eq e ts = Inr (acts, left, ts')"
      and f: "foldm take_action ns acts = Inr ns1"
      and p: "parse_options specs stop ts' ns1 (extras @ left) = Inr (ns', extras', rest)"
      by (auto elim!: bindrE)
    from "2.IH" Known c f p have "suffix rest (map fst ts')" by blast
    moreover from cluster_rest [OF c] have "suffix (map fst ts') (map fst ts)"
      by (auto simp: suffix_def)
    ultimately show ?thesis by (auto intro: suffix_order.trans suffix_ConsI)
  qed (use 2 in \<open>auto split: if_splits intro: suffix_ConsI\<close>)
qed simp

section \<open>Where the options end\<close>

text \<open>
  The arguments behind the options and their values, told from the arguments themselves.  Does an
  argument take the next one for its value?  An option does that takes a value and has none
  attached; of short options that stand together the last one may, if the others are flags.
\<close>

fun letters_take :: "option_spec list \<Rightarrow> string \<Rightarrow> bool" where
  "letters_take specs [] = False"
| "letters_take specs (c # cs) =
     (case find_option specs [dash, c] of
        None \<Rightarrow> False
      | Some opt \<Rightarrow> if opt_arity opt = NoValue then letters_take specs cs else cs = [])"

definition takes_next :: "option_spec list \<Rightarrow> reading \<Rightarrow> bool" where
  "takes_next specs r =
     (case r of
        Known opt n eq None \<Rightarrow> opt_arity opt \<noteq> NoValue
      | Known opt n eq (Some e) \<Rightarrow> opt_arity opt = NoValue \<and> letters_take specs e
      | _ \<Rightarrow> False)"

definition plain_word :: "option_spec list \<Rightarrow> string \<Rightarrow> bool" where
  "plain_word specs s \<longleftrightarrow> s \<noteq> [dash, dash] \<and> parse_optional specs s = Inr Positional"

definition without_value :: "option_spec list \<Rightarrow> string list \<Rightarrow> string list" where
  "without_value specs ss = (case ss of [] \<Rightarrow> [] | s # ss' \<Rightarrow> if plain_word specs s then ss' else ss)"

lemma without_value_shorter: "length (without_value specs ss) \<le> length ss"
  by (simp add: without_value_def split: list.split)

function behind_options :: "option_spec list \<Rightarrow> string list \<Rightarrow> string list" where
  "behind_options specs [] = []"
| "behind_options specs (s # ss) =
     (if s = [dash, dash] \<or> plain_word specs s then s # ss
      else case parse_optional specs s of
        Inl e \<Rightarrow> []
      | Inr r \<Rightarrow> behind_options specs (if takes_next specs r then without_value specs ss else ss))"
  by pat_completeness auto
termination
  by (relation "measure (\<lambda>(specs, ss). length ss)") (auto simp: le_imp_less_Suc without_value_shorter)

definition after_value :: "(string \<times> reading) list \<Rightarrow> (string \<times> reading) list" where
  "after_value ts = (case ts of (s, Positional) # ts' \<Rightarrow> ts' | _ \<Rightarrow> ts)"

lemma cluster_exact:
  "cluster specs opt n eq e rest = Inr (acts, [], ts) \<Longrightarrow>
     ts = (if takes_next specs (Known opt n eq e) then after_value rest else rest)"
proof (induction specs opt n eq e rest arbitrary: acts rule: cluster.induct)
  case (1 specs opt n eq rest)
  then show ?case
    by (auto simp: cluster.simps(1) takes_next_def after_value_def
        split: arity.splits list.splits prod.splits reading.splits)
next
  case (2 specs opt n eq e rest)
  show ?case
  proof (cases "opt_arity opt = NoValue")
    case False
    with "2.prems" show ?thesis by (auto simp: cluster.simps(2) takes_next_def)
  next
    case flag: True
    with "2.prems" have e: "\<not> (long_option n \<or> e = [] \<or> eq \<or> hd e = dash)" by (auto simp: cluster.simps(2))
    then obtain c cs where cs: "e = c # cs" by (cases e) auto
    from "2.prems" flag e cs obtain opt' where o: "find_option specs [dash, c] = Some opt'"
      by (auto simp: cluster.simps(2) split: option.splits)
    from "2.prems" flag e cs o obtain acts' where c:
      "(if cs = [] then cluster specs opt' [dash, c] False None rest
        else if hd cs = equals then cluster specs opt' [dash, c] True (Some (tl cs)) rest
        else cluster specs opt' [dash, c] False (Some cs) rest) = Inr (acts', [], ts)"
      by (auto simp: cluster.simps(2) elim!: bindrE simp del: if_split cong: if_cong)
    consider "cs = []" | "cs \<noteq> []" "hd cs = equals" | "cs \<noteq> []" "hd cs \<noteq> equals" by blast
    then show ?thesis
    proof cases
      case 1
      with "2.IH"(1) [of opt' acts'] c o e flag cs show ?thesis by (simp add: takes_next_def)
    next
      case 2
      with c have "opt_arity opt' \<noteq> NoValue" by (auto simp: cluster.simps(2) split: if_splits)
      with 2 "2.IH"(2) [of opt' acts'] c o e flag cs show ?thesis by (simp add: takes_next_def)
    next
      case 3
      with "2.IH"(3) [of opt' acts'] c o e flag cs show ?thesis by (simp add: takes_next_def)
    qed
  qed
qed

lemma parse_options_extras:
  "parse_options specs stop ts ns extras = Inr (ns', extras', rest) \<Longrightarrow> prefix extras extras'"
proof (induction specs stop ts ns extras rule: parse_options.induct)
  case (2 specs stop s r ts ns extras)
  show ?case
  proof (cases r)
    case (Known opt n eq e)
    with "2.prems" obtain acts left ts' ns1 where c: "cluster specs opt n eq e ts = Inr (acts, left, ts')"
      and f: "foldm take_action ns acts = Inr ns1"
      and p: "parse_options specs stop ts' ns1 (extras @ left) = Inr (ns', extras', rest)"
      by (auto elim!: bindrE)
    from "2.IH" Known c f p have "prefix (extras @ left) extras'" by blast
    then show ?thesis by (auto simp: prefix_def)
  qed (use 2 in \<open>auto split: if_splits simp: prefix_def\<close>)
qed simp

text \<open>The readings of the arguments, as far as the first double dash.\<close>

lemma classify_Cons:
  assumes "classify specs ss = Inr ((s, r) # ts)"
  obtains ss' where "ss = s # ss'" and "map fst ts = ss'"
    and "if s = [dash, dash] then r = DashDash else parse_optional specs s = Inr r \<and> classify specs ss' = Inr ts"
  using assms classify_args [OF assms]
  by (cases ss) (auto split: if_splits elim!: bindrE)

lemma parse_optional_reading: "parse_optional specs s = Inr r \<Longrightarrow> r \<noteq> DashDash"
proof -
  have "DashDash \<notin> set (option_tuples specs s)"
    by (auto simp: option_tuples_def long_tuple_def short_tuple_def split: if_splits)
  then show "parse_optional specs s = Inr r \<Longrightarrow> r \<noteq> DashDash"
    by (auto simp: parse_optional_def split: if_splits option.splits list.splits)
qed

lemma parse_options_behind:
  "parse_options specs stop ts ns extras = Inr (ns', [], rest) \<Longrightarrow> stop \<Longrightarrow> classify specs ss = Inr ts \<Longrightarrow>
     rest = behind_options specs ss"
proof (induction specs stop ts ns extras arbitrary: ss rule: parse_options.induct)
  case (1 specs stop ns extras)
  from classify_args [OF "1.prems"(3)] "1.prems"(1) show ?case by simp
next
  case (2 specs stop s r ts ns extras)
  from "2.prems"(3) obtain ss' where ss: "ss = s # ss'" "map fst ts = ss'"
    and r: "if s = [dash, dash] then r = DashDash else parse_optional specs s = Inr r \<and> classify specs ss' = Inr ts"
    by (rule classify_Cons)
  show ?case
  proof (cases r)
    case (Known opt n eq e)
    then have read: "s \<noteq> [dash, dash]" "parse_optional specs s = Inr (Known opt n eq e)" "classify specs ss' = Inr ts"
      using r by (auto split: if_splits)
    from "2.prems"(1) Known obtain acts left ts' ns1 where c: "cluster specs opt n eq e ts = Inr (acts, left, ts')"
      and f: "foldm take_action ns acts = Inr ns1"
      and p: "parse_options specs stop ts' ns1 (extras @ left) = Inr (ns', [], rest)"
      by (auto elim!: bindrE)
    have left: "left = []" using parse_options_extras [OF p] by simp
    let ?ss = "if takes_next specs (Known opt n eq e) then without_value specs ss' else ss'"
    have "classify specs ?ss = Inr ts'"
    proof (cases ts)
      case Nil
      with cluster_exact [OF c [unfolded left]] read(3) ss(2) show ?thesis by (simp add: without_value_def after_value_def)
    next
      case (Cons t ts1)
      obtain s1 r1 where t: "t = (s1, r1)" by fastforce
      from read(3) obtain ss1 where s1: "ss' = s1 # ss1"
        and r1: "if s1 = [dash, dash] then r1 = DashDash else parse_optional specs s1 = Inr r1 \<and> classify specs ss1 = Inr ts1"
        unfolding Cons t by (rule classify_Cons)
      then have "plain_word specs s1 \<longleftrightarrow> r1 = Positional" by (auto simp: plain_word_def split: if_splits)
      with cluster_exact [OF c [unfolded left]] read(3) s1 r1 Cons t show ?thesis
        by (cases r1) (auto simp: without_value_def after_value_def plain_word_def split: if_splits)
    qed
    with "2.IH" Known c f p "2.prems"(2) have "rest = behind_options specs ?ss" by blast
    with read ss(1) show ?thesis by (simp add: plain_word_def)
  next
    case UnknownOption
    with "2.prems"(1) parse_options_extras show ?thesis by fastforce
  qed (use "2.prems"(1,2) ss r in \<open>auto simp: plain_word_def split: if_splits dest: parse_optional_reading\<close>)
qed

lemma parse_known_behind:
  assumes "parse_known specs (Some d) ss = Inr (ns, [])"
  shows "dict_get ns d = Some (VList (map Some (behind_options specs ss)))"
proof -
  from assms obtain ts ns0 rest where "classify specs ss = Inr ts"
    and "parse_options specs True ts (start_namespace specs) [] = Inr (ns0, [], rest)"
    and "ns = dict_put d (VList (map Some rest)) ns0"
    by (auto simp: parse_known_def simp del: not_None_eq elim!: bindrE)
  with parse_options_behind show ?thesis by (auto simp: update_conv')
qed

section \<open>Settings\<close>

text \<open>
  An option written out in full, with its value after an equals sign if it takes one; what it does to the
  namespace.
\<close>

type_synonym setting = "option_spec \<times> string \<times> string option"

definition show_setting :: "setting \<Rightarrow> string" where
  "show_setting x = (case x of (opt, n, v) \<Rightarrow> case v of None \<Rightarrow> n | Some s \<Rightarrow> n @ equals # s)"

definition apply_setting :: "namespace \<Rightarrow> setting \<Rightarrow> namespace" where
  "apply_setting ns x =
     (case x of (opt, n, v) \<Rightarrow>
        dict_put (opt_dest opt)
          (case opt_effect opt of
             AppendValue \<Rightarrow> VList (items ns (opt_dest opt) @ [v])
           | SetValue \<Rightarrow> (case v of None \<Rightarrow> VNone | Some s \<Rightarrow> VText s)
           | _ \<Rightarrow> VBool True) ns)"

definition plain_names :: "option_spec list \<Rightarrow> bool" where
  "plain_names specs \<longleftrightarrow> list_all (\<lambda>no. equals \<notin> set (fst no)) (option_strings specs)"

definition valid_setting :: "option_spec list \<Rightarrow> setting \<Rightarrow> bool" where
  "valid_setting specs x \<longleftrightarrow>
     (case x of (opt, n, v) \<Rightarrow>
        long_option n \<and> n \<noteq> [dash, dash] \<and> find_option specs n = Some opt \<and> opt_effect opt \<noteq> ShowHelp \<and>
        (case v of
           None \<Rightarrow> opt_arity opt = NoValue
         | Some s \<Rightarrow> opt_arity opt \<noteq> NoValue \<and> opt_effect opt \<noteq> SetTrue \<and> check_choice opt s = Inr s))"

lemma partition_eq_first: "equals \<notin> set n \<Longrightarrow> partition_eq (n @ equals # s) = (n, Some s)"
  by (induction n) (auto simp: partition_eq_def)

lemma partition_eq_whole: "equals \<notin> set n \<Longrightarrow> partition_eq n = (n, None)"
  by (induction n) (auto simp: partition_eq_def)

lemma found_plain: "plain_names specs \<Longrightarrow> find_option specs n = Some opt \<Longrightarrow> equals \<notin> set n"
  by (auto simp: plain_names_def find_option_def list_all_iff dest!: map_of_SomeD)

lemma setting_read:
  assumes "plain_names specs" and "valid_setting specs (opt, n, v)"
  shows "parse_optional specs (show_setting (opt, n, v)) = Inr (Known opt n (v \<noteq> None) v)"
    and "show_setting (opt, n, v) \<noteq> [dash, dash]"
proof -
  from assms(2) obtain m where n: "n = dash # dash # m" "m \<noteq> []" and f: "find_option specs n = Some opt"
    by (auto simp: valid_setting_def long_option_def prefix_def)
  note plain = found_plain [OF assms(1) f]
  have none: "find_option specs (n @ equals # s) = None" for s
    using found_plain [OF assms(1), of "n @ equals # s"] by (cases "find_option specs (n @ equals # s)") auto
  have hd: "\<not> (n @ s = [] \<or> hd (n @ s) \<noteq> dash)" and len: "length (n @ s) \<noteq> 1" for s
    by (simp_all add: n(1))
  show "parse_optional specs (show_setting (opt, n, v)) = Inr (Known opt n (v \<noteq> None) v)"
  proof (cases v)
    case None
    with hd [of "[]"] f show ?thesis by (simp add: parse_optional_def show_setting_def)
  next
    case (Some s)
    have "parse_optional specs (n @ equals # s) = Inr (Known opt n True (Some s))"
      unfolding parse_optional_def if_not_P [OF hd] none option.case if_not_P [OF len]
        partition_eq_first [OF plain] fst_conv snd_conv by (simp add: f)
    with Some show ?thesis by (simp add: show_setting_def)
  qed
  show "show_setting (opt, n, v) \<noteq> [dash, dash]"
    using n by (cases v) (auto simp: show_setting_def)
qed

lemma setting_step:
  assumes "valid_setting specs (opt, n, v)"
  shows "parse_options specs stop ((s, Known opt n (v \<noteq> None) v) # ts) ns extras =
    parse_options specs stop ts (apply_setting ns (opt, n, v)) extras"
proof -
  have "cluster specs opt n (v \<noteq> None) v ts = Inr ([(opt, case v of None \<Rightarrow> [] | Some s \<Rightarrow> [s])], [], ts)"
    using assms by (cases v) (simp_all add: cluster.simps valid_setting_def)
  moreover have "take_action ns (opt, case v of None \<Rightarrow> [] | Some s \<Rightarrow> [s]) = Inr (apply_setting ns (opt, n, v))"
    using assms
    by (cases v; cases "opt_effect opt")
      (simp_all add: take_action_def apply_setting_def given_value_def valid_setting_def)
  ultimately show ?thesis by simp
qed

lemma settings_classified:
  assumes "plain_names specs" and "\<forall>x \<in> set xs. valid_setting specs x" and "classify specs rest = Inr ts"
  shows "classify specs (map show_setting xs @ rest) =
    Inr (map (\<lambda>(opt, n, v). (show_setting (opt, n, v), Known opt n (v \<noteq> None) v)) xs @ ts)"
  using assms(2)
proof (induction xs)
  case (Cons x xs)
  obtain opt n v where x: "x = (opt, n, v)" by (cases x)
  with Cons.prems setting_read [OF assms(1), of opt n v] Cons.IH show ?case by simp
qed (simp add: assms(3))

text \<open>Options written out in full are read back, and the rest of the command line is left alone.\<close>

lemma settings_parsed:
  assumes "\<forall>x \<in> set xs. valid_setting specs x" and "ts = [] \<or> snd (hd ts) \<in> {Positional, DashDash}"
  shows "parse_options specs True
      (map (\<lambda>(opt, n, v). (show_setting (opt, n, v), Known opt n (v \<noteq> None) v)) xs @ ts) ns extras =
    Inr (foldl apply_setting ns xs, extras, map fst ts)"
  using assms(1)
proof (induction xs arbitrary: ns)
  case Nil
  with assms(2) show ?case by (cases ts; cases "snd (hd ts)") auto
next
  case (Cons x xs)
  obtain opt n v where x: "x = (opt, n, v)" by (cases x)
  with Cons setting_step [of specs opt n v] show ?case
    by (simp del: not_None_eq parse_options.simps)
qed

lemma settings_read_back:
  assumes "plain_names specs" and "\<forall>x \<in> set xs. valid_setting specs x" and "classify specs rest = Inr ts"
    and "ts = [] \<or> snd (hd ts) \<in> {Positional, DashDash}"
  shows "parse_known specs (Some d) (map show_setting xs @ rest) =
    Inr (dict_put d (VList (map Some rest)) (foldl apply_setting (start_namespace specs) xs), [])"
  using settings_parsed [OF assms(2,4)] classify_args [OF assms(3)]
  by (simp add: parse_known_def settings_classified [OF assms(1,2,3)])

text \<open>Arguments that can be read, and options of another parser that can be.\<close>

definition readable :: "option_spec list \<Rightarrow> string \<Rightarrow> bool" where
  "readable specs s \<longleftrightarrow> \<not> isl (parse_optional specs s)"

lemma classify_readable: "\<forall>s \<in> set ss. readable specs s \<Longrightarrow> \<exists>ts. classify specs ss = Inr ts"
proof (induction ss)
  case (Cons s ss)
  then obtain r ts where "parse_optional specs s = Inr r" "classify specs ss = Inr ts"
    by (cases "parse_optional specs s") (auto simp: readable_def)
  then show ?case by simp
qed simp

definition foreign :: "option_spec list \<Rightarrow> string \<Rightarrow> bool" where
  "foreign specs n \<longleftrightarrow> long_option n \<and> equals \<notin> set n \<and> list_all (\<lambda>no. \<not> prefix n (fst no)) (option_strings specs)"

lemma foreign_readable:
  assumes "foreign specs n" and "plain_names specs"
  shows "readable specs (show_setting (opt, n, v))"
proof -
  from assms(1) obtain m where n: "n = dash # dash # m" "equals \<notin> set n"
    and off: "\<forall>no \<in> set (option_strings specs). \<not> prefix n (fst no)"
    by (auto simp: foreign_def long_option_def prefix_def list_all_iff)
  have part: "fst (partition_eq (show_setting (opt, n, v))) = n" for v
    using partition_eq_first [OF n(2)] partition_eq_whole [OF n(2)]
    by (cases v) (simp_all add: show_setting_def)
  have long: "long_option (show_setting (opt, n, v))"
    by (cases v) (simp_all add: show_setting_def long_option_def n(1))
  have "concat (map (long_tuple (partition_eq (show_setting (opt, n, v)))) (option_strings specs)) = []"
    using off by (simp add: long_tuple_def part)
  then have "option_tuples specs (show_setting (opt, n, v)) = []" by (simp add: option_tuples_def long)
  moreover have "find_option specs n = None"
    using off by (auto simp: find_option_def map_of_eq_None_iff)
  ultimately show ?thesis
    by (auto simp: readable_def parse_optional_def part split: option.splits)
qed

text \<open>What a sequence of settings leaves under a name.\<close>

lemma apply_other: "opt_dest (fst x) \<noteq> d \<Longrightarrow> dict_get (apply_setting ns x) d = dict_get ns d"
  by (cases x) (simp add: apply_setting_def update_conv')

lemma items_other: "opt_dest (fst x) \<noteq> d \<Longrightarrow> items (apply_setting ns x) d = items ns d"
  by (simp add: items_def apply_other)

lemma settings_under:
  "dict_get (foldl apply_setting ns xs) d =
   dict_get (foldl apply_setting ns (filter (\<lambda>x. opt_dest (fst x) = d) xs)) d"
proof -
  have "dict_get (foldl apply_setting ns xs) d =
      dict_get (foldl apply_setting ns' (filter (\<lambda>x. opt_dest (fst x) = d) xs)) d"
    if "dict_get ns d = dict_get ns' d" for ns ns'
    using that
  proof (induction xs arbitrary: ns ns')
    case (Cons x xs)
    show ?case
    proof (cases "opt_dest (fst x) = d")
      case True
      have "items ns d = items ns' d" using Cons.prems by (simp add: items_def)
      with True have "dict_get (apply_setting ns x) d = dict_get (apply_setting ns' x) d"
        by (cases x) (simp add: apply_setting_def update_conv' split: effect.split)
      from Cons.IH [OF this] True show ?thesis by simp
    next
      case False
      with Cons.prems have "dict_get (apply_setting ns x) d = dict_get ns' d" by (simp add: apply_other)
      from Cons.IH [OF this] False show ?thesis by simp
    qed
  qed simp
  then show ?thesis by blast
qed

section \<open>What the options leave\<close>

lemma find_option_in: "find_option specs n = Some opt \<Longrightarrow> opt \<in> set specs"
  by (auto simp: find_option_def option_strings_def dest!: map_of_SomeD)

lemma parse_optional_in: "parse_optional specs s = Inr (Known opt n q e) \<Longrightarrow> opt \<in> set specs"
proof -
  assume p: "parse_optional specs s = Inr (Known opt n q e)"
  have "opt \<in> set specs" if "Known opt n q e \<in> set (option_tuples specs s)"
    using that by (auto simp: option_tuples_def option_strings_def long_tuple_def short_tuple_def split: if_splits)
  with p find_option_in show ?thesis
    by (fastforce simp: parse_optional_def split: if_splits option.splits list.splits)
qed

definition from_specs :: "option_spec list \<Rightarrow> string \<times> reading \<Rightarrow> bool" where
  "from_specs specs t = (case snd t of Known opt n q e \<Rightarrow> opt \<in> set specs | _ \<Rightarrow> True)"

lemma classify_in: "classify specs ss = Inr ts \<Longrightarrow> list_all (from_specs specs) ts"
proof (induction ss arbitrary: ts)
  case (Cons s ss)
  show ?case
  proof (cases "s = [dash, dash]")
    case True
    with Cons.prems show ?thesis by (auto simp: from_specs_def list_all_iff)
  next
    case False
    with Cons.prems obtain r ts' where r: "parse_optional specs s = Inr r" and "classify specs ss = Inr ts'"
      and ts: "ts = (s, r) # ts'" by (auto elim!: bindrE)
    with Cons.IH have "list_all (from_specs specs) ts'" by blast
    moreover have "from_specs specs (s, r)"
      using r parse_optional_in by (cases r) (auto simp: from_specs_def)
    ultimately show ?thesis by (simp add: ts)
  qed
qed simp

lemma cluster_in:
  "cluster specs opt n eq e rest = Inr (acts, left, ts) \<Longrightarrow> opt \<in> set specs \<Longrightarrow> \<forall>a \<in> set acts. fst a \<in> set specs"
proof (induction specs opt n eq e rest arbitrary: acts left rule: cluster.induct)
  case (1 specs opt n eq rest)
  then show ?case
    by (auto simp: cluster.simps(1) split: arity.splits list.splits prod.splits reading.splits)
next
  case (2 specs opt n eq e rest)
  show ?case
  proof (cases "opt_arity opt \<noteq> NoValue \<or> long_option n \<or> e = [] \<or> eq \<or> hd e = dash \<or> find_option specs [dash, hd e] = None")
    case True
    with "2.prems" show ?thesis by (auto simp: cluster.simps(2) split: if_splits option.splits)
  next
    case False
    then obtain opt' where o: "find_option specs [dash, hd e] = Some opt'" by auto
    let ?c = "if tl e = [] then cluster specs opt' [dash, hd e] False None rest
       else if hd (tl e) = equals then cluster specs opt' [dash, hd e] True (Some (tl (tl e))) rest
       else cluster specs opt' [dash, hd e] False (Some (tl e)) rest"
    from "2.prems" False o obtain acts' where acts: "?c = Inr (acts', left, ts)" "acts = (opt, []) # acts'"
      by (auto simp: cluster.simps(2) elim!: bindrE simp del: if_split)
    have "\<forall>a \<in> set acts'. fst a \<in> set specs"
      using "2.IH" False o acts(1) find_option_in [OF o] by (simp split: if_split_asm)
    with "2.prems"(2) acts(2) show ?thesis by simp
  qed
qed

text \<open>What the action of every option keeps, the loop keeps.\<close>

lemma actions_keep:
  assumes "foldm take_action ns acts = Inr ns'" and "\<forall>a \<in> set acts. fst a \<in> S" and "P ns"
    and "\<And>ns act ns'. P ns \<Longrightarrow> fst act \<in> S \<Longrightarrow> take_action ns act = Inr ns' \<Longrightarrow> P ns'"
  shows "P ns'"
  using assms(1-3) by (induction acts arbitrary: ns) (auto elim!: bindrE dest: assms(4))

lemma parse_options_invariant:
  assumes "parse_options specs stop ts ns extras = Inr (ns', extras', rest)"
    and "list_all (from_specs specs) ts" and "P ns"
    and "\<And>ns act ns'. P ns \<Longrightarrow> fst act \<in> set specs \<Longrightarrow> take_action ns act = Inr ns' \<Longrightarrow> P ns'"
  shows "P ns'"
  using assms
proof (induction specs stop ts ns extras rule: parse_options.induct)
  case (2 specs stop s r ts ns extras)
  show ?case
  proof (cases r)
    case (Known opt n eq e)
    with "2.prems"(1) obtain acts left ts' ns1 where c: "cluster specs opt n eq e ts = Inr (acts, left, ts')"
      and f: "foldm take_action ns acts = Inr ns1"
      and p: "parse_options specs stop ts' ns1 (extras @ left) = Inr (ns', extras', rest)"
      by (auto elim!: bindrE)
    have opt: "opt \<in> set specs" using "2.prems"(2) Known by (simp add: from_specs_def)
    have P1: "P ns1" using f cluster_in [OF c opt] "2.prems"(3,4) by (rule actions_keep)
    have "list_all (from_specs specs) ts'"
      using "2.prems"(2) cluster_rest [OF c] by (auto simp: suffix_def)
    with "2.IH" Known c f p P1 "2.prems"(4) show ?thesis by blast
  qed (use 2 in \<open>auto split: if_splits\<close>)
qed simp

lemma parse_known_invariant:
  assumes "parse_known specs d args = Inr (ns, extras)" and "P (start_namespace specs)"
    and "\<And>ns act ns'. P ns \<Longrightarrow> fst act \<in> set specs \<Longrightarrow> take_action ns act = Inr ns' \<Longrightarrow> P ns'"
  shows "\<exists>ns0 rest. P ns0 \<and> suffix rest args \<and>
    ns = (case d of None \<Rightarrow> ns0 | Some x \<Rightarrow> dict_put x (VList (map Some rest)) ns0)"
proof -
  from assms(1) obtain ts ns0 rest where ts: "classify specs args = Inr ts"
    and p: "parse_options specs (d \<noteq> None) ts (start_namespace specs) [] = Inr (ns0, extras, rest)"
    and ns: "ns = (case d of None \<Rightarrow> ns0 | Some x \<Rightarrow> dict_put x (VList (map Some rest)) ns0)"
    by (auto simp: parse_known_def simp del: not_None_eq elim!: bindrE)
  from parse_options_invariant [where P = P, OF p classify_in [OF ts] assms(2,3)] have "P ns0" .
  moreover have "suffix rest args"
    using parse_options_rest [OF p] classify_args [OF ts] by simp
  ultimately show ?thesis using ns by blast
qed

text \<open>The shape of the value of an option, and of the whole namespace.\<close>

definition fits :: "option_spec \<Rightarrow> arg_value \<Rightarrow> bool" where
  "fits opt v =
     (case opt_effect opt of
        ShowHelp \<Rightarrow> True
      | SetTrue \<Rightarrow> (case v of VBool b \<Rightarrow> True | _ \<Rightarrow> False)
      | SetValue \<Rightarrow> (case v of VNone \<Rightarrow> True
                      | VText s \<Rightarrow> v = opt_default opt \<or> check_choice opt s = Inr s
                      | _ \<Rightarrow> False)
      | AppendValue \<Rightarrow> (case v of VNone \<Rightarrow> True | VList xs \<Rightarrow> xs \<noteq> [] | _ \<Rightarrow> False))"

definition typed :: "option_spec list \<Rightarrow> namespace \<Rightarrow> bool" where
  "typed specs ns \<longleftrightarrow>
     list_all (\<lambda>opt. opt_effect opt = ShowHelp \<or>
       (case dict_get ns (opt_dest opt) of None \<Rightarrow> False | Some v \<Rightarrow> fits opt v)) specs"

definition well_formed :: "option_spec list \<Rightarrow> bool" where
  "well_formed specs \<longleftrightarrow> distinct (map opt_dest specs) \<and> list_all (\<lambda>opt. fits opt (opt_default opt)) specs"

lemma typed_put:
  assumes "typed specs ns" and "opt \<in> set specs" and "distinct (map opt_dest specs)" and "fits opt v"
  shows "typed specs (dict_put (opt_dest opt) v ns)"
proof -
  have "opt' = opt" if "opt' \<in> set specs" "opt_dest opt' = opt_dest opt" for opt'
    using assms(2,3) that by (auto simp: distinct_map dest: inj_onD)
  with assms(1,4) show ?thesis
    by (auto simp: typed_def list_all_iff update_conv')
qed

lemma typed_put_other:
  assumes "typed specs ns" and "d \<notin> opt_dest ` set specs"
  shows "typed specs (dict_put d v ns)"
proof -
  have "dict_get (dict_put d v ns) (opt_dest opt) = dict_get ns (opt_dest opt)" if "opt \<in> set specs" for opt
  proof -
    from that assms(2) have "opt_dest opt \<noteq> d" by blast
    then show ?thesis by (simp add: update_conv')
  qed
  with assms(1) show ?thesis by (simp add: typed_def list_all_iff)
qed

lemma take_action_typed:
  assumes "well_formed specs" and "typed specs ns" and "fst act \<in> set specs" and "take_action ns act = Inr ns'"
  shows "typed specs ns'"
proof -
  obtain opt ss where act: "act = (opt, ss)" by (cases act)
  have "\<exists>v. ns' = dict_put (opt_dest opt) v ns \<and> fits opt v"
    using assms(4) unfolding act
    by (cases "opt_effect opt")
      (auto simp: take_action_def fits_def given_value_def check_choice_def elim!: bindrE split: list.splits option.splits if_splits)
  with assms act show ?thesis by (auto simp: well_formed_def intro: typed_put)
qed

lemma start_typed: "well_formed specs \<Longrightarrow> typed specs (start_namespace specs)"
proof (induction specs rule: rev_induct)
  case (snoc opt specs)
  then have ih: "typed specs (start_namespace specs)" and d: "opt_dest opt \<notin> opt_dest ` set specs"
    and f: "fits opt (opt_default opt)" by (auto simp: well_formed_def)
  have start: "start_namespace (specs @ [opt]) = (if opt_effect opt = ShowHelp then start_namespace specs
      else dict_put (opt_dest opt) (opt_default opt) (start_namespace specs))"
    by (simp add: start_namespace_def)
  show ?case
  proof (cases "opt_effect opt = ShowHelp")
    case True
    with ih start show ?thesis by (simp add: typed_def)
  next
    case False
    with typed_put_other [OF ih d, of "opt_default opt"] f start show ?thesis
      by (simp add: typed_def update_conv')
  qed
qed (simp add: typed_def)

lemma start_distinct: "distinct (map fst (start_namespace specs))"
proof -
  have "distinct (map fst ns) \<Longrightarrow> distinct (map fst (fold (\<lambda>opt ns. if opt_effect opt = ShowHelp then ns
      else dict_put (opt_dest opt) (opt_default opt) ns) specs ns))" for ns :: namespace
    by (induction specs arbitrary: ns) (auto simp: distinct_update)
  then show ?thesis by (simp add: start_namespace_def)
qed

lemma take_action_distinct:
  "distinct (map fst ns) \<Longrightarrow> take_action ns act = Inr ns' \<Longrightarrow> distinct (map fst ns')"
  by (auto simp: take_action_def distinct_update elim!: bindrE split: prod.splits effect.splits)

lemma take_action_keys:
  assumes "k \<notin> opt_dest ` set specs" and "dict_get ns k = None" and "fst act \<in> set specs" and "take_action ns act = Inr ns'"
  shows "dict_get ns' k = None"
proof -
  from assms(4) obtain v where "ns' = dict_put (opt_dest (fst act)) v ns"
    by (auto simp: take_action_def elim!: bindrE split: prod.splits effect.splits)
  moreover have "opt_dest (fst act) \<noteq> k" using assms(1,3) by blast
  ultimately show ?thesis using assms(2) by (simp add: update_conv')
qed

lemma start_keys: "k \<notin> opt_dest ` set specs \<Longrightarrow> dict_get (start_namespace specs) k = None"
  by (induction specs rule: rev_induct) (auto simp: start_namespace_def update_conv')

lemma parse_known_keys:
  assumes "parse_known specs d args = Inr (ns, extras)" and "d \<noteq> Some k" and "k \<notin> opt_dest ` set specs"
  shows "dict_get ns k = None"
proof -
  let ?P = "\<lambda>ns. dict_get ns k = None"
  have "\<exists>ns0 rest. ?P ns0 \<and> suffix rest args \<and>
      ns = (case d of None \<Rightarrow> ns0 | Some x \<Rightarrow> dict_put x (VList (map Some rest)) ns0)"
    by (rule parse_known_invariant [where P = ?P, OF assms(1) start_keys [OF assms(3)]])
      (rule take_action_keys [OF assms(3)])
  with assms(2) show ?thesis by (cases d) (auto simp: update_conv')
qed

text \<open>The namespace of a parser that takes the rest as \<open>d\<close>.\<close>

lemma parse_known_typed:
  assumes "parse_known specs (Some d) args = Inr (ns, extras)" and "well_formed specs" and "d \<notin> opt_dest ` set specs"
  shows "typed specs ns" and "distinct (map fst ns)"
    and "\<exists>rest. suffix rest args \<and> dict_get ns d = Some (VList (map Some rest))"
proof -
  let ?P = "\<lambda>ns. typed specs ns \<and> distinct (map fst ns)"
  have start: "?P (start_namespace specs)" using assms(2) by (simp add: start_typed start_distinct)
  have "\<exists>ns0 rest. ?P ns0 \<and> suffix rest args \<and>
      ns = (case Some d of None \<Rightarrow> ns0 | Some x \<Rightarrow> dict_put x (VList (map Some rest)) ns0)"
  proof (rule parse_known_invariant [where P = ?P, OF assms(1) start])
    fix ns act ns' assume "?P ns" "fst act \<in> set specs" "take_action ns act = Inr ns'"
    then show "?P ns'" using take_action_typed [OF assms(2)] take_action_distinct by blast
  qed
  then obtain ns0 rest where ns0: "?P ns0" and rest: "suffix rest args"
    and ns: "ns = dict_put d (VList (map Some rest)) ns0" by auto
  show "typed specs ns" unfolding ns by (rule typed_put_other) (use ns0 assms(3) in simp_all)
  show "distinct (map fst ns)" unfolding ns using ns0 by (simp add: distinct_update)
  show "\<exists>rest. suffix rest args \<and> dict_get ns d = Some (VList (map Some rest))"
    using rest ns by (auto simp: update_conv')
qed

section \<open>Writing settings\<close>

text \<open>
  The options of a command line as a list of names with the values of their occurrences, none for an
  option without a value.
\<close>

type_synonym fields = "(string \<times> string option list) list"

definition option_of :: "option_spec list \<Rightarrow> string \<Rightarrow> option_spec" where
  "option_of specs n = the (find_option specs n)"

definition occurrences :: "option_spec list \<Rightarrow> fields \<Rightarrow> setting list" where
  "occurrences specs fs = concat (map (\<lambda>(n, vs). map (\<lambda>v. (option_of specs n, n, v)) vs) fs)"

definition entered :: "option_spec list \<Rightarrow> fields \<Rightarrow> namespace" where
  "entered specs fs = foldl apply_setting (start_namespace specs) (occurrences specs fs)"

lemma settings_of_dest:
  assumes "distinct (map (\<lambda>f. opt_dest (option_of specs (fst f))) fs)" and "(n, vs) \<in> set fs"
  shows "filter (\<lambda>x. opt_dest (fst x) = opt_dest (option_of specs n)) (occurrences specs fs) =
    map (\<lambda>v. (option_of specs n, n, v)) vs"
  using assms
proof (induction fs)
  case (Cons f fs)
  obtain m ws where f: "f = (m, ws)" by (cases f)
  let ?d = "\<lambda>n. opt_dest (option_of specs n)"
  have off: "filter (\<lambda>x. opt_dest (fst x) = ?d k) (occurrences specs fs) = []" if "?d k \<notin> ?d ` fst ` set fs" for k
  proof -
    have "?d a \<noteq> ?d k" if "(a, b) \<in> set fs" for a b
      using that \<open>?d k \<notin> ?d ` fst ` set fs\<close> by (metis fst_conv imageI)
    then show ?thesis by (fastforce simp: occurrences_def filter_empty_conv)
  qed
  have split: "occurrences specs (f # fs) = map (\<lambda>v. (option_of specs m, m, v)) ws @ occurrences specs fs"
    by (simp add: occurrences_def f)
  show ?case
  proof (cases "(n, vs) = f")
    case True
    with Cons.prems(1) off [of n] f split show ?thesis by (auto simp: image_image)
  next
    case False
    with Cons.prems have mem: "(n, vs) \<in> set fs" by simp
    with Cons.prems(1) f have "?d m \<noteq> ?d n" by force
    then have "filter (\<lambda>x. opt_dest (fst x) = ?d n) (map (\<lambda>v. (option_of specs m, m, v)) ws) = []"
      by (simp add: filter_empty_conv)
    with Cons.IH [OF _ mem] Cons.prems(1) split show ?thesis by simp
  qed
qed simp

lemma entered_get:
  assumes "distinct (map (\<lambda>f. opt_dest (option_of specs (fst f))) fs)" and "(n, vs) \<in> set fs"
  shows "dict_get (entered specs fs) (opt_dest (option_of specs n)) =
    dict_get (foldl apply_setting (start_namespace specs) (map (\<lambda>v. (option_of specs n, n, v)) vs))
      (opt_dest (option_of specs n))"
  unfolding entered_def
  by (subst settings_under) (simp only: settings_of_dest [OF assms])

lemma settings_append:
  assumes "opt_effect opt = AppendValue" and "vs \<noteq> []"
  shows "dict_get (foldl apply_setting ns (map (\<lambda>v. (opt, n, v)) vs)) (opt_dest opt) =
    Some (VList (items ns (opt_dest opt) @ vs))"
  using assms(2)
proof (induction vs arbitrary: ns)
  case (Cons v vs)
  have "items (apply_setting ns (opt, n, v)) (opt_dest opt) = items ns (opt_dest opt) @ [v]"
    using assms(1) by (simp add: items_def apply_setting_def update_conv')
  with Cons.IH assms(1) show ?case
    by (cases "vs = []") (simp_all add: apply_setting_def update_conv')
qed simp

end
