(* ===== verification/Py_Steps.thy ===== *)
theory Py_Steps
  imports Py_Prelude
begin

text \<open>
  Code that changes a state and may raise with the state changed: an action gives a result and
  the next state, so that a handler or a \<^verbatim>\<open>finally\<close> block goes on from what the failed part left.
\<close>

type_synonym ('s, 'a) action = "'s \<Rightarrow> 'a result \<times> 's"

definition and_then :: "('s, 'a) action \<Rightarrow> ('a \<Rightarrow> ('s, 'b) action) \<Rightarrow> ('s, 'b) action" where
  "and_then m f h = (case m h of (Inl e, h') \<Rightarrow> (Inl e, h') | (Inr x, h') \<Rightarrow> f x h')"

definition give :: "'a \<Rightarrow> ('s, 'a) action" where
  "give x h = (Inr x, h)"

definition raise :: "py_error \<Rightarrow> ('s, 'a) action" where
  "raise e h = (Inl e, h)"

text \<open>\<^verbatim>\<open>try: m except\<close>: the handler gets the error and the state the failed part left.\<close>

definition handle :: "('s, 'a) action \<Rightarrow> (py_error \<Rightarrow> ('s, 'a) action) \<Rightarrow> ('s, 'a) action" where
  "handle m f h = (case m h of (Inl e, h') \<Rightarrow> f e h' | (Inr x, h') \<Rightarrow> (Inr x, h'))"

text \<open>\<^verbatim>\<open>try: m finally: c\<close>: what the clean-up raises replaces what the body did.\<close>

definition finally_do :: "('s, 'a) action \<Rightarrow> ('s, unit) action \<Rightarrow> ('s, 'a) action" where
  "finally_do m c h =
     (case m h of (r, h1) \<Rightarrow> case c h1 of (Inl e, h2) \<Rightarrow> (Inl e, h2) | (Inr u, h2) \<Rightarrow> (r, h2))"

text \<open>A change that happens as a whole or not at all, a question that changes nothing, and a \<^verbatim>\<open>for\<close>.\<close>

definition attempt :: "('s \<Rightarrow> 's result) \<Rightarrow> ('s, unit) action" where
  "attempt f h = (case f h of Inl e \<Rightarrow> (Inl e, h) | Inr h' \<Rightarrow> (Inr (), h'))"

definition ask :: "('s \<Rightarrow> 'a result) \<Rightarrow> ('s, 'a) action" where
  "ask f h = (f h, h)"

primrec for_each :: "('a \<Rightarrow> ('s, unit) action) \<Rightarrow> 'a list \<Rightarrow> ('s, unit) action" where
  "for_each f [] = give ()"
| "for_each f (x # xs) = and_then (f x) (\<lambda>_. for_each f xs)"

named_theorems step_simps "running actions"

lemma and_then_give [simp, step_simps]: "and_then (give x) f = f x"
  by (simp add: and_then_def give_def fun_eq_iff)

lemma and_then_raise [simp, step_simps]: "and_then (raise e) f = raise e"
  by (simp add: and_then_def raise_def fun_eq_iff)

lemma and_then_assoc: "and_then (and_then m f) g = and_then m (\<lambda>x. and_then (f x) g)"
  by (auto simp: and_then_def fun_eq_iff split: prod.splits sum.splits)

lemma handle_give [simp, step_simps]: "handle (give x) f = give x"
  by (simp add: handle_def give_def fun_eq_iff)

lemma handle_raise [simp, step_simps]: "handle (raise e) f = f e"
  by (simp add: handle_def raise_def fun_eq_iff)

lemma and_then_run [step_simps]:
  "m h = (Inr x, h') \<Longrightarrow> and_then m f h = f x h'" "m h = (Inl e, h') \<Longrightarrow> and_then m f h = (Inl e, h')"
  by (simp_all add: and_then_def)

lemma handle_run [step_simps]:
  "m h = (Inr x, h') \<Longrightarrow> handle m f h = (Inr x, h')" "m h = (Inl e, h') \<Longrightarrow> handle m f h = f e h'"
  by (simp_all add: handle_def)

lemma and_then_Inr:
  assumes "and_then m f h = (Inr y, h')"
  obtains x h1 where "m h = (Inr x, h1)" and "f x h1 = (Inr y, h')"
  using assms by (auto simp: and_then_def split: prod.splits sum.splits)

lemma finally_do_Inr:
  assumes "finally_do m c h = (Inr x, h')"
  obtains h1 where "m h = (Inr x, h1)" and "c h1 = (Inr (), h')"
  using assms by (auto simp: finally_do_def split: prod.splits sum.splits)

lemma handle_Inr:
  assumes "handle m f h = (Inr x, h')"
  obtains "m h = (Inr x, h')" | e h1 where "m h = (Inl e, h1)" and "f e h1 = (Inr x, h')"
  using assms by (auto simp: handle_def split: prod.splits sum.splits)

lemma raise_Inr [simp]: "raise e h \<noteq> (Inr x, h')"
  by (simp add: raise_def)

lemma give_Inr [simp]: "give x h = (r, h') \<longleftrightarrow> r = Inr x \<and> h' = h"
  by (auto simp: give_def)

lemma attempt_Inr [simp]: "attempt f h = (Inr u, h') \<longleftrightarrow> f h = Inr h'"
  by (auto simp: attempt_def split: sum.splits)

lemma ask_Inr [simp]: "ask f h = (Inr x, h') \<longleftrightarrow> f h = Inr x \<and> h' = h"
  by (auto simp: ask_def)

lemma finally_do_snd: "snd (finally_do m c h) = snd (c (snd (m h)))"
  by (auto simp: finally_do_def split: prod.splits sum.splits)

lemma and_then_snd: "snd (and_then m f h) = (case m h of (Inl e, h') \<Rightarrow> h' | (Inr x, h') \<Rightarrow> snd (f x h'))"
  by (auto simp: and_then_def split: prod.splits sum.splits)

text \<open>An action keeps a property of the state when its parts do, whether they raise or not.\<close>

definition keeps :: "('s \<Rightarrow> bool) \<Rightarrow> ('s, 'a) action \<Rightarrow> bool" where
  "keeps P m \<longleftrightarrow> (\<forall>h. P h \<longrightarrow> P (snd (m h)))"

lemma keepsD: "keeps P m \<Longrightarrow> P h \<Longrightarrow> m h = (r, h') \<Longrightarrow> P h'"
  unfolding keeps_def by (metis snd_conv)

lemma keeps_apply: "keeps P m \<Longrightarrow> P h \<Longrightarrow> P (snd (m h))"
  by (simp add: keeps_def)

lemma keepsI: "(\<And>h. P h \<Longrightarrow> P (snd (m h))) \<Longrightarrow> keeps P m"
  by (simp add: keeps_def)

lemma keeps_simple [simp, intro]: "keeps P (give x)" "keeps P (raise e)"
  by (simp_all add: keeps_def give_def raise_def)

lemma keeps_and_then [intro]: "keeps P m \<Longrightarrow> (\<And>x. keeps P (f x)) \<Longrightarrow> keeps P (and_then m f)"
  by (auto simp: keeps_def and_then_def split: prod.splits sum.splits)

lemma keeps_handle [intro]: "keeps P m \<Longrightarrow> (\<And>e. keeps P (f e)) \<Longrightarrow> keeps P (handle m f)"
  by (auto simp: keeps_def handle_def split: prod.splits sum.splits)

lemma keeps_finally [intro]: "keeps P m \<Longrightarrow> keeps P c \<Longrightarrow> keeps P (finally_do m c)"
  by (auto simp: keeps_def finally_do_def split: prod.splits sum.splits)

lemma keeps_attempt: "(\<And>h h'. P h \<Longrightarrow> f h = Inr h' \<Longrightarrow> P h') \<Longrightarrow> keeps P (attempt f)"
  by (auto simp: keeps_def attempt_def split: sum.splits)

lemma keeps_ask [simp, intro]: "keeps P (ask f)"
  by (simp add: keeps_def ask_def)

lemma keeps_for_each: "(\<And>x. x \<in> set xs \<Longrightarrow> keeps P (f x)) \<Longrightarrow> keeps P (for_each f xs)"
  by (induction xs) auto

lemma keeps_at: "(\<And>h. P h \<Longrightarrow> keeps P (f h)) \<Longrightarrow> keeps P (\<lambda>h. f h h)"
  by (simp add: keeps_def)

end
