(* ===== verification/Posix_Path.thy ===== *)
theory Posix_Path
  imports Py_Prelude
begin

text \<open>
  The part of \<^verbatim>\<open>pathlib.PurePosixPath\<close> the sources use (the Python versions of
  \<^verbatim>\<open>setup.py\<close>): parsing, \<^verbatim>\<open>as_posix\<close>, \<^verbatim>\<open>parent\<close>, \<^verbatim>\<open>parents\<close>, \<^verbatim>\<open>name\<close>, \<open>/\<close>,
  \<^verbatim>\<open>relative_to\<close>, \<^verbatim>\<open>is_absolute\<close> and the ordering that \<^verbatim>\<open>sorted\<close> uses.  A path is its
  root (empty, one slash, or exactly two slashes) and its parts; empty parts and \<open>.\<close> never
  survive parsing, \<open>..\<close> does.
\<close>

datatype ppath = PPath (proot: string) (pparts: "string list")

definition slash :: char where
  "slash = CHR ''/''"

definition root_of :: "string \<Rightarrow> string" where
  "root_of s =
     (let n = length (takeWhile (\<lambda>c. c = slash) s)
      in if n = 0 then '''' else if n = 2 then ''//'' else ''/'')"

definition parse_path :: "string \<Rightarrow> ppath" where
  "parse_path s = PPath (root_of s) (filter (\<lambda>x. x \<noteq> '''' \<and> x \<noteq> ''.'') (split_on slash s))"

definition as_posix :: "ppath \<Rightarrow> string" where
  "as_posix p =
     (if proot p = '''' \<and> pparts p = [] then ''.'' else proot p @ joined [slash] (pparts p))"

definition parent :: "ppath \<Rightarrow> ppath" where
  "parent p = PPath (proot p) (butlast (pparts p))"

definition pname :: "ppath \<Rightarrow> string" where
  "pname p = (if pparts p = [] then '''' else last (pparts p))"

definition parents :: "ppath \<Rightarrow> ppath list" where
  "parents p = map (\<lambda>k. PPath (proot p) (take k (pparts p))) (rev [0..<length (pparts p)])"

definition join_path :: "ppath \<Rightarrow> ppath \<Rightarrow> ppath" where
  "join_path p q = (if proot q \<noteq> '''' then q else PPath (proot p) (pparts p @ pparts q))"

definition is_absolute :: "ppath \<Rightarrow> bool" where
  "is_absolute p = (proot p \<noteq> '''')"

definition relative_to :: "ppath \<Rightarrow> ppath \<Rightarrow> ppath result" where
  "relative_to p q =
     (if proot p = proot q \<and> prefix (pparts q) (pparts p)
      then Inr (PPath '''' (drop (length (pparts q)) (pparts p)))
      else Inl ValueError)"

section \<open>Well-formed paths\<close>

text \<open>What parsing produces: every path object of the program is well formed.\<close>

definition wf_part :: "string \<Rightarrow> bool" where
  "wf_part s \<longleftrightarrow> s \<noteq> '''' \<and> s \<noteq> ''.'' \<and> slash \<notin> set s"

definition wf_path :: "ppath \<Rightarrow> bool" where
  "wf_path p \<longleftrightarrow> (proot p = '''' \<or> proot p = ''/'' \<or> proot p = ''//'') \<and> list_all wf_part (pparts p)"

lemma wf_parse_path [simp, intro]: "wf_path (parse_path s)"
  by (auto simp: wf_path_def parse_path_def root_of_def wf_part_def list_all_iff Let_def
      dest: split_on_no_sep)

lemma wf_parent [simp, intro]: "wf_path p \<Longrightarrow> wf_path (parent p)"
  by (auto simp: wf_path_def parent_def list_all_iff dest: in_set_butlastD)

lemma wf_join_path [simp, intro]: "wf_path p \<Longrightarrow> wf_path q \<Longrightarrow> wf_path (join_path p q)"
  by (auto simp: wf_path_def join_path_def)

lemma wf_relative_to: "relative_to p q = Inr r \<Longrightarrow> wf_path p \<Longrightarrow> wf_path r"
  by (fastforce simp: wf_path_def relative_to_def list_all_iff split: if_splits dest: in_set_dropD)

lemma filter_wf_parts [simp]:
  "list_all wf_part ps \<Longrightarrow> filter (\<lambda>x. x \<noteq> '''' \<and> x \<noteq> ''.'') ps = ps"
  by (induction ps) (auto simp: wf_part_def)

lemma wf_part_no_slash: "wf_part s \<Longrightarrow> slash \<notin> set s"
  by (simp add: wf_part_def)

lemma takeWhile_slash_joined:
  "list_all wf_part ps \<Longrightarrow> takeWhile (\<lambda>c. c = slash) (joined [slash] ps) = []"
proof (cases ps)
  case (Cons a list)
  assume "list_all wf_part ps"
  with Cons have a: "a \<noteq> []" "slash \<notin> set a" by (auto simp: wf_part_def)
  then obtain c cs where "a = c # cs" "c \<noteq> slash" by (cases a) auto
  with Cons show ?thesis by (cases list) auto
qed simp

lemma split_on_wf_parts:
  "list_all wf_part ps \<Longrightarrow>
     filter (\<lambda>x. x \<noteq> '''' \<and> x \<noteq> ''.'') (split_on slash (joined [slash] ps)) = ps"
proof (cases "ps = []")
  case False
  assume "list_all wf_part ps"
  with False show ?thesis
    by (simp add: split_on_joined list_all_iff wf_part_no_slash
        filter_wf_parts [unfolded list_all_iff])
qed simp

text \<open>Printing a path and parsing it again gives the path back.\<close>

lemma parse_as_posix [simp]:
  assumes "wf_path p"
  shows "parse_path (as_posix p) = p"
proof -
  obtain r ps where p: "p = PPath r ps" by (cases p)
  from assms p have ps: "list_all wf_part ps" and r: "r = '''' \<or> r = ''/'' \<or> r = ''//''"
    by (auto simp: wf_path_def)
  have tw: "takeWhile (\<lambda>c. c = slash) (joined [slash] ps) = []"
    by (rule takeWhile_slash_joined [OF ps])
  have sl: "CHR ''/'' = slash" by (simp add: slash_def)
  show ?thesis
  proof (cases "r = '''' \<and> ps = []")
    case True
    with p show ?thesis by (simp add: as_posix_def parse_path_def root_of_def slash_def)
  next
    case False
    from r show ?thesis
      using False p tw split_on_wf_parts [OF ps]
      by (auto simp: as_posix_def parse_path_def root_of_def sl)
  qed
qed

lemma as_posix_inj: "wf_path p \<Longrightarrow> wf_path q \<Longrightarrow> as_posix p = as_posix q \<longleftrightarrow> p = q"
  by (metis parse_as_posix)

lemma as_posix_relative:
  assumes "wf_path p" and "\<not> is_absolute p"
  shows "\<not> startswith (as_posix p) [slash]"
proof -
  obtain r ps where p: "p = PPath r ps" by (cases p)
  from assms p have ps: "list_all wf_part ps" and r: "r = ''''"
    by (auto simp: wf_path_def is_absolute_def)
  from takeWhile_slash_joined [OF ps] have "\<not> prefix [slash] (joined [slash] ps)"
    by (cases "joined [slash] ps") auto
  with p r show ?thesis by (auto simp: as_posix_def slash_def)
qed

lemma relative_to_join:
  "relative_to p q = Inr r \<Longrightarrow> join_path q r = p"
  by (cases p; cases q) (auto simp: relative_to_def join_path_def prefix_def split: if_splits)

lemma parse_path_root: "proot (parse_path s) \<noteq> '''' \<longleftrightarrow> startswith s [slash]"
  by (cases s) (auto simp: parse_path_def root_of_def Let_def)

lemma is_absolute_parse: "is_absolute (parse_path s) \<longleftrightarrow> startswith s [slash]"
  by (simp add: is_absolute_def parse_path_root)

section \<open>The order that sorts paths\<close>

text \<open>
  \<^verbatim>\<open>sorted\<close> compares the list of parts, the root being the first of them.  The root itself
  breaks ties, which no two well-formed paths have; it makes the order linear on the type.
\<close>

definition path_key :: "ppath \<Rightarrow> string list" where
  "path_key p = (if proot p = '''' then pparts p else proot p # pparts p)"

lemma path_key_root_inj: "path_key p = path_key q \<Longrightarrow> proot p = proot q \<Longrightarrow> p = q"
  by (cases p; cases q) (auto simp: path_key_def split: if_splits)

lemma path_key_inj:
  assumes "wf_path p" and "wf_path q" and "path_key p = path_key q"
  shows "p = q"
proof -
  have "\<not> wf_part ''/''" and "\<not> wf_part ''//''" by (auto simp: wf_part_def slash_def)
  with assms show ?thesis
    by (cases p; cases q) (auto simp: path_key_def wf_path_def split: if_splits)
qed

instantiation ppath :: linorder
begin

definition less_eq_ppath :: "ppath \<Rightarrow> ppath \<Rightarrow> bool" where
  "less_eq_ppath p q \<longleftrightarrow> path_key p < path_key q \<or> (path_key p = path_key q \<and> proot p \<le> proot q)"

definition less_ppath :: "ppath \<Rightarrow> ppath \<Rightarrow> bool" where
  "less_ppath p q \<longleftrightarrow> path_key p < path_key q \<or> (path_key p = path_key q \<and> proot p < proot q)"

instance
proof
  fix p q r :: ppath
  show "p < q \<longleftrightarrow> p \<le> q \<and> \<not> q \<le> p"
    by (auto simp: less_eq_ppath_def less_ppath_def)
  show "p \<le> p"
    by (simp add: less_eq_ppath_def)
  show "p \<le> r" if "p \<le> q" and "q \<le> r"
    using that unfolding less_eq_ppath_def by (auto dest: less_trans)
  show "p = q" if "p \<le> q" and "q \<le> p"
    using that by (auto simp: less_eq_ppath_def intro: path_key_root_inj)
  show "p \<le> q \<or> q \<le> p"
    by (auto simp: less_eq_ppath_def)
qed

end

end
