(* ===== verification/Host_Files.thy ===== *)
theory Host_Files
  imports Posix_Path
begin

text \<open>
  The host file system the program works on: a working directory and a finite tree, kept as a
  dictionary from absolute locations (lists of names) to nodes, in the order in which
  \<^verbatim>\<open>iterdir\<close> lists them.  The root is always a directory.  Symbolic links, permissions and
  the modification times of directories whose entries change are not modelled; a node that is
  neither a file nor a directory (a FIFO, a device) is \<open>OtherNode\<close>.  The operations are those
  of \<^verbatim>\<open>pathlib.Path\<close> that the sources call, with the exceptions they raise.
\<close>

type_synonym loc = "string list"

datatype node = FileNode bytes int | DirNode int | OtherNode int

record host =
  cwd :: loc
  tree :: "(loc, node) dict"

section \<open>A store of named entries\<close>

text \<open>
  The contract of every keyed store of the program: a look-up after a write or a removal.
  From it follows what replacing an entry by way of a temporary one leaves behind.
\<close>

locale entry_store =
  fixes entry :: "'s \<Rightarrow> 'k \<Rightarrow> 'v option"
    and put :: "'k \<Rightarrow> 'v \<Rightarrow> 's \<Rightarrow> 's"
    and drop :: "'k \<Rightarrow> 's \<Rightarrow> 's"
  assumes entry_put: "entry (put k v s) = (entry s)(k \<mapsto> v)"
    and entry_drop: "entry (drop k s) = (entry s)(k := None)"
begin

lemma entry_put_other: "k' \<noteq> k \<Longrightarrow> entry (put k v s) k' = entry s k'"
  by (simp add: entry_put)

lemma entry_drop_other: "k' \<noteq> k \<Longrightarrow> entry (drop k s) k' = entry s k'"
  by (simp add: entry_drop)

lemma put_then_drop: "entry s k = None \<Longrightarrow> entry (drop k (put k v s)) = entry s"
  by (auto simp: entry_put entry_drop)

lemma replaced_by_temporary:
  "t \<noteq> k \<Longrightarrow> entry (put k v (drop t (drop k (put t v s)))) = (entry s)(k \<mapsto> v, t := None)"
  by (auto simp: entry_put entry_drop)

end

definition entry_at :: "host \<Rightarrow> loc \<Rightarrow> node option" where
  "entry_at h l = dict_get (tree h) l"

definition put_node :: "loc \<Rightarrow> node \<Rightarrow> host \<Rightarrow> host" where
  "put_node l n h = h\<lparr>tree := dict_put l n (tree h)\<rparr>"

definition drop_node :: "loc \<Rightarrow> host \<Rightarrow> host" where
  "drop_node l h = h\<lparr>tree := AList.delete l (tree h)\<rparr>"

interpretation dict_store: entry_store dict_get dict_put AList.delete
  by unfold_locales (auto simp: update_conv' delete_conv')

interpretation host_store: entry_store entry_at put_node drop_node
  by unfold_locales (auto simp: entry_at_def put_node_def drop_node_def update_conv' delete_conv')

lemma cwd_put_node [simp]: "cwd (put_node l n h) = cwd h"
  by (simp add: put_node_def)

lemma cwd_drop_node [simp]: "cwd (drop_node l h) = cwd h"
  by (simp add: drop_node_def)

section \<open>Looking a path up\<close>

definition node_at :: "host \<Rightarrow> loc \<Rightarrow> node option" where
  "node_at h l = (if l = [] then Some (DirNode 0) else entry_at h l)"

definition dir_at :: "host \<Rightarrow> loc \<Rightarrow> bool" where
  "dir_at h l = (case node_at h l of Some (DirNode _) \<Rightarrow> True | _ \<Rightarrow> False)"

definition dotdot :: string where
  "dotdot = ''..''"

text \<open>
  Following a path needs a directory before every name, \<open>..\<close> included; the last name itself
  need not exist.  \<open>collapse\<close> is the lexical counterpart that \<^verbatim>\<open>Path.resolve\<close> comes down to
  where there are no symbolic links.
\<close>

fun walk :: "host \<Rightarrow> loc \<Rightarrow> string list \<Rightarrow> loc result" where
  "walk h cur [] = Inr cur"
| "walk h cur (n # ns) =
     (if dir_at h cur then walk h (if n = dotdot then butlast cur else cur @ [n]) ns
      else if node_at h cur = None then Inl FileNotFoundError
      else Inl NotADirectoryError)"

fun collapse :: "loc \<Rightarrow> string list \<Rightarrow> loc" where
  "collapse cur [] = cur"
| "collapse cur (n # ns) = collapse (if n = dotdot then butlast cur else cur @ [n]) ns"

definition base_of :: "host \<Rightarrow> ppath \<Rightarrow> loc" where
  "base_of h p = (if is_absolute p then [] else cwd h)"

definition locate :: "host \<Rightarrow> ppath \<Rightarrow> loc result" where
  "locate h p = walk h (base_of h p) (pparts p)"

definition find_node :: "host \<Rightarrow> ppath \<Rightarrow> node option" where
  "find_node h p = (case locate h p of Inl e \<Rightarrow> None | Inr l \<Rightarrow> node_at h l)"

definition path_exists :: "host \<Rightarrow> ppath \<Rightarrow> bool" where
  "path_exists h p = (find_node h p \<noteq> None)"

definition is_dir :: "host \<Rightarrow> ppath \<Rightarrow> bool" where
  "is_dir h p = (case find_node h p of Some (DirNode _) \<Rightarrow> True | _ \<Rightarrow> False)"

definition is_file :: "host \<Rightarrow> ppath \<Rightarrow> bool" where
  "is_file h p = (case find_node h p of Some (FileNode _ _) \<Rightarrow> True | _ \<Rightarrow> False)"

definition resolve :: "host \<Rightarrow> ppath \<Rightarrow> ppath" where
  "resolve h p = PPath ''/'' (collapse (base_of h p) (pparts p))"

definition children :: "host \<Rightarrow> loc \<Rightarrow> string list" where
  "children h l = map (\<lambda>e. last (fst e)) (filter (\<lambda>e. fst e \<noteq> [] \<and> butlast (fst e) = l) (tree h))"

definition iterdir :: "host \<Rightarrow> ppath \<Rightarrow> ppath list" where
  "iterdir h p =
     (case locate h p of
        Inl e \<Rightarrow> []
      | Inr l \<Rightarrow> map (\<lambda>n. PPath (proot p) (pparts p @ [n])) (children h l))"

lemma node_at_Nil [simp]: "node_at h [] = Some (DirNode 0)"
  by (simp add: node_at_def)

lemma dir_at_Nil [simp]: "dir_at h [] = True"
  by (simp add: dir_at_def)

lemma walk_collapse: "walk h cur ps = Inr l \<Longrightarrow> l = collapse cur ps"
  by (induction h cur ps rule: walk.induct) (auto split: if_splits)

lemma locate_collapse: "locate h p = Inr l \<Longrightarrow> l = collapse (base_of h p) (pparts p)"
  by (simp add: locate_def walk_collapse)

lemma collapse_plain: "dotdot \<notin> set ps \<Longrightarrow> collapse cur ps = cur @ ps"
  by (induction cur ps rule: collapse.induct) auto

lemma collapse_append: "collapse cur (ps @ qs) = collapse (collapse cur ps) qs"
  by (induction cur ps rule: collapse.induct) auto

lemma walk_append: "walk h cur (ps @ qs) = bindr (walk h cur ps) (\<lambda>l. walk h l qs)"
  by (induction h cur ps rule: walk.induct) auto

lemma walk_parent_dir:
  "walk h cur (ps @ [n]) = Inr l \<Longrightarrow> walk h cur ps = Inr (collapse cur ps) \<and> dir_at h (collapse cur ps)"
  by (auto simp: walk_append bindr_eq_Inr dest: walk_collapse split: if_splits)

lemma is_dir_exists: "is_dir h p \<Longrightarrow> path_exists h p"
  by (auto simp: is_dir_def path_exists_def split: option.splits)

lemma is_file_exists: "is_file h p \<Longrightarrow> path_exists h p"
  by (auto simp: is_file_def path_exists_def split: option.splits)

lemma is_file_not_dir: "is_file h p \<Longrightarrow> \<not> is_dir h p"
  by (auto simp: is_dir_def is_file_def split: option.splits node.splits)

lemma wf_resolve_root [simp]: "proot (resolve h p) = ''/''" "is_absolute (resolve h p)"
  by (simp_all add: resolve_def is_absolute_def)

section \<open>Changing the tree\<close>

definition read_file :: "host \<Rightarrow> ppath \<Rightarrow> bytes result" where
  "read_file h p =
     bindr (locate h p) (\<lambda>l.
       case node_at h l of
         None \<Rightarrow> Inl FileNotFoundError
       | Some (FileNode d t) \<Rightarrow> Inr d
       | Some (DirNode t) \<Rightarrow> Inl IsADirectoryError
       | Some (OtherNode t) \<Rightarrow> Inl OSError)"

text \<open>\<^verbatim>\<open>open("wb")\<close>, the data written, and the file closed, at time \<open>now\<close>.\<close>

definition write_file :: "int \<Rightarrow> ppath \<Rightarrow> bytes \<Rightarrow> host \<Rightarrow> host result" where
  "write_file now p d h =
     bindr (locate h p) (\<lambda>l.
       case node_at h l of
         None \<Rightarrow> Inr (put_node l (FileNode d now) h)
       | Some (FileNode d' t) \<Rightarrow> Inr (put_node l (FileNode d now) h)
       | Some (DirNode t) \<Rightarrow> Inl IsADirectoryError
       | Some (OtherNode t) \<Rightarrow> Inl OSError)"

definition unlink :: "ppath \<Rightarrow> host \<Rightarrow> host result" where
  "unlink p h =
     bindr (locate h p) (\<lambda>l.
       case node_at h l of
         None \<Rightarrow> Inl FileNotFoundError
       | Some (DirNode t) \<Rightarrow> Inl IsADirectoryError
       | Some n \<Rightarrow> Inr (drop_node l h))"

text \<open>\<^verbatim>\<open>src.rename(dst)\<close> of something that is not a directory.\<close>

definition rename_file :: "ppath \<Rightarrow> ppath \<Rightarrow> host \<Rightarrow> host result" where
  "rename_file src dst h =
     bindr (locate h src) (\<lambda>l.
       case node_at h l of
         None \<Rightarrow> Inl FileNotFoundError
       | Some (DirNode t) \<Rightarrow> Inl OSError
       | Some n \<Rightarrow>
           bindr (locate h dst) (\<lambda>m.
             if dir_at h m then Inl IsADirectoryError
             else Inr (put_node m n (drop_node l h))))"

definition os_mkdir :: "int \<Rightarrow> ppath \<Rightarrow> host \<Rightarrow> host result" where
  "os_mkdir now p h =
     bindr (locate h p) (\<lambda>l.
       if node_at h l = None then Inr (put_node l (DirNode now) h) else Inl FileExistsError)"

text \<open>\<^verbatim>\<open>p.mkdir(exist_ok=True)\<close>, and the same with \<^verbatim>\<open>parents=True\<close>.\<close>

definition mkdir_ok :: "int \<Rightarrow> ppath \<Rightarrow> host \<Rightarrow> host result" where
  "mkdir_ok now p h =
     (case os_mkdir now p h of
        Inr h' \<Rightarrow> Inr h'
      | Inl e \<Rightarrow>
          if e = FileNotFoundError then Inl e
          else if is_dir h p then Inr h
          else Inl e)"

function mkdir_parents :: "int \<Rightarrow> ppath \<Rightarrow> host \<Rightarrow> host result" where
  "mkdir_parents now p h =
     (case os_mkdir now p h of
        Inr h' \<Rightarrow> Inr h'
      | Inl e \<Rightarrow>
          if e = FileNotFoundError then
            if pparts p = [] then Inl e
            else bindr (mkdir_parents now (parent p) h) (\<lambda>h1. mkdir_ok now p h1)
          else if is_dir h p then Inr h
          else Inl e)"
  by pat_completeness auto
termination
  by (relation "measure (\<lambda>(now, p, h). length (pparts p))") (auto simp: parent_def)

declare mkdir_parents.simps [simp del]

definition rmdir :: "ppath \<Rightarrow> host \<Rightarrow> host result" where
  "rmdir p h =
     bindr (locate h p) (\<lambda>l.
       case node_at h l of
         None \<Rightarrow> Inl FileNotFoundError
       | Some (DirNode t) \<Rightarrow> if children h l \<noteq> [] then Inl OSError else Inr (drop_node l h)
       | Some n \<Rightarrow> Inl NotADirectoryError)"

section \<open>What the operations leave alone\<close>

text \<open>
  Every operation keeps the working directory and every node outside the locations it names.
\<close>

lemma node_at_put_other: "l' \<noteq> l \<Longrightarrow> node_at (put_node l n h) l' = node_at h l'"
  by (simp add: node_at_def host_store.entry_put_other)

lemma node_at_drop_other: "l' \<noteq> l \<Longrightarrow> node_at (drop_node l h) l' = node_at h l'"
  by (simp add: node_at_def host_store.entry_drop_other)

lemma node_at_put_same: "l \<noteq> [] \<Longrightarrow> node_at (put_node l n h) l = Some n"
  by (simp add: node_at_def host_store.entry_put)

lemma node_at_drop_same: "l \<noteq> [] \<Longrightarrow> node_at (drop_node l h) l = None"
  by (simp add: node_at_def host_store.entry_drop)

lemmas node_at_simps =
  node_at_put_other node_at_drop_other node_at_put_same node_at_drop_same

text \<open>A new file is one more name in its directory, and what was there before is still found.\<close>

lemma walk_same_dirs:
  assumes "dir_at h' = dir_at h"
  shows "walk h' cur ps = Inr l \<longleftrightarrow> walk h cur ps = Inr l"
  by (induction ps arbitrary: cur) (simp_all add: assms)

lemma new_file_dirs: "node_at h l = None \<Longrightarrow> dir_at (put_node l (FileNode d t) h) = dir_at h"
proof (rule ext)
  fix m assume new: "node_at h l = None"
  then have "l \<noteq> []" by auto
  with new show "dir_at (put_node l (FileNode d t) h) m = dir_at h m"
    by (cases "m = l") (simp_all add: dir_at_def node_at_put_same node_at_put_other)
qed

lemma new_file_locate:
  "node_at h l = None \<Longrightarrow> locate (put_node l (FileNode d t) h) p = Inr m \<longleftrightarrow> locate h p = Inr m"
  using walk_same_dirs [OF new_file_dirs] by (simp add: locate_def base_of_def)

lemma new_file_is_dir: "node_at h l = None \<Longrightarrow> is_dir (put_node l (FileNode d t) h) p = is_dir h p"
proof -
  assume new: "node_at h l = None"
  have "is_dir g p \<longleftrightarrow> (\<exists>m. locate g p = Inr m \<and> dir_at g m)" for g
    by (auto simp: is_dir_def find_node_def dir_at_def split: sum.splits option.splits)
  with new show ?thesis by (simp add: new_file_locate new_file_dirs)
qed

lemma new_file_read:
  assumes "node_at h l = None" and "read_file h p = Inr x"
  shows "read_file (put_node l (FileNode d t) h) p = Inr x"
proof -
  from assms(2) obtain m where m: "locate h p = Inr m" "node_at h m \<noteq> None"
    by (auto simp: read_file_def elim!: bindrE split: option.splits)
  with assms(1) have "node_at (put_node l (FileNode d t) h) m = node_at h m"
    by (intro node_at_put_other) auto
  with assms m new_file_locate [OF assms(1), of d t p m] show ?thesis by (simp add: read_file_def)
qed

lemma new_file_children:
  assumes "node_at h (c @ [n]) = None"
  shows "children (put_node (c @ [n]) m h) c = children h c @ [n]"
proof -
  from assms have "c @ [n] \<notin> set (map fst (tree h))"
    by (auto simp: node_at_def entry_at_def map_of_eq_None_iff)
  then show ?thesis by (simp add: children_def put_node_def dict_put_new)
qed

lemma write_file_Inr:
  assumes "write_file now p d h = Inr h'"
  obtains l where "locate h p = Inr l" and "\<not> dir_at h l" and "h' = put_node l (FileNode d now) h"
  using assms unfolding write_file_def
  by (elim bindrE) (auto simp: dir_at_def split: option.splits node.splits)

lemma unlink_Inr:
  assumes "unlink p h = Inr h'"
  obtains l where "locate h p = Inr l" and "node_at h l \<noteq> None" and "\<not> dir_at h l"
    and "h' = drop_node l h"
  using assms unfolding unlink_def
  by (elim bindrE) (auto simp: dir_at_def split: option.splits node.splits)

lemma os_mkdir_Inr:
  assumes "os_mkdir now p h = Inr h'"
  obtains l where "locate h p = Inr l" and "node_at h l = None" and "h' = put_node l (DirNode now) h"
  using assms unfolding os_mkdir_def by (elim bindrE) (auto split: if_splits)

lemma rename_file_Inr:
  assumes "rename_file src dst h = Inr h'"
  obtains l m n where "locate h src = Inr l" and "node_at h l = Some n" and "\<not> dir_at h l"
    and "locate h dst = Inr m" and "\<not> dir_at h m" and "h' = put_node m n (drop_node l h)"
proof -
  from assms obtain l where l: "locate h src = Inr l"
    and step: "(case node_at h l of
         None \<Rightarrow> Inl FileNotFoundError
       | Some (DirNode t) \<Rightarrow> Inl OSError
       | Some n \<Rightarrow>
           bindr (locate h dst) (\<lambda>m.
             if dir_at h m then Inl IsADirectoryError
             else Inr (put_node m n (drop_node l h)))) = Inr h'"
    unfolding rename_file_def by (elim bindrE)
  from step obtain n where n: "node_at h l = Some n" "\<not> dir_at h l"
    by (cases "node_at h l"; cases "the (node_at h l)") (auto simp: dir_at_def)
  with step have next_step: "bindr (locate h dst) (\<lambda>m.
             if dir_at h m then Inl IsADirectoryError
             else Inr (put_node m n (drop_node l h))) = Inr h'"
    by (cases n) (auto simp: dir_at_def [of h l])
  from next_step obtain m where "locate h dst = Inr m" "\<not> dir_at h m"
    "h' = put_node m n (drop_node l h)"
    by (elim bindrE) (auto split: if_splits)
  with l n that show ?thesis by blast
qed

lemma write_file_frame:
  assumes "write_file now p d h = Inr h'"
  shows "cwd h' = cwd h"
    and "l \<noteq> collapse (base_of h p) (pparts p) \<Longrightarrow> node_at h' l = node_at h l"
  using assms
  by (auto elim!: write_file_Inr simp: node_at_put_other dest!: locate_collapse)

lemma unlink_frame:
  assumes "unlink p h = Inr h'"
  shows "cwd h' = cwd h"
    and "l \<noteq> collapse (base_of h p) (pparts p) \<Longrightarrow> node_at h' l = node_at h l"
  using assms by (auto elim!: unlink_Inr simp: node_at_drop_other dest!: locate_collapse)

lemma os_mkdir_frame:
  assumes "os_mkdir now p h = Inr h'"
  shows "cwd h' = cwd h"
    and "l \<noteq> collapse (base_of h p) (pparts p) \<Longrightarrow> node_at h' l = node_at h l"
  using assms by (auto elim!: os_mkdir_Inr simp: node_at_put_other dest!: locate_collapse)

lemma mkdir_ok_Inr: "mkdir_ok now p h = Inr h' \<Longrightarrow> os_mkdir now p h = Inr h' \<or> h' = h \<and> is_dir h p"
  by (auto simp: mkdir_ok_def split: sum.splits if_splits)

lemma mkdir_ok_frame:
  assumes "mkdir_ok now p h = Inr h'"
  shows "cwd h' = cwd h"
    and "l \<noteq> collapse (base_of h p) (pparts p) \<Longrightarrow> node_at h' l = node_at h l"
  using mkdir_ok_Inr [OF assms] by (auto dest: os_mkdir_frame)

lemma rename_file_frame:
  assumes "rename_file src dst h = Inr h'"
  shows "cwd h' = cwd h"
    and "l \<noteq> collapse (base_of h src) (pparts src) \<Longrightarrow>
         l \<noteq> collapse (base_of h dst) (pparts dst) \<Longrightarrow> node_at h' l = node_at h l"
  using assms
  by (auto elim!: rename_file_Inr simp: node_at_put_other node_at_drop_other dest!: locate_collapse)

lemma base_of_cwd: "cwd h' = cwd h \<Longrightarrow> base_of h' p = base_of h p"
  by (simp add: base_of_def)

lemma base_of_parent [simp]: "base_of h (parent p) = base_of h p"
  by (simp add: base_of_def parent_def is_absolute_def)

text \<open>
  Creating a directory with its parents adds directories where there was nothing, and nothing
  else; only the directory and its ancestors on the path can be added.
\<close>

lemma os_mkdir_kind:
  assumes "os_mkdir now p h = Inr h'"
  shows "node_at h' l = node_at h l \<or> node_at h l = None \<and> node_at h' l = Some (DirNode now)"
proof -
  from assms obtain m where m: "node_at h m = None" "h' = put_node m (DirNode now) h"
    by (rule os_mkdir_Inr)
  then have "m \<noteq> []" by auto
  with m show ?thesis by (cases "l = m") (auto simp: node_at_simps)
qed

lemma mkdir_ok_kind:
  "mkdir_ok now p h = Inr h' \<Longrightarrow>
     node_at h' l = node_at h l \<or> node_at h l = None \<and> node_at h' l = Some (DirNode now)"
  by (auto dest!: mkdir_ok_Inr dest: os_mkdir_kind)

lemma mkdir_parents_Inr:
  assumes "mkdir_parents now p h = Inr h'"
  obtains "os_mkdir now p h = Inr h'"
  | h1 where "os_mkdir now p h = Inl FileNotFoundError" and "pparts p \<noteq> []"
      and "mkdir_parents now (parent p) h = Inr h1"
      and "mkdir_ok now p h1 = Inr h'"
  | "h' = h" and "is_dir h p"
  using assms
  by (subst (asm) mkdir_parents.simps) (auto split: sum.splits if_splits elim!: bindrE)

lemma take_butlast_le: "k \<le> length xs - Suc 0 \<Longrightarrow> take k (butlast xs) = take k xs"
  by (simp add: butlast_conv_take)

lemma mkdir_parents_frame:
  assumes "mkdir_parents now p h = Inr h'"
  shows "cwd h' = cwd h \<and>
    (\<forall>l. node_at h' l = node_at h l \<or> node_at h l = None \<and> node_at h' l = Some (DirNode now)) \<and>
    (\<forall>l. (\<forall>k \<le> length (pparts p). l \<noteq> collapse (base_of h p) (take k (pparts p))) \<longrightarrow>
         node_at h' l = node_at h l)"
  using assms
proof (induction now p h arbitrary: h' rule: mkdir_parents.induct)
  case (1 now p h)
  from "1.prems" show ?case
  proof (cases rule: mkdir_parents_Inr)
    case 1
    then show ?thesis using os_mkdir_frame [OF 1] os_mkdir_kind [OF 1] by force
  next
    case (2 h1)
    let ?own = "collapse (base_of h p) (pparts p)"
    have IH: "cwd h1 = cwd h"
      "\<And>l. node_at h1 l = node_at h l \<or> node_at h l = None \<and> node_at h1 l = Some (DirNode now)"
      "\<And>l. \<forall>k \<le> length (pparts (parent p)).
          l \<noteq> collapse (base_of h p) (take k (pparts (parent p))) \<Longrightarrow> node_at h1 l = node_at h l"
      using "1.IH" [OF 2(1) refl 2(2) 2(3)] by auto
    have own: "\<And>l. l \<noteq> ?own \<Longrightarrow> node_at h' l = node_at h1 l" and cwd: "cwd h' = cwd h1"
      using mkdir_ok_frame [OF 2(4)] base_of_cwd [OF IH(1), of p] by auto
    have kind: "node_at h' l = node_at h l \<or> node_at h l = None \<and> node_at h' l = Some (DirNode now)" for l
      using IH(2) [of l] mkdir_ok_kind [OF 2(4), of l] by auto
    have outside: "node_at h' l = node_at h l"
      if off: "\<forall>k \<le> length (pparts p). l \<noteq> collapse (base_of h p) (take k (pparts p))" for l
    proof -
      have "\<forall>k \<le> length (pparts (parent p)).
          l \<noteq> collapse (base_of h p) (take k (pparts (parent p)))"
        using off by (auto simp: parent_def take_butlast_le)
      moreover from off have "l \<noteq> ?own" by force
      ultimately show ?thesis using own IH(3) by simp
    qed
    from cwd IH(1) kind outside show ?thesis by simp
  next
    case 3
    then show ?thesis by simp
  qed
qed

lemma locate_child:
  assumes "locate h (PPath r (ps @ [n])) = Inr l" and "n \<noteq> dotdot"
  shows "\<exists>d. locate h (PPath r ps) = Inr d \<and> dir_at h d \<and> l = d @ [n]"
proof -
  have base: "base_of h (PPath r (ps @ [n])) = base_of h (PPath r ps)"
    by (simp add: base_of_def is_absolute_def)
  from assms(1) obtain d where d: "walk h (base_of h (PPath r ps)) ps = Inr d"
    and step: "walk h d [n] = Inr l"
    by (auto simp: locate_def base walk_append elim!: bindrE)
  with assms(2) show ?thesis by (auto simp: locate_def split: if_splits)
qed

end
