(* ===== verification/Host_Places.thy ===== *)
theory Host_Places
  imports Host_Files Py_Steps
begin

text \<open>
  Paths that stay below the working directory, the places they name, and what the operations on
  the host file system change in terms of these places; the downloads and the container check
  work with such paths only.
\<close>

section \<open>Places\<close>

text \<open>
  A path that stays inside the working directory: relative, without \<open>..\<close>, and with a name.
\<close>

definition inside_path :: "ppath \<Rightarrow> bool" where
  "inside_path p \<longleftrightarrow> wf_path p \<and> proot p = '''' \<and> dotdot \<notin> set (pparts p) \<and> pparts p \<noteq> []"

definition place_of :: "host \<Rightarrow> ppath \<Rightarrow> loc" where
  "place_of h p = cwd h @ pparts p"

lemma locate_inside: "inside_path p \<Longrightarrow> locate h p = Inr l \<Longrightarrow> l = place_of h p"
  by (auto dest!: locate_collapse simp: inside_path_def collapse_plain place_of_def base_of_def is_absolute_def)

lemma place_not_root: "inside_path p \<Longrightarrow> place_of h p \<noteq> []"
  by (simp add: inside_path_def place_of_def)

lemma place_of_cwd: "cwd h' = cwd h \<Longrightarrow> place_of h' p = place_of h p"
  by (simp add: place_of_def)

section \<open>Changes\<close>

text \<open>
  Outside the named locations nothing changes, except that a directory may appear where there
  was nothing, on the way to the file.
\<close>

definition only_changes :: "loc set \<Rightarrow> host \<Rightarrow> host \<Rightarrow> bool" where
  "only_changes S h h' \<longleftrightarrow> cwd h' = cwd h \<and> (\<forall>l. l \<notin> S \<longrightarrow> node_at h' l = node_at h l)"

definition makes_dirs :: "loc set \<Rightarrow> host \<Rightarrow> host \<Rightarrow> bool" where
  "makes_dirs S h h' \<longleftrightarrow> cwd h' = cwd h \<and>
     (\<forall>l. node_at h' l = node_at h l \<or>
          (l \<in> S \<and> node_at h l = None \<and> (\<exists>t. node_at h' l = Some (DirNode t))))"

definition way_to :: "host \<Rightarrow> ppath \<Rightarrow> loc set" where
  "way_to h p = {cwd h @ take k (pparts p) | k. k \<le> length (pparts p)}"

lemma makes_dirs_existing: "makes_dirs S h h' \<Longrightarrow> node_at h l \<noteq> None \<Longrightarrow> node_at h' l = node_at h l"
  by (auto simp: makes_dirs_def)

lemma mkdir_parents_makes:
  assumes "mkdir_parents now p h = Inr h'" and "proot p = ''''" and "dotdot \<notin> set (pparts p)"
  shows "makes_dirs (way_to h p) h h'"
proof -
  have way: "collapse (base_of h p) (take k (pparts p)) = cwd h @ take k (pparts p)" for k
    using assms(2,3) by (simp add: collapse_plain base_of_def is_absolute_def)
      (meson collapse_plain in_set_takeD)
  from mkdir_parents_frame [OF assms(1)] have cwd: "cwd h' = cwd h"
    and kind: "node_at h' l = node_at h l \<or> node_at h l = None \<and> node_at h' l = Some (DirNode now)"
    and outside: "\<forall>k \<le> length (pparts p). l \<noteq> collapse (base_of h p) (take k (pparts p)) \<Longrightarrow>
      node_at h' l = node_at h l" for l
    by blast+
  have "node_at h' l = node_at h l" if "l \<notin> way_to h p" for l
    using that by (intro outside) (auto simp: way way_to_def)
  with cwd kind show ?thesis unfolding makes_dirs_def by blast
qed

lemma write_changes:
  assumes "write_file now p d h = Inr h'" and "inside_path p"
  shows "only_changes {place_of h p} h h' \<and> node_at h' (place_of h p) = Some (FileNode d now)"
proof -
  from assms(1) obtain l where "locate h p = Inr l" and h': "h' = put_node l (FileNode d now) h"
    by (rule write_file_Inr)
  with assms(2) have "l = place_of h p" by (auto dest: locate_inside)
  with h' place_not_root [OF assms(2)] show ?thesis
    by (auto simp: only_changes_def node_at_put_same node_at_put_other)
qed

lemma unlink_changes:
  assumes "unlink p h = Inr h'" and "inside_path p"
  shows "only_changes {place_of h p} h h' \<and> node_at h' (place_of h p) = None"
proof -
  from assms(1) obtain l where "locate h p = Inr l" and h': "h' = drop_node l h"
    by (rule unlink_Inr)
  with assms(2) have "l = place_of h p" by (auto dest: locate_inside)
  with h' place_not_root [OF assms(2)] show ?thesis
    by (auto simp: only_changes_def node_at_drop_same node_at_drop_other)
qed

lemma rename_changes:
  assumes "rename_file p q h = Inr h'" and "inside_path p" and "inside_path q" and "place_of h p \<noteq> place_of h q"
  shows "only_changes {place_of h p, place_of h q} h h'"
    and "node_at h' (place_of h p) = None" and "node_at h' (place_of h q) = node_at h (place_of h p)"
proof -
  from assms(1) obtain l m n where "locate h p = Inr l" "node_at h l = Some n" "locate h q = Inr m"
    and h': "h' = put_node m n (drop_node l h)" by (rule rename_file_Inr)
  with assms(2,3) have l: "l = place_of h p" "m = place_of h q" "node_at h (place_of h p) = Some n"
    by (auto dest!: locate_inside)
  show "only_changes {place_of h p, place_of h q} h h'"
    by (auto simp: only_changes_def h' l node_at_put_other node_at_drop_other)
  show "node_at h' (place_of h p) = None"
    using assms(2,4) place_not_root by (simp add: h' l node_at_put_other node_at_drop_same)
  show "node_at h' (place_of h q) = node_at h (place_of h p)"
    using assms(3) l(3) place_not_root by (simp add: h' l node_at_put_same)
qed

lemma only_changes_trans:
  "only_changes S h h' \<Longrightarrow> only_changes T h' h'' \<Longrightarrow> only_changes (S \<union> T) h h''"
  by (simp add: only_changes_def)

lemma read_file_node: "read_file h p = Inr d \<Longrightarrow> \<exists>t. find_node h p = Some (FileNode d t)"
  by (auto simp: read_file_def find_node_def elim!: bindrE split: option.splits node.splits)

lemma exists_at_place: "inside_path p \<Longrightarrow> path_exists h p \<Longrightarrow> node_at h (place_of h p) \<noteq> None"
  by (auto simp: path_exists_def find_node_def dest: locate_inside split: sum.splits)

lemma node_of_place:
  "inside_path p \<Longrightarrow> find_node h p = Some n \<Longrightarrow> node_at h (place_of h p) = Some n"
  by (auto simp: find_node_def dest: locate_inside split: sum.splits)

lemma rmdir_changes:
  assumes "rmdir p h = Inr h'" and "inside_path p"
  shows "only_changes {place_of h p} h h' \<and> node_at h' (place_of h p) = None"
proof -
  from assms(1) obtain l where "locate h p = Inr l" and h': "h' = drop_node l h"
    unfolding rmdir_def by (elim bindrE) (auto split: option.splits node.splits if_splits)
  with assms(2) have "l = place_of h p" by (auto dest: locate_inside)
  with h' place_not_root [OF assms(2)] show ?thesis
    by (auto simp: only_changes_def node_at_drop_same node_at_drop_other)
qed

lemma missing_at_place: "inside_path p \<Longrightarrow> node_at h (place_of h p) = None \<Longrightarrow> \<not> path_exists h p"
  using exists_at_place by blast

section \<open>Directories that stay when the last one cannot be made\<close>

text \<open>
  \<^verbatim>\<open>p.mkdir(parents=True, exist_ok=True)\<close> with what it leaves when it raises: the parents that it
  has made stay.  Where it returns it is \<open>mkdir_parents\<close>.
\<close>

function make_parents :: "int \<Rightarrow> ppath \<Rightarrow> (host, unit) action" where
  "make_parents now p h =
     (case os_mkdir now p h of
        Inr h' \<Rightarrow> (Inr (), h')
      | Inl e \<Rightarrow>
          if e = FileNotFoundError then
            if pparts p = [] then (Inl e, h)
            else (case make_parents now (parent p) h of
                    (Inl e', h1) \<Rightarrow> (Inl e', h1)
                  | (Inr u, h1) \<Rightarrow> attempt (mkdir_ok now p) h1)
          else if is_dir h p then (Inr (), h)
          else (Inl e, h))"
  by pat_completeness auto
termination
  by (relation "measure (\<lambda>(now, p, h). length (pparts p))") (auto simp: parent_def)

declare make_parents.simps [simp del]

lemma make_parents_Inr: "make_parents now p h = (Inr u, h') \<longleftrightarrow> mkdir_parents now p h = Inr h'"
proof (induction now p h arbitrary: u h' rule: make_parents.induct)
  case (1 now p h)
  show ?case
  proof (cases "os_mkdir now p h = Inl FileNotFoundError \<and> pparts p \<noteq> []")
    case True
    with 1 have IH: "make_parents now (parent p) h = (Inr v, h1) \<longleftrightarrow> mkdir_parents now (parent p) h = Inr h1" for v h1
      by blast
    from True IH show ?thesis
      by (subst make_parents.simps, subst mkdir_parents.simps, auto split: sum.splits prod.splits simp: bindr_eq_Inr)
        blast
  next
    case False
    then show ?thesis
      by (subst make_parents.simps, subst mkdir_parents.simps) (auto split: sum.splits)
  qed
qed

lemma parent_plain: "proot p = '''' \<and> dotdot \<notin> set (pparts p) \<Longrightarrow>
    proot (parent p) = '''' \<and> dotdot \<notin> set (pparts (parent p))"
  by (auto simp: parent_def dest: in_set_butlastD)

lemma way_to_parent: "way_to h (parent p) \<subseteq> way_to h p"
  by (auto simp: way_to_def parent_def take_butlast_le)

lemma makes_dirs_mono: "makes_dirs S h h' \<Longrightarrow> S \<subseteq> T \<Longrightarrow> makes_dirs T h h'"
  unfolding makes_dirs_def by blast

lemma make_parents_makes:
  assumes "proot p = '''' \<and> dotdot \<notin> set (pparts p)"
  shows "makes_dirs (way_to h p) h (snd (make_parents now p h))"
  using assms
proof (induction now p h rule: make_parents.induct)
  case (1 now p h)
  have same: "makes_dirs S h h" for S by (simp add: makes_dirs_def)
  show ?case
  proof (cases "make_parents now p h")
    case (Pair r h')
    show ?thesis
    proof (cases r)
      case (Inr u)
      with Pair have "mkdir_parents now p h = Inr h'" by (simp add: make_parents_Inr)
      with mkdir_parents_makes "1.prems" Pair show ?thesis by auto
    next
      case (Inl e)
      show ?thesis
      proof (cases "os_mkdir now p h = Inl FileNotFoundError \<and> pparts p \<noteq> []")
        case True
        with "1.IH" parent_plain [OF "1.prems"] have
          "makes_dirs (way_to h (parent p)) h (snd (make_parents now (parent p) h))" by blast
        moreover have "h' = snd (make_parents now (parent p) h)"
          using Pair Inl True
          by (subst (asm) make_parents.simps) (auto simp: attempt_def split: sum.splits prod.splits)
        ultimately show ?thesis using Pair makes_dirs_mono [OF _ way_to_parent] by simp
      next
        case False
        with Pair Inl have "h' = h"
          by (subst (asm) make_parents.simps) (auto split: sum.splits if_splits)
        with Pair same show ?thesis by simp
      qed
    qed
  qed
qed

text \<open>
  What comes of operations that only add: every node that was there stays as it was.
\<close>

definition only_adds :: "(node \<Rightarrow> bool) \<Rightarrow> host \<Rightarrow> host \<Rightarrow> bool" where
  "only_adds P h h' \<longleftrightarrow> cwd h' = cwd h \<and>
     (\<forall>l. node_at h' l = node_at h l \<or> node_at h l = None \<and> (\<exists>n. node_at h' l = Some n \<and> P n))"

lemma only_adds_refl [simp]: "only_adds P h h"
  by (simp add: only_adds_def)

lemma only_adds_trans: "only_adds P h h' \<Longrightarrow> only_adds P h' h'' \<Longrightarrow> only_adds P h h''"
  unfolding only_adds_def by metis

lemma only_adds_mono: "only_adds P h h' \<Longrightarrow> (\<And>n. P n \<Longrightarrow> Q n) \<Longrightarrow> only_adds Q h h'"
  unfolding only_adds_def by blast

lemma write_only_adds:
  assumes "write_file now p d h = Inr h'" and "\<not> is_file h p"
  shows "only_adds (\<lambda>n. n = FileNode d now) h h'"
proof -
  from assms obtain l where "node_at h l = None" "h' = put_node l (FileNode d now) h"
    by (auto simp: write_file_def is_file_def find_node_def elim!: bindrE split: option.splits node.splits)
  moreover from this have "l \<noteq> []" by auto
  ultimately have "only_adds (\<lambda>n. n = FileNode d now) h (put_node l (FileNode d now) h)"
    unfolding only_adds_def by (metis cwd_put_node node_at_put_same node_at_put_other)
  with \<open>h' = _\<close> show ?thesis by simp
qed

lemma mkdir_only_adds: "mkdir_ok now p h = Inr h' \<Longrightarrow> only_adds (\<lambda>n. n = DirNode now) h h'"
  unfolding only_adds_def using mkdir_ok_frame(1) mkdir_ok_kind by blast

lemma make_parents_only_adds: "only_adds (\<lambda>n. n = DirNode now) h (snd (make_parents now p h))"
proof (induction now p h rule: make_parents.induct)
  case (1 now p h)
  show ?case
  proof (cases "os_mkdir now p h = Inl FileNotFoundError \<and> pparts p \<noteq> []")
    case True
    obtain r h1 where m: "make_parents now (parent p) h = (r, h1)" by (cases "make_parents now (parent p) h")
    with 1 True have "only_adds (\<lambda>n. n = DirNode now) h h1" by fastforce
    with True m show ?thesis
      by (subst make_parents.simps)
        (auto simp: attempt_def split: sum.splits dest: mkdir_only_adds intro: only_adds_trans)
  next
    case False
    then show ?thesis
      by (subst make_parents.simps) (auto split: sum.splits intro!: mkdir_only_adds [where p = p] simp: mkdir_ok_def)
  qed
qed

text \<open>Following a path that is there: every directory on it stays one when a file is added.\<close>

lemma walk_more:
  "walk h cur ps = Inr l \<Longrightarrow> \<forall>d. dir_at h d \<longrightarrow> dir_at h' d \<Longrightarrow> walk h' cur ps = Inr l"
  by (induction ps arbitrary: cur) (simp_all split: if_split_asm)

lemma locate_more:
  assumes "locate h p = Inr l" and "node_at h l' = None"
  shows "locate (put_node l' n h) p = Inr l"
proof -
  have "dir_at (put_node l' n h) d" if "dir_at h d" for d
  proof -
    from that assms(2) have "d \<noteq> l'" by (auto simp: dir_at_def)
    with that show ?thesis by (simp add: dir_at_def node_at_put_other)
  qed
  then have "\<forall>d. dir_at h d \<longrightarrow> dir_at (put_node l' n h) d" by blast
  from walk_more [OF assms(1) [unfolded locate_def] this] show ?thesis
    by (simp only: locate_def base_of_def cwd_put_node)
qed

text \<open>Operations on files leave every directory where it is, so that paths lead where they led.\<close>

definition dirs_stay :: "host \<Rightarrow> host \<Rightarrow> bool" where
  "dirs_stay h h' \<longleftrightarrow> (\<forall>l. dir_at h l \<longrightarrow> dir_at h' l)"

lemma put_dirs_stay: "\<not> dir_at h l \<Longrightarrow> dirs_stay h (put_node l n h)"
  unfolding dirs_stay_def dir_at_def by (metis node_at_put_other)

lemma drop_dirs_stay: "\<not> dir_at h l \<Longrightarrow> dirs_stay h (drop_node l h)"
  unfolding dirs_stay_def dir_at_def by (metis node_at_drop_other)

lemma write_dirs_stay: "write_file now p d h = Inr h' \<Longrightarrow> dirs_stay h h'"
  by (erule write_file_Inr) (simp add: put_dirs_stay)

lemma unlink_dirs_stay: "unlink p h = Inr h' \<Longrightarrow> dirs_stay h h'"
  by (erule unlink_Inr) (simp add: drop_dirs_stay)

lemma rename_dirs_stay:
  assumes "rename_file p q h = Inr h'"
  shows "dirs_stay h h'"
proof -
  from assms obtain l m n where "\<not> dir_at h l" "\<not> dir_at h m" and h': "h' = put_node m n (drop_node l h)"
    by (rule rename_file_Inr)
  then have "d \<noteq> l" "d \<noteq> m" if "dir_at h d" for d using that by auto
  then show ?thesis by (simp add: h' dirs_stay_def dir_at_def node_at_put_other node_at_drop_other)
qed

lemma only_adds_dirs_stay: "only_adds P h h' \<Longrightarrow> dirs_stay h h'"
  unfolding only_adds_def dirs_stay_def dir_at_def by (metis option.case(1))

lemma locate_stays: "locate h p = Inr l \<Longrightarrow> cwd h' = cwd h \<Longrightarrow> dirs_stay h h' \<Longrightarrow> locate h' p = Inr l"
  using walk_more base_of_cwd unfolding locate_def dirs_stay_def by metis

lemma only_adds_found:
  assumes "only_adds P h h'" and "find_node h p = Some n"
  shows "find_node h' p = Some n"
proof -
  from assms(2) obtain l where l: "locate h p = Inr l" "node_at h l = Some n"
    by (auto simp: find_node_def split: sum.splits)
  from assms(1) have c: "cwd h' = cwd h" and "node_at h' l = node_at h l \<or> node_at h l = None"
    by (auto simp: only_adds_def)
  with l(2) have "node_at h' l = Some n" by simp
  with locate_stays [OF l(1) c only_adds_dirs_stay [OF assms(1)]] show ?thesis by (simp add: find_node_def)
qed

text \<open>A path that can be followed has a directory for a parent, and so can its siblings.\<close>

lemma parent_of_located:
  assumes "inside_path p" and "locate h p = Inr l"
  shows "locate h (parent p) = Inr (place_of h (parent p))" and "dir_at h (place_of h (parent p))"
proof -
  from assms(1) have p: "pparts p = butlast (pparts p) @ [last (pparts p)]" "dotdot \<notin> set (butlast (pparts p))"
    by (auto simp: inside_path_def dest: in_set_butlastD)
  have "walk h (base_of h p) (butlast (pparts p) @ [last (pparts p)]) = Inr l"
    using assms(2) p(1) by (simp add: locate_def)
  from walk_parent_dir [OF this] p(2) assms(1)
  show "locate h (parent p) = Inr (place_of h (parent p))" "dir_at h (place_of h (parent p))"
    by (simp_all add: locate_def collapse_plain place_of_def)
      (simp_all add: parent_def base_of_def is_absolute_def inside_path_def)
qed

lemma locate_sibling:
  assumes "inside_path p" and "locate h p = Inr l" and "inside_path q" and "parent q = parent p"
  shows "locate h q = Inr (place_of h q)"
proof -
  have "pparts q \<noteq> []" "dotdot \<notin> set (pparts q)" using assms(3) by (simp_all add: inside_path_def)
  moreover have "pparts (parent p) = butlast (pparts q)" using arg_cong [OF assms(4), of pparts] by (simp add: parent_def)
  ultimately obtain n where q: "pparts q = pparts (parent p) @ [n]" "n \<noteq> dotdot"
    by (metis append_butlast_last_id last_in_set)
  have "base_of h q = base_of h (parent p)" using assms(4) by (metis base_of_parent)
  with parent_of_located [OF assms(1,2)] q show ?thesis
    by (simp add: locate_def walk_append place_of_def bindr_def)
qed

lemma make_parents_existing:
  assumes "locate h p = Inr l" and "dir_at h l"
  shows "make_parents now p h = (Inr (), h)"
proof -
  from assms obtain n where "node_at h l = Some n" "is_dir h p"
    by (auto simp: dir_at_def is_dir_def find_node_def split: option.splits)
  with assms(1) show ?thesis
    by (subst make_parents.simps) (simp add: os_mkdir_def bindr_def)
qed

end
