(* ===== verification/Byte_Source.thy ===== *)
theory Byte_Source
  imports Py_Prelude
begin

text \<open>
  Reading bytes from a file object or a socket in pieces: the contract of \<^verbatim>\<open>read(n)\<close>, the
  copy-and-hash loop \<^verbatim>\<open>read_with_hash\<close> of \<^verbatim>\<open>cincan/command_log.py\<close> over any reader, and the
  two readers of the program.  SHA-256 is a parameter \<open>sha\<close> that maps the bytes fed to the hash
  object to the hexadecimal digest; nothing is assumed about it.
\<close>

section \<open>The loop\<close>

text \<open>
  \<open>hash_loop rd s md out\<close> is the \<^verbatim>\<open>while chunk\<close> loop: \<open>md\<close> the bytes given to the hash
  object so far, \<open>out\<close> the bytes given to \<^verbatim>\<open>write_to\<close>.  A reader may go on for ever, so the
  loop is partial: \<open>None\<close> means it does not return.
\<close>

partial_function (option) hash_loop ::
  "(nat \<Rightarrow> 's \<Rightarrow> bytes \<times> 's) \<Rightarrow> 's \<Rightarrow> bytes \<Rightarrow> bytes \<Rightarrow> (bytes \<times> bytes \<times> 's) option" where
  "hash_loop rd s md out =
     (case rd 2048 s of (chunk, s') \<Rightarrow>
        if chunk = [] then Some (md, out, s')
        else hash_loop rd s' (md @ chunk) (out @ chunk))"

definition read_with_hash ::
  "(bytes \<Rightarrow> string) \<Rightarrow> (nat \<Rightarrow> 's \<Rightarrow> bytes \<times> 's) \<Rightarrow> 's \<Rightarrow> (string \<times> bytes \<times> 's) option" where
  "read_with_hash sha rd s = map_option (\<lambda>(md, out, s'). (sha md, out, s')) (hash_loop rd s [] [])"

section \<open>What a reader promises\<close>

text \<open>
  \<open>rest s\<close> is what is still to be read.  A read returns a prefix of it, no longer than asked
  for, and returns nothing only at the end.
\<close>

locale byte_reader =
  fixes rd :: "nat \<Rightarrow> 's \<Rightarrow> bytes \<times> 's"
    and rest :: "'s \<Rightarrow> bytes"
  assumes read_prefix: "rd n s = (c, s') \<Longrightarrow> rest s = c @ rest s'"
    and read_bound: "rd n s = (c, s') \<Longrightarrow> length c \<le> n"
    and read_end: "rd n s = (c, s') \<Longrightarrow> 0 < n \<Longrightarrow> c = [] \<Longrightarrow> rest s = []"
begin

lemma hash_loop_complete:
  "\<exists>s'. hash_loop rd s md out = Some (md @ rest s, out @ rest s, s') \<and> rest s' = []"
proof (induction "length (rest s)" arbitrary: s md out rule: less_induct)
  case less
  obtain c s1 where r: "rd 2048 s = (c, s1)" by (cases "rd 2048 s") auto
  show ?case
  proof (cases "c = []")
    case True
    from read_end [OF r _ True] have "rest s = []" by simp
    moreover from read_prefix [OF r] True have "rest s1 = rest s" by simp
    ultimately show ?thesis using r True by (simp add: hash_loop.simps)
  next
    case False
    have split: "rest s = c @ rest s1" by (rule read_prefix [OF r])
    with False have "length (rest s1) < length (rest s)" by simp
    from less [OF this, of "md @ c" "out @ c"] split False r
    show ?thesis by (subst hash_loop.simps) simp
  qed
qed

lemma read_with_hash_complete:
  "\<exists>s'. read_with_hash sha rd s = Some (sha (rest s), rest s, s') \<and> rest s' = []"
  using hash_loop_complete [of s "[]" "[]"] by (auto simp: read_with_hash_def)

end

section \<open>The readers\<close>

text \<open>A file opened for reading: what is left of its contents.\<close>

definition file_read :: "nat \<Rightarrow> bytes \<Rightarrow> bytes \<times> bytes" where
  "file_read n d = (take n d, drop n d)"

text \<open>
  A socket: the pieces in which the bytes arrive.  A read returns at most one piece, cut to the
  length asked for; it never waits for a second one.
\<close>

fun socket_read :: "nat \<Rightarrow> bytes list \<Rightarrow> bytes \<times> bytes list" where
  "socket_read n [] = ([], [])"
| "socket_read n (c # cs) =
     (if c = [] then socket_read n cs
      else if length c \<le> n then (c, cs)
      else (take n c, drop n c # cs))"

interpretation files: byte_reader file_read "\<lambda>d. d"
  by unfold_locales (auto simp: file_read_def)

lemma socket_read_laws:
  "socket_read n s = (c, s') \<Longrightarrow>
     concat s = c @ concat s' \<and> length c \<le> n \<and> (0 < n \<and> c = [] \<longrightarrow> concat s = [])"
  by (induction n s arbitrary: c s' rule: socket_read.induct) (auto split: if_splits)

interpretation sockets: byte_reader socket_read concat
  by unfold_locales (use socket_read_laws in blast)+

text \<open>The digest and the copy of a file's contents, as the rest of the program uses them.\<close>

definition hash_file :: "(bytes \<Rightarrow> string) \<Rightarrow> bytes \<Rightarrow> string \<times> bytes" where
  "hash_file sha d =
     (case read_with_hash sha file_read d of None \<Rightarrow> (sha [], []) | Some (md, out, _) \<Rightarrow> (md, out))"

lemma hash_file_eq [simp]: "hash_file sha d = (sha d, d)"
  using files.read_with_hash_complete [of sha d] by (auto simp: hash_file_def)

declare hash_file_eq [code]

end
