(* ===== verification/Decimal.thy ===== *)
theory Decimal
  imports Py_Prelude
begin

text \<open>
  Decimal numbers as Python prints and reads them: single digits, a fixed number of digits, which
  the time formats use, and \<^verbatim>\<open>str\<close> of an \<^verbatim>\<open>int\<close>, which JSON text and the messages use.
\<close>

section \<open>Digits\<close>

definition digit :: "nat \<Rightarrow> char" where
  "digit d = char_of (48 + d)"

definition is_digit :: "char \<Rightarrow> bool" where
  "is_digit c \<longleftrightarrow> (let n = (of_char c :: nat) in 48 \<le> n \<and> n \<le> 57)"

definition digit_value :: "char \<Rightarrow> nat" where
  "digit_value c = of_char c - 48"

text \<open>\<open>digits w n\<close>: the last \<open>w\<close> decimal digits of \<open>n\<close>, with leading zeros.\<close>

fun digits :: "nat \<Rightarrow> nat \<Rightarrow> string" where
  "digits 0 n = []"
| "digits (Suc w) n = digits w (n div 10) @ [digit (n mod 10)]"

definition number :: "string \<Rightarrow> nat" where
  "number s = fold (\<lambda>c n. 10 * n + digit_value c) s 0"

lemma digit_facts [simp]:
  assumes "d < 10"
  shows "is_digit (digit d)" and "digit_value (digit d) = d"
  using assms by (simp_all add: is_digit_def digit_def digit_value_def)

lemma length_digits [simp]: "length (digits w n) = w"
  by (induction w n rule: digits.induct) auto

lemma digits_are_digits [simp]: "list_all is_digit (digits w n)"
  by (induction w n rule: digits.induct) auto

lemma number_snoc [simp]: "number (s @ [c]) = 10 * number s + digit_value c"
  by (simp add: number_def)

lemma number_digits [simp]: "number (digits w n) = n mod 10 ^ w"
proof (induction w n rule: digits.induct)
  case (1 n)
  then show ?case by (simp add: number_def)
next
  case (2 w n)
  have "10 * (n div 10 mod 10 ^ w) + n mod 10 = n mod (10 * 10 ^ w)"
    by (simp add: mod_mult2_eq)
  with 2 show ?case by simp
qed

section \<open>Integers\<close>

fun show_nat :: "nat \<Rightarrow> string" where
  "show_nat n = (if n < 10 then [digit n] else show_nat (n div 10) @ [digit (n mod 10)])"

declare show_nat.simps [simp del]

definition show_int :: "int \<Rightarrow> string" where
  "show_int k = (if k < 0 then CHR ''-'' # show_nat (nat (- k)) else show_nat (nat k))"

lemma show_nat_last: "\<exists>s k. show_nat n = s @ [digit k] \<and> k < 10"
  by (subst show_nat.simps) auto

lemma show_int_last: "\<exists>s k. show_int n = s @ [digit k] \<and> k < 10"
  using show_nat_last [of "nat n"] show_nat_last [of "nat (- n)"] unfolding show_int_def by auto

lemma number_show_nat [simp]: "number (show_nat n) = n"
proof (induction n rule: show_nat.induct)
  case (1 n)
  then show ?case by (subst show_nat.simps) (auto simp: number_def)
qed

lemma show_nat_digits: "list_all is_digit (show_nat n)"
proof (induction n rule: show_nat.induct)
  case (1 n)
  then show ?case by (subst show_nat.simps) auto
qed

lemma show_nat_not_Nil [simp]: "show_nat n \<noteq> []"
  by (subst show_nat.simps) simp

text \<open>A number other than 0 does not start with the digit 0.\<close>

lemma show_nat_hd: "0 < n \<Longrightarrow> digit_value (hd (show_nat n)) \<noteq> 0"
proof (induction n rule: show_nat.induct)
  case (1 n)
  show ?case
  proof (cases "n < 10")
    case True
    with 1 show ?thesis by (subst show_nat.simps) simp
  next
    case False
    then have "show_nat n = show_nat (n div 10) @ [digit (n mod 10)]" by (subst show_nat.simps) simp
    with False 1 show ?thesis by simp
  qed
qed

end
