(* ===== verification/Date_Time.thy ===== *)
theory Date_Time
  imports Decimal
begin

text \<open>
  \<^verbatim>\<open>datetime\<close> of Python's standard library as the command log uses it: \<^verbatim>\<open>strftime\<close> and
  \<^verbatim>\<open>strptime\<close> with the format \<^verbatim>\<open>%Y-%m-%dT%H:%M:%S.%f\<close>, \<^verbatim>\<open>strftime\<close> with the format of the log
  file names, and the order of times.  The year is printed without padding, as the C library
  prints it, and parsed only with four digits.
\<close>

datatype datetime = DateTime (year: nat) (month: nat) (day: nat)
  (hour: nat) (minute: nat) (second: nat) (microsecond: nat)

section \<open>Printing\<close>

text \<open>The number of digits of a year, which is at most 9999.\<close>

definition year_width :: "nat \<Rightarrow> nat" where
  "year_width y = (if y < 10 then 1 else if y < 100 then 2 else if y < 1000 then 3 else 4)"

definition format_json :: "datetime \<Rightarrow> string" where
  "format_json t =
     digits (year_width (year t)) (year t) @ ''-'' @ digits 2 (month t) @ ''-'' @ digits 2 (day t) @
     ''T'' @ digits 2 (hour t) @ '':'' @ digits 2 (minute t) @ '':'' @ digits 2 (second t) @
     ''.'' @ digits 6 (microsecond t)"

definition format_file_name :: "datetime \<Rightarrow> string" where
  "format_file_name t =
     digits (year_width (year t)) (year t) @ ''-'' @ digits 2 (month t) @ ''-'' @ digits 2 (day t) @
     ''-'' @ digits 2 (hour t) @ ''-'' @ digits 2 (minute t) @ ''-'' @ digits 2 (second t) @
     ''-'' @ digits 6 (microsecond t)"

section \<open>Valid times\<close>

definition leap_year :: "nat \<Rightarrow> bool" where
  "leap_year y \<longleftrightarrow> y mod 4 = 0 \<and> (y mod 100 \<noteq> 0 \<or> y mod 400 = 0)"

definition days_in_month :: "nat \<Rightarrow> nat \<Rightarrow> nat" where
  "days_in_month y m =
     (if m = 2 then (if leap_year y then 29 else 28)
      else if m = 4 \<or> m = 6 \<or> m = 9 \<or> m = 11 then 30 else 31)"

definition valid_datetime :: "datetime \<Rightarrow> bool" where
  "valid_datetime t \<longleftrightarrow>
     1 \<le> year t \<and> year t \<le> 9999 \<and> 1 \<le> month t \<and> month t \<le> 12 \<and>
     1 \<le> day t \<and> day t \<le> days_in_month (year t) (month t) \<and>
     hour t < 24 \<and> minute t < 60 \<and> second t < 60 \<and> microsecond t < 1000000"

section \<open>Parsing\<close>

text \<open>
  A field of the format: between one digit and \<open>w\<close> digits, then the separator; the range the
  regular expression of the field admits is checked on the number.  (A day may also be written
  with a space and one digit, which nothing that is printed uses; it is not accepted here.)
\<close>

definition take_field :: "nat \<Rightarrow> nat \<Rightarrow> nat \<Rightarrow> nat \<Rightarrow> string \<Rightarrow> (nat \<times> string) result" where
  "take_field least w lo hi s =
     (let ds = takeWhile is_digit s
      in if least \<le> length ds \<and> length ds \<le> w \<and> lo \<le> number ds \<and> number ds \<le> hi
         then Inr (number ds, dropWhile is_digit s) else Inl ValueError)"

definition take_separator :: "char list \<Rightarrow> string \<Rightarrow> string result" where
  "take_separator seps s =
     (case s of [] \<Rightarrow> Inl ValueError | c # cs \<Rightarrow> if c \<in> set seps then Inr cs else Inl ValueError)"

definition take_fraction :: "string \<Rightarrow> nat result" where
  "take_fraction s =
     (if list_all is_digit s \<and> 1 \<le> length s \<and> length s \<le> 6
      then Inr (number s * 10 ^ (6 - length s)) else Inl ValueError)"

definition parse_json :: "string \<Rightarrow> datetime result" where
  "parse_json s =
     bindr (take_field 4 4 0 9999 s) (\<lambda>(y, s).
     bindr (take_separator ''-'' s) (\<lambda>s.
     bindr (take_field 1 2 1 12 s) (\<lambda>(mo, s).
     bindr (take_separator ''-'' s) (\<lambda>s.
     bindr (take_field 1 2 1 31 s) (\<lambda>(d, s).
     bindr (take_separator ''Tt'' s) (\<lambda>s.
     bindr (take_field 1 2 0 23 s) (\<lambda>(h, s).
     bindr (take_separator '':'' s) (\<lambda>s.
     bindr (take_field 1 2 0 59 s) (\<lambda>(mi, s).
     bindr (take_separator '':'' s) (\<lambda>s.
     bindr (take_field 1 2 0 61 s) (\<lambda>(sec, s).
     bindr (take_separator ''.'' s) (\<lambda>s.
     bindr (take_fraction s) (\<lambda>f.
       let t = DateTime y mo d h mi sec f
       in if valid_datetime t then Inr t else Inl ValueError)))))))))))))"

lemma take_field_digits [simp]:
  assumes "least \<le> w" and "lo \<le> n" and "n \<le> hi" and "n < 10 ^ w" and "\<not> is_digit c"
  shows "take_field least w lo hi (digits w n @ c # s) = Inr (n, c # s)"
proof -
  have all: "\<forall>x \<in> set (digits w n). is_digit x"
    using digits_are_digits [of w n] by (simp only: list_all_iff)
  then have "takeWhile is_digit (digits w n @ c # s) = digits w n"
    and "dropWhile is_digit (digits w n @ c # s) = c # s"
    using assms(5) by (simp_all add: takeWhile_append2 dropWhile_append2)
  with assms show ?thesis by (simp add: take_field_def)
qed

lemma take_separator_here [simp]: "c \<in> set seps \<Longrightarrow> take_separator seps (c # s) = Inr s"
  by (simp add: take_separator_def)

lemma take_fraction_digits [simp]: "n < 1000000 \<Longrightarrow> take_fraction (digits 6 n) = Inr n"
  by (simp add: take_fraction_def del: digits.simps)

lemma separators_not_digits [simp]:
  "\<not> is_digit CHR ''-''" "\<not> is_digit CHR ''T''" "\<not> is_digit CHR '':''" "\<not> is_digit CHR ''.''"
  by (simp_all add: is_digit_def)

lemma days_in_month_le: "days_in_month y m \<le> 31"
  by (simp add: days_in_month_def)

text \<open>A time with a year of four digits is read back as it was written.\<close>

lemma parse_format_json:
  assumes "valid_datetime t" and "1000 \<le> year t"
  shows "parse_json (format_json t) = Inr t"
proof (cases t)
  case (DateTime y mo d h mi sec f)
  with assms have b: "1000 \<le> y" "y \<le> 9999" "1 \<le> mo" "mo \<le> 12" "1 \<le> d" "d \<le> 31" "h < 24" "mi < 60"
    "sec < 60" "f < 1000000"
    using days_in_month_le [of y mo] by (auto simp: valid_datetime_def)
  have w: "year_width y = 4" using b by (simp add: year_width_def)
  show ?thesis
    using b assms(1) unfolding DateTime
    by (simp add: parse_json_def format_json_def w del: digits.simps)
qed

section \<open>The order of times\<close>

definition time_key :: "datetime \<Rightarrow> nat list" where
  "time_key t = [year t, month t, day t, hour t, minute t, second t, microsecond t]"

lemma time_key_inj: "time_key t = time_key u \<Longrightarrow> t = u"
  by (cases t; cases u) (simp add: time_key_def)

instantiation datetime :: linorder
begin

definition less_eq_datetime :: "datetime \<Rightarrow> datetime \<Rightarrow> bool" where
  "less_eq_datetime t u \<longleftrightarrow> time_key t \<le> time_key u"

definition less_datetime :: "datetime \<Rightarrow> datetime \<Rightarrow> bool" where
  "less_datetime t u \<longleftrightarrow> time_key t < time_key u"

instance
  by standard (auto simp: less_eq_datetime_def less_datetime_def intro: time_key_inj)

end

text \<open>Different times give different log file names: every field has a fixed width.\<close>

lemma format_file_name_inj:
  assumes "format_file_name t = format_file_name u"
    and "valid_datetime t" and "valid_datetime u" and "1000 \<le> year t" and "1000 \<le> year u"
  shows "t = u"
proof -
  have nums: "x < 10 ^ w \<Longrightarrow> z < 10 ^ w \<Longrightarrow> digits w x = digits w z \<Longrightarrow> x = z" for x z w
    by (metis mod_less number_digits)
  have w: "year_width (year t) = 4" "year_width (year u) = 4"
    using assms(4,5) by (simp_all add: year_width_def)
  have dm: "day t \<le> 31" "day u \<le> 31"
    using assms(2,3) days_in_month_le le_trans unfolding valid_datetime_def by blast+
  from assms(1) w have
    "digits 4 (year t) = digits 4 (year u)" "digits 2 (month t) = digits 2 (month u)"
    "digits 2 (day t) = digits 2 (day u)" "digits 2 (hour t) = digits 2 (hour u)"
    "digits 2 (minute t) = digits 2 (minute u)" "digits 2 (second t) = digits 2 (second u)"
    "digits 6 (microsecond t) = digits 6 (microsecond u)"
    by (simp_all add: format_file_name_def del: digits.simps)
  then show ?thesis
    using assms(2-5) dm
    by (cases t; cases u) (auto simp: valid_datetime_def simp del: digits.simps intro!: nums)
qed

end
