(* ===== verification/Json_Text.thy ===== *)
theory Json_Text
  imports Decimal
begin

text \<open>
  The part of Python's \<^verbatim>\<open>json\<close> that the program uses: \<^verbatim>\<open>json.dump\<close> with the default separators and
  \<^verbatim>\<open>ensure_ascii\<close>, and \<^verbatim>\<open>json.load\<close>.  Strings have characters up to U+00FF, in files one byte each; the text of
  a value is plain ASCII all the same.  What is written is read back (\<open>loads_dumps\<close>).
\<close>

section \<open>Text and bytes\<close>

definition encode_text :: "string \<Rightarrow> bytes" where
  "encode_text s = map (\<lambda>c. of_nat (of_char c)) s"

definition decode_text :: "bytes \<Rightarrow> string" where
  "decode_text d = map (\<lambda>b. char_of (unat b)) d"

lemma decode_encode [simp]: "decode_text (encode_text s) = s"
  by (induction s) (simp_all add: encode_text_def decode_text_def unat_of_nat take_bit_nat_def)

text \<open>Reading a file in text mode turns every line end into a newline.\<close>

fun newlines_from :: "bool \<Rightarrow> string \<Rightarrow> string" where
  "newlines_from after_return [] = []"
| "newlines_from after_return (c # cs) =
     (if c = CHR 0x0D then CHR 0x0A # newlines_from True cs
      else if after_return \<and> c = CHR 0x0A then newlines_from False cs
      else c # newlines_from False cs)"

definition universal_newlines :: "string \<Rightarrow> string" where
  "universal_newlines s = newlines_from False s"

section \<open>Values\<close>

text \<open>
  A number with a fraction or an exponent, \<^verbatim>\<open>NaN\<close> and the infinities are kept as they are
  written; the program writes none of them.
\<close>

datatype json =
    JNull
  | JBool bool
  | JInt int
  | JFloat string
  | JString string
  | JList "json list"
  | JObject "(string, json) dict"

section \<open>Writing\<close>

definition quote_mark :: char where "quote_mark = CHR 0x22"
definition backslash :: char where "backslash = CHR 0x5C"

text \<open>The characters with an escape of one letter.  Reading also takes an escaped slash.\<close>

definition short_escapes :: "(char, char) dict" where
  "short_escapes =
     [(quote_mark, quote_mark), (backslash, backslash), (CHR 0x08, CHR ''b''), (CHR 0x0C, CHR ''f''),
      (CHR 0x0A, CHR ''n''), (CHR 0x0D, CHR ''r''), (CHR 0x09, CHR ''t'')]"

definition hex_digit :: "nat \<Rightarrow> char" where
  "hex_digit k = char_of (if k < 10 then 48 + k else 87 + k)"

definition escape_char :: "char \<Rightarrow> string" where
  "escape_char c =
     (case dict_get short_escapes c of
        Some e \<Rightarrow> [backslash, e]
      | None \<Rightarrow>
          let n = of_char c :: nat
          in if 32 \<le> n \<and> n < 127 then [c]
             else [backslash, CHR ''u'', CHR ''0'', CHR ''0'', hex_digit (n div 16), hex_digit (n mod 16)])"

definition quoted :: "string \<Rightarrow> string" where
  "quoted s = quote_mark # concat (map escape_char s) @ [quote_mark]"

primrec dumps :: "json \<Rightarrow> string" where
  "dumps JNull = ''null''"
| "dumps (JBool b) = (if b then ''true'' else ''false'')"
| "dumps (JInt k) = show_int k"
| "dumps (JFloat s) = s"
| "dumps (JString s) = quoted s"
| "dumps (JList vs) = ''['' @ joined '', '' (map dumps vs) @ '']''"
| "dumps (JObject d) =
     ''{'' @ joined '', '' (map (\<lambda>(k, t). quoted k @ '': '' @ t) (map (map_prod (\<lambda>k. k) dumps) d)) @ ''}''"

section \<open>Reading\<close>

definition json_space :: "char \<Rightarrow> bool" where
  "json_space c \<longleftrightarrow> c = CHR '' '' \<or> c = CHR 0x09 \<or> c = CHR 0x0A \<or> c = CHR 0x0D"

abbreviation skip_space :: "string \<Rightarrow> string" where
  "skip_space \<equiv> dropWhile json_space"

definition hex_value :: "char \<Rightarrow> nat option" where
  "hex_value c =
     (let n = of_char c :: nat
      in if 48 \<le> n \<and> n \<le> 57 then Some (n - 48)
         else if 97 \<le> n \<and> n \<le> 102 then Some (n - 87)
         else if 65 \<le> n \<and> n \<le> 70 then Some (n - 55)
         else None)"

text \<open>
  The four digits behind \<^verbatim>\<open>\u\<close>.  A character above U+00FF is none of the model's: the result is
  \<open>Unrepresentable\<close>, which is not an exception of Python.
\<close>

definition read_code :: "string \<Rightarrow> (char \<times> string) result" where
  "read_code s =
     (case map_option (fold (\<lambda>d n. 16 * n + d)) (those (map hex_value (take 4 s))) of
        None \<Rightarrow> Inl ValueError
      | Some f \<Rightarrow>
          if length s < 4 then Inl ValueError
          else if 256 \<le> f 0 then Inl Unrepresentable
          else Inr (char_of (f 0), drop 4 s))"

text \<open>A character of a string: \<open>None\<close> is the quotation mark that ends it.\<close>

definition read_char :: "string \<Rightarrow> (char option \<times> string) result" where
  "read_char s =
     (case s of
        [] \<Rightarrow> Inl ValueError
      | c # r \<Rightarrow>
          if c = quote_mark then Inr (None, r)
          else if c = backslash then
            (case r of
               [] \<Rightarrow> Inl ValueError
             | e # r' \<Rightarrow>
                 if e = CHR ''u'' then bindr (read_code r') (\<lambda>(x, r''). Inr (Some x, r''))
                 else if e = CHR ''/'' then Inr (Some e, r')
                 else (case find (\<lambda>(x, y). y = e) short_escapes of
                         None \<Rightarrow> Inl ValueError
                       | Some (x, y) \<Rightarrow> Inr (Some x, r')))
          else if (of_char c :: nat) < 32 then Inl ValueError
          else Inr (Some c, r))"

lemma read_char_shorter: "read_char s = Inr (x, r) \<Longrightarrow> length r < length s"
  by (auto simp: read_char_def read_code_def bindr_eq_Inr split: list.splits if_splits option.splits)

function read_string :: "string \<Rightarrow> (string \<times> string) result" where
  "read_string s =
     bindr (read_char s) (\<lambda>(x, r).
       case x of
         None \<Rightarrow> Inr ([], r)
       | Some c \<Rightarrow> bindr (read_string r) (\<lambda>(t, r'). Inr (c # t, r')))"
  by pat_completeness auto
termination
  by (relation "measure length") (auto dest: read_char_shorter)

declare read_string.simps [simp del]

text \<open>\<^verbatim>\<open>int\<close> refuses to read more than 4300 digits.\<close>

definition read_fraction :: "string \<Rightarrow> string \<times> string" where
  "read_fraction s =
     (case s of
        c # r \<Rightarrow>
          if c = CHR ''.'' \<and> takeWhile is_digit r \<noteq> []
          then (c # takeWhile is_digit r, dropWhile is_digit r) else ([], s)
      | [] \<Rightarrow> ([], s))"

definition read_exponent :: "string \<Rightarrow> string \<times> string" where
  "read_exponent s =
     (case s of
        c # r \<Rightarrow>
          let sign = takeWhile (\<lambda>x. x \<in> {CHR ''+'', CHR ''-''}) (take 1 r);
              r' = drop (length sign) r
          in if c \<in> {CHR ''e'', CHR ''E''} \<and> takeWhile is_digit r' \<noteq> []
             then (c # sign @ takeWhile is_digit r', dropWhile is_digit r') else ([], s)
      | [] \<Rightarrow> ([], s))"

definition read_digits :: "string \<Rightarrow> string \<times> string" where
  "read_digits s =
     (if prefix ''0'' s then (''0'', tl s) else (takeWhile is_digit s, dropWhile is_digit s))"

definition read_number :: "string \<Rightarrow> (json \<times> string) result" where
  "read_number s =
     (let sign = (if prefix ''-'' s then ''-'' else '''');
          (whole, r) = read_digits (drop (length sign) s);
          (fraction, r1) = read_fraction r;
          (exponent, r2) = read_exponent r1
      in if whole = [] then Inl ValueError
         else if fraction \<noteq> [] \<or> exponent \<noteq> [] then Inr (JFloat (sign @ whole @ fraction @ exponent), r2)
         else if 4300 < length whole then Inl ValueError
         else Inr (JInt (if sign = [] then int (number whole) else - int (number whole)), r))"

definition constants :: "(string, json) dict" where
  "constants =
     [(''null'', JNull), (''true'', JBool True), (''false'', JBool False), (''NaN'', JFloat ''NaN''),
      (''Infinity'', JFloat ''Infinity''), (''-Infinity'', JFloat ''-Infinity'')]"

definition read_atom :: "string \<Rightarrow> (json \<times> string) result" where
  "read_atom s =
     (case find (\<lambda>(w, v). prefix w s) constants of
        Some (w, v) \<Rightarrow> Inr (v, drop (length w) s)
      | None \<Rightarrow> read_number s)"

text \<open>The key of an object up to the value that belongs to it.\<close>

definition read_key :: "string \<Rightarrow> (string \<times> string) result" where
  "read_key s =
     (case s of
        c # r \<Rightarrow>
          if c = quote_mark
          then bindr (read_string r) (\<lambda>(k, r').
                 case skip_space r' of
                   d # r'' \<Rightarrow> if d = CHR '':'' then Inr (k, skip_space r'') else Inl ValueError
                 | [] \<Rightarrow> Inl ValueError)
          else Inl ValueError
      | [] \<Rightarrow> Inl ValueError)"

lemma read_string_shorter: "read_string s = Inr (t, r) \<Longrightarrow> length r < length s"
proof (induction s arbitrary: t r rule: read_string.induct)
  case (1 s)
  from 1(2) obtain x q where x: "read_char s = Inr (x, q)"
    and rest: "(case x of None \<Rightarrow> Inr ([], q)
      | Some c \<Rightarrow> bindr (read_string q) (\<lambda>(t, r'). Inr (c # t, r'))) = Inr (t, r)"
    by (subst (asm) read_string.simps) (auto elim!: bindrE)
  note read_char_shorter [OF x]
  with 1(1) x rest show ?case by (fastforce elim!: bindrE split: option.splits)
qed

lemma skip_space_shorter: "length (skip_space s) \<le> length s"
  by (simp add: length_dropWhile_le)

lemma read_key_shorter:
  assumes "read_key s = Inr (k, r)"
  shows "length r < length s"
proof -
  from assms obtain c q q' d q'' where "s = c # q" "read_string q = Inr (k, q')" "skip_space q' = d # q''"
    "r = skip_space q''"
    by (auto simp: read_key_def split: list.splits if_splits elim!: bindrE)
  then show ?thesis
    using read_string_shorter [of q k q'] skip_space_shorter [of q'] skip_space_shorter [of q''] by simp
qed

lemma sign_piece: "takeWhile P (take 1 s) @ drop (length (takeWhile P (take 1 s))) s = s"
  by (cases s) simp_all

lemma number_pieces:
  "read_digits s = (w, r) \<Longrightarrow> s = w @ r"
  "read_fraction s = (w, r) \<Longrightarrow> s = w @ r"
  "read_exponent s = (w, r) \<Longrightarrow> s = w @ r"
  using sign_piece [of "\<lambda>x. x \<in> {CHR ''+'', CHR ''-''}" "tl s"]
  by (auto simp: read_digits_def read_fraction_def read_exponent_def prefix_def Let_def
      split: if_splits list.splits)

lemma read_number_shorter:
  assumes "read_number s = Inr (v, r)"
  shows "length r < length s"
proof -
  let ?t = "drop (if prefix ''-'' s then 1 else 0) s"
  from assms obtain w f e where "w \<noteq> []" "?t = w @ f @ e @ r"
    by (fastforce simp: read_number_def Let_def split: if_splits prod.splits dest!: number_pieces)
  then have "length r < length ?t" by simp
  also have "\<dots> \<le> length s" by simp
  finally show ?thesis .
qed

lemma read_atom_shorter:
  assumes "read_atom s = Inr (v, r)"
  shows "length r < length s"
proof (cases "find (\<lambda>(w, v). prefix w s) constants")
  case None
  with assms show ?thesis by (simp add: read_atom_def read_number_shorter)
next
  case (Some wv)
  then obtain i where "i < length constants" "wv = constants ! i" "prefix (fst wv) s"
    by (auto simp: find_Some_iff)
  then have "wv \<in> set constants" and "prefix (fst wv) s" by simp_all
  moreover from this have "fst wv \<noteq> []" by (auto simp: constants_def)
  ultimately show ?thesis
    using assms Some by (auto simp: read_atom_def prefix_def split: prod.splits)
qed

lemma skip_space_bounds:
  "2 * length (skip_space s) < Suc (Suc (2 * length s))"
  "2 * (length (skip_space s) - Suc 0) < Suc (2 * length s)"
  using skip_space_shorter [of s] by simp_all

lemma skip_space_Cons: "skip_space s = c # r \<Longrightarrow> length r < length s \<and> length (skip_space r) < length s"
  using skip_space_shorter [of s] skip_space_shorter [of r] by simp

lemma skipped_key_shorter: "read_key (skip_space s) = Inr (k, r) \<Longrightarrow> length r < length s"
  using read_key_shorter [of "skip_space s" k r] skip_space_shorter [of s] by simp

text \<open>
  The scanner of Python calls itself for every value in a list or an object.  Here the values it is
  inside of are a stack of frames: the elements or the items read so far, with the key whose value
  comes next.  \<open>n\<close> is how deep the scanner may call itself before Python raises \<^verbatim>\<open>RecursionError\<close>.
\<close>

datatype frame = InList "json list" | InObject "(string, json) dict" string

function parse_value :: "nat \<Rightarrow> frame list \<Rightarrow> string \<Rightarrow> (json \<times> string) result"
  and close_value :: "nat \<Rightarrow> frame list \<Rightarrow> json \<Rightarrow> string \<Rightarrow> (json \<times> string) result" where
  "parse_value n fs s =
     (case s of
        [] \<Rightarrow> Inl ValueError
      | c # r \<Rightarrow>
          if c = quote_mark then bindr (read_string r) (\<lambda>(t, r'). close_value n fs (JString t) r')
          else if c = CHR ''['' then
            if n \<le> length fs then Inl RecursionError
            else if prefix '']'' (skip_space r) then close_value n fs (JList []) (tl (skip_space r))
            else parse_value n (InList [] # fs) (skip_space r)
          else if c = CHR ''{'' then
            if n \<le> length fs then Inl RecursionError
            else if prefix ''}'' (skip_space r) then close_value n fs (JObject []) (tl (skip_space r))
            else bindr (read_key (skip_space r)) (\<lambda>(k, r'). parse_value n (InObject [] k # fs) r')
          else bindr (read_atom s) (\<lambda>(v, r'). close_value n fs v r'))"
| "close_value n fs v s =
     (case fs of
        [] \<Rightarrow> Inr (v, s)
      | InList vs # gs \<Rightarrow>
          (case skip_space s of
             [] \<Rightarrow> Inl ValueError
           | c # r \<Rightarrow>
               if c = CHR '']'' then close_value n gs (JList (vs @ [v])) r
               else if c = CHR '','' then parse_value n (InList (vs @ [v]) # gs) (skip_space r)
               else Inl ValueError)
      | InObject d k # gs \<Rightarrow>
          (case skip_space s of
             [] \<Rightarrow> Inl ValueError
           | c # r \<Rightarrow>
               if c = CHR ''}'' then close_value n gs (JObject (dict_put k v d)) r
               else if c = CHR '','' then
                 bindr (read_key (skip_space r)) (\<lambda>(k', r'). parse_value n (InObject (dict_put k v d) k' # gs) r')
               else Inl ValueError))"
  by pat_completeness auto
termination
  by (relation "measure (case_sum (\<lambda>(n, fs, s). 2 * length s) (\<lambda>(n, fs, v, s). 2 * length s + 1))")
    (auto dest!: read_string_shorter skipped_key_shorter read_atom_shorter skip_space_Cons
      simp: skip_space_bounds)

declare parse_value.simps [simp del] close_value.simps [simp del]

definition loads :: "nat \<Rightarrow> string \<Rightarrow> json result" where
  "loads n s =
     bindr (parse_value n [] (skip_space s)) (\<lambda>(v, r).
       if skip_space r = [] then Inr v else Inl ValueError)"

section \<open>Reading what was written\<close>

lemma hex_value_digit: "k < 16 \<Longrightarrow> hex_value (hex_digit k) = Some k"
  by (simp add: hex_value_def hex_digit_def)

lemma read_code_four:
  "read_code (a # b # c # d # r) =
     (case (hex_value a, hex_value b, hex_value c, hex_value d) of
        (Some i, Some j, Some k, Some l) \<Rightarrow>
          let n = 16 * (16 * (16 * i + j) + k) + l
          in if 256 \<le> n then Inl Unrepresentable else Inr (char_of n, r)
      | _ \<Rightarrow> Inl ValueError)"
  by (simp add: read_code_def take_Cons' drop_Cons' Let_def split: option.split)

lemma read_code_hex:
  assumes "n < 256"
  shows "read_code (CHR ''0'' # CHR ''0'' # hex_digit (n div 16) # hex_digit (n mod 16) # r) = Inr (char_of n, r)"
proof -
  have "hex_value CHR ''0'' = Some 0" by (simp add: hex_value_def)
  moreover from assms have "hex_value (hex_digit (n div 16)) = Some (n div 16)" by (intro hex_value_digit) simp
  moreover have "hex_value (hex_digit (n mod 16)) = Some (n mod 16)" by (intro hex_value_digit) simp
  ultimately show ?thesis using assms by (simp add: read_code_four)
qed

lemma read_char_escaped [simp]: "read_char (escape_char c @ r) = Inr (Some c, r)"
proof (cases "dict_get short_escapes c")
  case None
  then have "c \<noteq> quote_mark" "c \<noteq> backslash" by (auto simp: short_escapes_def split: if_splits)
  moreover have "(of_char c :: nat) < 256" by simp
  moreover have "CHR ''u'' \<noteq> quote_mark" by (simp add: quote_mark_def)
  ultimately show ?thesis
    using None by (simp add: escape_char_def Let_def read_char_def read_code_hex backslash_def quote_mark_def)
next
  case (Some e)
  then show ?thesis
    by (auto simp: escape_char_def read_char_def short_escapes_def backslash_def quote_mark_def split: if_splits)
qed

lemma read_string_quoted [simp]: "read_string (concat (map escape_char s) @ quote_mark # r) = Inr (s, r)"
proof (induction s)
  case Nil
  then show ?case by (simp add: read_string.simps [of "quote_mark # r"] read_char_def)
next
  case (Cons c s)
  then show ?case by (subst read_string.simps) simp
qed

lemma read_key_quoted [simp]:
  "read_key (quoted k @ CHR '':'' # r) = Inr (k, skip_space r)"
  by (simp add: read_key_def quoted_def json_space_def)

text \<open>What follows a value: the end of the text, or what separates or ends the values around it.\<close>

definition delimited :: "string \<Rightarrow> bool" where
  "delimited r \<longleftrightarrow> r = [] \<or> hd r \<in> {CHR '','', CHR '']'', CHR ''}''}"

lemma delimited_facts:
  assumes "delimited r"
  shows "takeWhile is_digit r = []" and "dropWhile is_digit r = r"
    and "read_fraction r = ([], r)" and "read_exponent r = ([], r)"
  using assms by (cases r; auto simp: delimited_def is_digit_def read_fraction_def read_exponent_def)+

lemma read_digits_shown:
  assumes "delimited r"
  shows "read_digits (show_nat n @ r) = (show_nat n, r)"
proof (cases "n = 0")
  case True
  have "show_nat 0 = ''0''" by code_simp
  with True show ?thesis by (simp add: read_digits_def)
next
  case False
  then have "digit_value (hd (show_nat n)) \<noteq> 0" by (simp add: show_nat_hd)
  then have "\<not> prefix ''0'' (show_nat n @ r)"
    by (cases "show_nat n") (auto simp: digit_value_def)
  moreover have "\<forall>x \<in> set (show_nat n). is_digit x" using show_nat_digits [of n] by (simp add: list_all_iff)
  ultimately show ?thesis
    using delimited_facts(1,2) [OF assms] by (simp add: read_digits_def takeWhile_append dropWhile_append)
qed

lemma read_number_shown:
  assumes "delimited r" and "length (show_nat (nat \<bar>k\<bar>)) \<le> 4300"
  shows "read_number (show_int k @ r) = Inr (JInt k, r)"
proof -
  have "\<not> prefix ''-'' (show_nat n @ r)" for n
    using show_nat_digits [of n] by (cases "show_nat n") (auto simp: is_digit_def)
  then show ?thesis
    using assms by (cases "k < 0") (simp_all add: read_number_def show_int_def read_digits_shown delimited_facts Let_def)
qed

lemma no_constant:
  assumes "is_digit c"
  shows "find (\<lambda>(w, v). prefix w (c # s)) constants = None"
    and "find (\<lambda>(w, v). prefix w (CHR ''-'' # c # s)) constants = None"
proof -
  have "c \<noteq> CHR ''n''" "c \<noteq> CHR ''t''" "c \<noteq> CHR ''f''" "c \<noteq> CHR ''N''" "c \<noteq> CHR ''I''" "c \<noteq> CHR ''-''"
    using assms by (auto simp: is_digit_def)
  then show "find (\<lambda>(w, v). prefix w (c # s)) constants = None"
    "find (\<lambda>(w, v). prefix w (CHR ''-'' # c # s)) constants = None"
    by (simp_all add: constants_def)
qed

lemma read_atom_shown:
  assumes "delimited r" and "length (show_nat (nat \<bar>k\<bar>)) \<le> 4300"
  shows "read_atom (show_int k @ r) = Inr (JInt k, r)"
proof -
  have "\<exists>c cs. show_nat n = c # cs \<and> is_digit c" for n
    using show_nat_digits [of n] by (cases "show_nat n") auto
  then obtain c cs where "is_digit c" "show_int k = c # cs \<or> show_int k = CHR ''-'' # c # cs"
    unfolding show_int_def by metis
  then have "find (\<lambda>(w, v). prefix w (show_int k @ r)) constants = None"
    using no_constant [of c "cs @ r"] by auto
  with read_number_shown [OF assms] show ?thesis by (simp add: read_atom_def)
qed

text \<open>
  The values that are read back: no two items of an object with one key, no number that \<^verbatim>\<open>int\<close>
  refuses and no floating-point number.  \<open>nesting\<close> is how deep lists and objects are in each other.
\<close>

primrec storable :: "json \<Rightarrow> bool" where
  "storable JNull \<longleftrightarrow> True"
| "storable (JBool b) \<longleftrightarrow> True"
| "storable (JInt k) \<longleftrightarrow> length (show_nat (nat \<bar>k\<bar>)) \<le> 4300"
| "storable (JFloat s) \<longleftrightarrow> False"
| "storable (JString s) \<longleftrightarrow> True"
| "storable (JList vs) \<longleftrightarrow> list_all (\<lambda>b. b) (map storable vs)"
| "storable (JObject d) \<longleftrightarrow> distinct (map fst d) \<and> list_all snd (map (map_prod (\<lambda>k. k) storable) d)"

primrec nesting :: "json \<Rightarrow> nat" where
  "nesting JNull = 0"
| "nesting (JBool b) = 0"
| "nesting (JInt k) = 0"
| "nesting (JFloat s) = 0"
| "nesting (JString s) = 0"
| "nesting (JList vs) = Suc (foldr max (map nesting vs) 0)"
| "nesting (JObject d) = Suc (foldr max (map snd (map (map_prod (\<lambda>k. k) nesting) d)) 0)"

lemma le_foldr_max: "x \<in> set xs \<Longrightarrow> x \<le> foldr max xs (0 :: nat)"
  by (induction xs) auto

lemma nesting_parts:
  "v \<in> set vs \<Longrightarrow> Suc (nesting v) \<le> nesting (JList vs)"
  "(k, v) \<in> set d \<Longrightarrow> Suc (nesting v) \<le> nesting (JObject d)"
  by (force intro!: le_foldr_max)+

text \<open>The first character of a value.\<close>

lemma dumps_start:
  assumes "storable v"
  obtains c s where "dumps v = c # s" and "\<not> json_space c" and "c \<noteq> CHR '']''" and "c \<noteq> CHR ''}''"
proof -
  have num: "\<exists>c s. show_nat n = c # s \<and> \<not> json_space c \<and> c \<noteq> CHR '']'' \<and> c \<noteq> CHR ''}''" for n
    using show_nat_digits [of n] by (cases "show_nat n") (auto simp: is_digit_def json_space_def)
  have "\<exists>c s. dumps v = c # s \<and> \<not> json_space c \<and> c \<noteq> CHR '']'' \<and> c \<noteq> CHR ''}''"
  proof (cases v)
    case (JInt k)
    then show ?thesis using num [of "nat k"] by (simp add: show_int_def json_space_def)
  qed (use assms in \<open>auto simp: quoted_def quote_mark_def json_space_def\<close>)
  with that show ?thesis by blast
qed

lemma dumps_no_space [simp]: "storable v \<Longrightarrow> skip_space (dumps v @ r) = dumps v @ r"
  by (erule dumps_start) simp

lemma close_rules:
  "close_value n [] v r = Inr (v, r)"
  "close_value n (InList vs # fs) v (CHR '']'' # r) = close_value n fs (JList (vs @ [v])) r"
  "close_value n (InList vs # fs) v (CHR '','' # r) = parse_value n (InList (vs @ [v]) # fs) (skip_space r)"
  "close_value n (InObject d k # fs) v (CHR ''}'' # r) = close_value n fs (JObject (dict_put k v d)) r"
  "close_value n (InObject d k # fs) v (CHR '','' # r) =
     bindr (read_key (skip_space r)) (\<lambda>(k', r'). parse_value n (InObject (dict_put k v d) k' # fs) r')"
  by (simp_all add: close_value.simps json_space_def)

definition reads_back :: "nat \<Rightarrow> json \<Rightarrow> bool" where
  "reads_back n v \<longleftrightarrow>
     (\<forall>fs r. length fs + nesting v \<le> n \<longrightarrow> delimited r \<longrightarrow>
        parse_value n fs (dumps v @ r) = close_value n fs v r)"

lemma elements_read_back:
  assumes "\<forall>w \<in> set (v # vs). storable w \<and> reads_back n w \<and> Suc (length fs) + nesting w \<le> n"
  shows "parse_value n (InList acc # fs) (joined '', '' (map dumps (v # vs)) @ CHR '']'' # r) =
    close_value n fs (JList (acc @ v # vs)) r"
  using assms
proof (induction vs arbitrary: v acc)
  case Nil
  then show ?case by (simp add: reads_back_def delimited_def close_rules)
next
  case (Cons w vs)
  then have "parse_value n (InList acc # fs) (dumps v @ CHR '','' # CHR '' '' # s) =
      close_value n (InList acc # fs) v (CHR '','' # CHR '' '' # s)" for s
    by (simp add: reads_back_def delimited_def)
  moreover have "skip_space (joined '', '' (map dumps (w # vs)) @ s) = joined '', '' (map dumps (w # vs)) @ s" for s
    using Cons.prems by (cases vs) simp_all
  ultimately show ?case
    using Cons.IH [of w "acc @ [v]"] Cons.prems by (simp add: close_rules json_space_def)
qed

definition item_text :: "string \<times> json \<Rightarrow> string" where
  "item_text kv = quoted (fst kv) @ '': '' @ dumps (snd kv)"

lemma items_read_back:
  assumes "\<forall>w \<in> snd ` set (kv # d). storable w \<and> reads_back n w \<and> Suc (length fs) + nesting w \<le> n"
    and "distinct (map fst (acc @ kv # d))"
  shows "bindr (read_key (joined '', '' (map item_text (kv # d)) @ CHR ''}'' # r))
      (\<lambda>(k, s). parse_value n (InObject acc k # fs) s) =
    close_value n fs (JObject (acc @ kv # d)) r"
  using assms
proof (induction d arbitrary: kv acc)
  case Nil
  then show ?case
    by (cases kv) (simp add: item_text_def reads_back_def delimited_def close_rules dict_put_new json_space_def)
next
  case (Cons kw d)
  obtain k v where kv: "kv = (k, v)" by fastforce
  have "read_key (item_text kv @ s) = Inr (k, dumps v @ s)" for s
    using Cons.prems(1) by (simp add: item_text_def kv json_space_def)
  moreover from Cons.prems(1) have "parse_value n (InObject acc k # fs) (dumps v @ CHR '','' # CHR '' '' # s) =
      close_value n (InObject acc k # fs) v (CHR '','' # CHR '' '' # s)" for s
    by (simp add: reads_back_def delimited_def kv)
  moreover have "skip_space (joined '', '' (map item_text (kw # d)) @ s) = joined '', '' (map item_text (kw # d)) @ s" for s
    by (cases d) (simp_all add: item_text_def quoted_def json_space_def quote_mark_def)
  moreover have "dict_put k v acc = acc @ [kv]" using Cons.prems(2) by (simp add: kv dict_put_new)
  ultimately show ?case
    using Cons.IH [of kw "acc @ [kv]"] Cons.prems by (simp add: close_rules json_space_def)
qed

lemma list_starts:
  assumes "storable v"
  shows "\<not> prefix '']'' (joined '', '' (map dumps (v # vs)) @ s)"
    and "skip_space (joined '', '' (map dumps (v # vs)) @ s) = joined '', '' (map dumps (v # vs)) @ s"
  using assms by (cases vs; auto elim!: dumps_start)+

lemma object_starts:
  "\<not> prefix ''}'' (joined '', '' (map item_text (kv # d)) @ s)"
  "skip_space (joined '', '' (map item_text (kv # d)) @ s) = joined '', '' (map item_text (kv # d)) @ s"
  by (cases d; simp add: item_text_def quoted_def json_space_def quote_mark_def)+

lemma dumps_object: "dumps (JObject d) = ''{'' @ joined '', '' (map item_text d) @ ''}''"
proof -
  have "(\<lambda>(k, t). quoted k @ '': '' @ t) \<circ> map_prod (\<lambda>k. k) dumps = item_text"
    by (auto simp: item_text_def fun_eq_iff)
  then show ?thesis by (simp only: dumps.simps map_map)
qed

lemma value_reads_back: "storable v \<Longrightarrow> reads_back n v"
proof (induction v)
  case (JList vs)
  show ?case unfolding reads_back_def
  proof (intro allI impI)
    fix fs :: "frame list" and r assume deep: "length fs + nesting (JList vs) \<le> n" and "delimited r"
    from deep have n: "\<not> n \<le> length fs" by simp
    show "parse_value n fs (dumps (JList vs) @ r) = close_value n fs (JList vs) r"
    proof (cases vs)
      case Nil
      with n show ?thesis by (simp add: parse_value.simps quote_mark_def json_space_def)
    next
      case (Cons w ws)
      have "\<forall>u \<in> set (w # ws). storable u \<and> reads_back n u \<and> Suc (length fs) + nesting u \<le> n"
        using JList deep nesting_parts(1) [of _ vs] Cons by (fastforce simp: list_all_iff)
      with n Cons list_starts [of w ws] elements_read_back [of w ws n fs "[]" r]
      show ?thesis by (simp add: parse_value.simps [of n fs] quote_mark_def del: joined.simps list.map)
    qed
  qed
next
  case (JObject d)
  show ?case unfolding reads_back_def
  proof (intro allI impI)
    fix fs :: "frame list" and r assume deep: "length fs + nesting (JObject d) \<le> n" and "delimited r"
    from deep have n: "\<not> n \<le> length fs" by simp
    show "parse_value n fs (dumps (JObject d) @ r) = close_value n fs (JObject d) r"
    proof (cases d)
      case Nil
      with n show ?thesis by (simp add: parse_value.simps quote_mark_def json_space_def)
    next
      case (Cons kw ds)
      have "\<forall>u \<in> snd ` set (kw # ds). storable u \<and> reads_back n u \<and> Suc (length fs) + nesting u \<le> n"
        using JObject deep nesting_parts(2) [of _ _ d] Cons by (fastforce simp: list_all_iff snds.simps)
      moreover have "distinct (map fst ([] @ kw # ds))" using JObject.prems Cons by simp
      ultimately show ?thesis
        using n Cons object_starts [of kw ds] items_read_back [of kw ds n fs "[]" r]
        by (simp add: dumps_object parse_value.simps [of n fs] quote_mark_def del: dumps.simps joined.simps list.map)
    qed
  qed
next
  case (JInt k)
  have num: "\<exists>c s. show_nat n = c # s \<and> c \<noteq> quote_mark \<and> c \<noteq> CHR ''['' \<and> c \<noteq> CHR ''{''" for n
    using show_nat_digits [of n] by (cases "show_nat n") (auto simp: is_digit_def quote_mark_def)
  obtain c s where "show_int k = c # s" "c \<noteq> quote_mark" "c \<noteq> CHR ''[''" "c \<noteq> CHR ''{''"
  proof (cases "k < 0")
    case True
    with that show ?thesis by (simp add: show_int_def quote_mark_def)
  next
    case False
    with that num [of "nat k"] show ?thesis by (auto simp: show_int_def)
  qed
  then have "parse_value n fs (show_int k @ r) =
      bindr (read_atom (show_int k @ r)) (\<lambda>(v, r'). close_value n fs v r')" for fs r
    by (simp add: parse_value.simps)
  with JInt show ?case by (simp add: reads_back_def read_atom_shown)
next
  case (JString s)
  then show ?case by (simp add: reads_back_def quoted_def parse_value.simps)
qed (auto simp: reads_back_def parse_value.simps read_atom_def constants_def quote_mark_def)

text \<open>What is written is read back, by a scanner that may go as deep as the value is.\<close>

lemma loads_dumps:
  assumes "storable v" and "nesting v \<le> n"
  shows "loads n (dumps v) = Inr v"
proof -
  have "parse_value n [] (dumps v @ []) = close_value n [] v []"
    using value_reads_back [OF assms(1), of n] assms(2) unfolding reads_back_def
    by (auto simp: delimited_def simp del: append_Nil2)
  moreover have "skip_space (dumps v) = dumps v" using dumps_no_space [OF assms(1), of "[]"] by simp
  ultimately show ?thesis by (simp add: loads_def close_rules)
qed

section \<open>Files\<close>

definition json_dump :: "json \<Rightarrow> bytes" where
  "json_dump v = encode_text (dumps v)"

definition json_load :: "nat \<Rightarrow> bytes \<Rightarrow> json result" where
  "json_load n d = loads n (universal_newlines (decode_text d))"

lemma newlines_plain: "CHR 0x0D \<notin> set s \<Longrightarrow> newlines_from False s = s"
  by (induction s) auto

lemma escape_no_return: "CHR 0x0D \<notin> set (escape_char c)"
proof (cases "dict_get short_escapes c")
  case None
  have hex: "hex_digit k \<noteq> CHR 0x0D" if "k < 16" for k
  proof
    assume "hex_digit k = CHR 0x0D"
    with hex_value_digit [OF that] show False by (simp add: hex_value_def)
  qed
  have "(of_char c :: nat) div 16 < 16" by (simp add: div_less_iff_less_mult)
  then have "hex_digit (of_char c div 16) \<noteq> CHR 0x0D" "hex_digit (of_char c mod 16) \<noteq> CHR 0x0D"
    using hex by simp_all
  moreover from None have "c \<noteq> CHR 0x0D" by (auto simp: short_escapes_def quote_mark_def backslash_def)
  ultimately have "CHR 0x0D \<notin> {c, hex_digit (of_char c div 16), hex_digit (of_char c mod 16)}" by auto
  with None show ?thesis by (simp add: escape_char_def Let_def backslash_def)
next
  case (Some e)
  then show ?thesis
    by (auto simp: escape_char_def short_escapes_def backslash_def quote_mark_def split: if_splits)
qed

lemma joined_avoids: "c \<notin> set sep \<Longrightarrow> \<forall>t \<in> set ts. c \<notin> set t \<Longrightarrow> c \<notin> set (joined sep ts)"
  using set_joined_subset [of sep ts] by blast

lemma quoted_no_return: "CHR 0x0D \<notin> set (quoted s)"
  using escape_no_return by (auto simp: quoted_def quote_mark_def)

lemma dumps_no_return: "storable v \<Longrightarrow> CHR 0x0D \<notin> set (dumps v)"
proof (induction v)
  case (JInt k)
  have "CHR 0x0D \<notin> set (show_nat n)" for n
    using show_nat_digits [of n] by (auto simp: list_all_iff is_digit_def)
  then show ?case by (simp add: show_int_def)
next
  case (JString s)
  then show ?case by (simp add: quoted_no_return)
next
  case (JList vs)
  then have "\<forall>t \<in> set (map dumps vs). CHR 0x0D \<notin> set t" by (auto simp: list_all_iff)
  then have "CHR 0x0D \<notin> set (joined '', '' (map dumps vs))" by (intro joined_avoids) simp
  then show ?case by simp
next
  case (JObject d)
  then have "\<forall>t \<in> set (map item_text d). CHR 0x0D \<notin> set t"
    using quoted_no_return by (fastforce simp: list_all_iff item_text_def snds.simps)
  then have "CHR 0x0D \<notin> set (joined '', '' (map item_text d))" by (intro joined_avoids) simp
  then show ?case by (simp add: dumps_object del: dumps.simps)
qed simp_all

lemma json_load_dump: "storable v \<Longrightarrow> nesting v \<le> n \<Longrightarrow> json_load n (json_dump v) = Inr v"
  by (simp add: json_load_def json_dump_def universal_newlines_def newlines_plain dumps_no_return loads_dumps)

end
