(* ===== verification/Command_Log.thy ===== *)
theory Command_Log
  imports Host_Places Byte_Source Date_Time Json_Text
begin

text \<open>
  \<^verbatim>\<open>cincan/command_log.py\<close>: the entries of the command log, their JSON form, the writer that
  puts an entry into a file of its own, and the index that reads the files back.  Files hold the
  text of a JSON value, which \<open>Json_Text\<close> writes and reads; \<open>deep\<close> is how deep its scanner may go.
\<close>

section \<open>Text\<close>

definition whitespace :: "char \<Rightarrow> bool" where
  "whitespace c \<longleftrightarrow> c = CHR '' '' \<or> c = CHR 0x09 \<or> c = CHR 0x0A \<or> c = CHR 0x0D \<or> c = CHR 0x0B \<or> c = CHR 0x0C"

definition quote_args :: "string list \<Rightarrow> string list" where
  "quote_args args =
     map (\<lambda>arg. if list_ex whitespace arg then CHR 0x22 # arg @ [CHR 0x22] else arg) args"

section \<open>Entries\<close>

record file_log =
  path :: ppath
  digest :: string
  timestamp :: "datetime option"

record command_log =
  command :: "string list"
  log_time :: datetime
  exit_code :: int
  log_stdin :: bytes
  log_stdout :: bytes
  log_stderr :: bytes
  in_files :: "file_log list"
  out_files :: "file_log list"

definition new_file_log :: "ppath \<Rightarrow> string \<Rightarrow> datetime option \<Rightarrow> file_log" where
  "new_file_log p d t = \<lparr>path = p, digest = d, timestamp = t\<rparr>"

definition new_command_log :: "string list \<Rightarrow> datetime \<Rightarrow> command_log" where
  "new_command_log cmd t =
     \<lparr>command = cmd, log_time = t, exit_code = 0, log_stdin = [], log_stdout = [], log_stderr = [],
      in_files = [], out_files = []\<rparr>"

definition command_string :: "command_log \<Rightarrow> string" where
  "command_string log = joined '' '' (quote_args (command log))"

section \<open>JSON\<close>

definition file_to_json :: "file_log \<Rightarrow> json" where
  "file_to_json f =
     JObject ([(''path'', JString (as_posix (path f)))] @
       (if digest f \<noteq> '''' then [(''sha256'', JString (digest f))] else []) @
       (case timestamp f of None \<Rightarrow> [] | Some t \<Rightarrow> [(''timestamp'', JString (format_json t))]))"

definition to_json :: "command_log \<Rightarrow> json" where
  "to_json log =
     JObject ([(''command'', JList (map JString (command log))),
               (''timestamp'', JString (format_json (log_time log))),
               (''exit_code'', JInt (exit_code log))] @
       (if length (in_files log) > 0 then [(''input'', JList (map file_to_json (in_files log)))] else []) @
       (if length (out_files log) > 0 then [(''output'', JList (map file_to_json (out_files log)))] else []))"

text \<open>
  Reading back.  A value of another JSON type than the one that is written is a \<^verbatim>\<open>TypeError\<close>
  here; Python raises it at the place where the value is used.
\<close>

definition fields_of :: "json \<Rightarrow> (string, json) dict result" where
  "fields_of j = (case j of JObject d \<Rightarrow> Inr d | _ \<Rightarrow> Inl TypeError)"

definition text_of :: "json \<Rightarrow> string result" where
  "text_of j = (case j of JString s \<Rightarrow> Inr s | _ \<Rightarrow> Inl TypeError)"

definition items_of :: "json \<Rightarrow> json list result" where
  "items_of j = (case j of JList js \<Rightarrow> Inr js | _ \<Rightarrow> Inl TypeError)"

definition item :: "(string, json) dict \<Rightarrow> string \<Rightarrow> json result" where
  "item d k = (case dict_get d k of None \<Rightarrow> Inl KeyError | Some j \<Rightarrow> Inr j)"

fun map_result :: "('a \<Rightarrow> 'b result) \<Rightarrow> 'a list \<Rightarrow> 'b list result" where
  "map_result f [] = Inr []"
| "map_result f (x # xs) = bindr (f x) (\<lambda>y. bindr (map_result f xs) (\<lambda>ys. Inr (y # ys)))"

definition file_from_json :: "json \<Rightarrow> file_log result" where
  "file_from_json j =
     bindr (fields_of j) (\<lambda>d.
     bindr (item d ''path'') (\<lambda>jp.
     bindr (text_of jp) (\<lambda>p.
     bindr (text_of (get_or d ''sha256'' (JString ''''))) (\<lambda>sha.
     case dict_get d ''timestamp'' of
       None \<Rightarrow> Inr (new_file_log (parse_path p) sha None)
     | Some jt \<Rightarrow>
         bindr (text_of jt) (\<lambda>ts.
         bindr (parse_json ts) (\<lambda>t.
         Inr (new_file_log (parse_path p) sha (Some t))))))))"

definition files_field :: "(string, json) dict \<Rightarrow> string \<Rightarrow> file_log list result" where
  "files_field d k =
     (case dict_get d k of
        None \<Rightarrow> Inr []
      | Some j \<Rightarrow> bindr (items_of j) (map_result file_from_json))"

definition from_json :: "json \<Rightarrow> command_log result" where
  "from_json j =
     bindr (fields_of j) (\<lambda>d.
     bindr (item d ''command'') (\<lambda>jc.
     bindr (items_of jc) (\<lambda>cs.
     bindr (map_result text_of cs) (\<lambda>cmd.
     bindr (item d ''timestamp'') (\<lambda>jt.
     bindr (text_of jt) (\<lambda>ts.
     bindr (parse_json ts) (\<lambda>t.
     bindr (files_field d ''input'') (\<lambda>ins.
     bindr (files_field d ''output'') (\<lambda>outs.
     Inr ((new_command_log cmd t)\<lparr>in_files := ins, out_files := outs\<rparr>))))))))))"

section \<open>The directory of the log\<close>

text \<open>
  \<^verbatim>\<open>CommandLogBase.__init__\<close>: the user's id comes from \<^verbatim>\<open>.cincan/uid.txt\<close>, which is created with
  a new id \<open>uuid\<close> if it is not there; \<open>home\<close> is the home directory.
\<close>

definition uid_file :: "ppath \<Rightarrow> ppath" where
  "uid_file home = join_path home (parse_path ''.cincan/uid.txt'')"

definition user_id :: "int \<Rightarrow> ppath \<Rightarrow> string \<Rightarrow> (host, string) action" where
  "user_id now home uuid h =
     (if is_file h (uid_file home)
      then (bindr (read_file h (uid_file home)) (\<lambda>d. Inr (universal_newlines (decode_text d))), h)
      else and_then (attempt (write_file now (uid_file home) (encode_text uuid))) (\<lambda>_. give uuid) h)"

definition open_log ::
  "int \<Rightarrow> ppath \<Rightarrow> string \<Rightarrow> ppath option \<Rightarrow> (host, ppath) action" where
  "open_log now home uuid log_directory =
     and_then (user_id now home uuid) (\<lambda>directoryname.
       let dir = (case log_directory of
                    Some d \<Rightarrow> d
                  | None \<Rightarrow> join_path (join_path (join_path (join_path home (parse_path ''.cincan''))
                              (parse_path ''shared'')) (parse_path directoryname)) (parse_path ''logs''))
       in and_then (make_parents now dir) (\<lambda>_. give dir))"

text \<open>Opening the log adds the file with the id and directories, and changes nothing else.\<close>

lemma keeps_only_adds: "(\<And>h. only_adds P h (snd (m h))) \<Longrightarrow> keeps (only_adds P h0) m"
  by (blast intro: keepsI only_adds_trans)

lemma open_log_only_adds:
  assumes "P (FileNode (encode_text uuid) now)" and "P (DirNode now)"
  shows "keeps (only_adds P h0) (open_log now home uuid log_directory)"
proof -
  have "only_adds P h (snd (user_id now home uuid h))" for h
    using assms(1) by (auto simp: user_id_def and_then_def attempt_def give_def split: sum.splits
        intro: only_adds_mono [OF write_only_adds])
  moreover have "only_adds P h (snd (make_parents now p h))" for p h
    using assms(2) by (auto intro: only_adds_mono [OF make_parents_only_adds])
  ultimately show ?thesis
    unfolding open_log_def Let_def by (intro keeps_and_then keeps_only_adds keeps_simple) 
qed

section \<open>The writer\<close>

text \<open>
  \<open>clock k\<close> is what the \<open>k\<close>-th call of \<^verbatim>\<open>datetime.now()\<close> returns.  The loop waits for a name that
  is not taken; \<open>None\<close> means it waits for ever.
\<close>

definition log_file :: "ppath \<Rightarrow> datetime \<Rightarrow> ppath" where
  "log_file dir t = join_path dir (parse_path (format_file_name t))"

partial_function (option) free_log_file ::
  "(nat \<Rightarrow> datetime) \<Rightarrow> nat \<Rightarrow> ppath \<Rightarrow> host \<Rightarrow> ppath option" where
  "free_log_file clock k dir h =
     (if path_exists h (log_file dir (clock k)) then free_log_file clock (Suc k) dir h
      else Some (log_file dir (clock k)))"

declare free_log_file.simps [code]

definition write_log ::
  "(nat \<Rightarrow> datetime) \<Rightarrow> int \<Rightarrow> ppath \<Rightarrow> command_log \<Rightarrow> host \<Rightarrow> host result option" where
  "write_log clock now dir log h =
     map_option (\<lambda>p. write_file now p (json_dump (to_json log)) h) (free_log_file clock 0 dir h)"

section \<open>The index\<close>

text \<open>
  \<^verbatim>\<open>__read_log\<close> as it is written: it takes a directory and lists \<^verbatim>\<open>self.log_directory\<close>.  \<open>n\<close> is
  how much deeper the stack lets it call itself.
\<close>

primrec read_log ::
  "nat \<Rightarrow> nat \<Rightarrow> host \<Rightarrow> ppath \<Rightarrow> ppath \<Rightarrow> command_log list result" where
  "read_log 0 deep h log_directory = (\<lambda>directory. Inl RecursionError)"
| "read_log (Suc n) deep h log_directory = (\<lambda>directory.
     foldm (\<lambda>log_l file.
       if is_dir h file
       then bindr (read_log n deep h log_directory file) (\<lambda>logs. Inr (log_l @ logs))
       else
         bindr (read_file h file) (\<lambda>d.
         bindr (json_load deep d) (\<lambda>js.
         bindr (from_json js) (\<lambda>log. Inr (log_l @ [log])))))
       [] (iterdir h log_directory))"

definition load_index ::
  "nat \<Rightarrow> nat \<Rightarrow> host \<Rightarrow> ppath \<Rightarrow> command_log list result" where
  "load_index n deep h log_directory =
     (let log_root = parent log_directory in read_log n deep h log_directory log_root)"

text \<open>\<^verbatim>\<open>sorted\<close> is stable, also when the order is reversed.\<close>

definition list_entries :: "bool \<Rightarrow> command_log list \<Rightarrow> command_log list" where
  "list_entries reverse logs =
     (if reverse then rev (sort_key log_time (rev logs)) else sort_key log_time logs)"

section \<open>Lemmas\<close>

text \<open>What a log entry must satisfy to survive being written: times in range, parsed paths.\<close>

definition printable_time :: "datetime \<Rightarrow> bool" where
  "printable_time t \<longleftrightarrow> valid_datetime t \<and> 1000 \<le> year t"

definition wf_file_log :: "file_log \<Rightarrow> bool" where
  "wf_file_log f \<longleftrightarrow>
     wf_path (path f) \<and> (case timestamp f of None \<Rightarrow> True | Some t \<Rightarrow> printable_time t)"

definition wf_command_log :: "command_log \<Rightarrow> bool" where
  "wf_command_log log \<longleftrightarrow>
     printable_time (log_time log) \<and> list_all wf_file_log (in_files log) \<and>
     list_all wf_file_log (out_files log)"

lemma printable_time_parses [simp]: "printable_time t \<Longrightarrow> parse_json (format_json t) = Inr t"
  by (simp add: printable_time_def parse_format_json)

lemma map_result_map:
  "list_all (\<lambda>x. f (g x) = Inr (h x)) xs \<Longrightarrow> map_result f (map g xs) = Inr (map h xs)"
  by (induction xs) auto

lemma json_simps [simp]:
  "fields_of (JObject d) = Inr d" "items_of (JList js) = Inr js" "text_of (JString s) = Inr s"
  by (simp_all add: fields_of_def items_of_def text_of_def)

lemma file_round_trip: "wf_file_log f \<Longrightarrow> file_from_json (file_to_json f) = Inr f"
  by (cases "timestamp f"; cases f)
    (auto simp: file_from_json_def file_to_json_def wf_file_log_def item_def get_or_def new_file_log_def)

lemma files_round_trip:
  "list_all wf_file_log fs \<Longrightarrow> map_result file_from_json (map file_to_json fs) = Inr fs"
  using map_result_map [of file_from_json file_to_json "\<lambda>f. f" fs]
  by (simp add: list_all_iff file_round_trip)

lemma command_round_trip:
  assumes "wf_command_log log"
  shows "from_json (to_json log) =
    Inr (log\<lparr>exit_code := 0, log_stdin := [], log_stdout := [], log_stderr := []\<rparr>)"
proof -
  have cmd: "map_result text_of (map JString (command log)) = Inr (command log)"
    using map_result_map [of text_of JString "\<lambda>s. s" "command log"] by (simp add: list_all_iff)
  have rest: "(new_command_log (command log) (log_time log))
      \<lparr>in_files := in_files log, out_files := out_files log\<rparr> =
      log\<lparr>exit_code := 0, log_stdin := [], log_stdout := [], log_stderr := []\<rparr>"
    by (cases log) (simp add: new_command_log_def)
  from assms have ins: "files_field
      (case to_json log of JObject d \<Rightarrow> d | _ \<Rightarrow> []) ''input'' = Inr (in_files log)"
    and outs: "files_field
      (case to_json log of JObject d \<Rightarrow> d | _ \<Rightarrow> []) ''output'' = Inr (out_files log)"
    by (auto simp: files_field_def to_json_def wf_command_log_def files_round_trip)
  from assms have "printable_time (log_time log)" by (simp add: wf_command_log_def)
  then have "from_json (to_json log) =
      Inr ((new_command_log (command log) (log_time log))
        \<lparr>in_files := in_files log, out_files := out_files log\<rparr>)"
    using cmd ins outs by (simp add: from_json_def to_json_def item_def)
  with rest show ?thesis by simp
qed

text \<open>The text of an entry: three levels of lists and objects.\<close>

definition as_read :: "command_log \<Rightarrow> command_log" where
  "as_read log = log\<lparr>exit_code := 0, log_stdin := [], log_stdout := [], log_stderr := []\<rparr>"

lemma file_entry_storable: "storable (file_to_json f)" "nesting (file_to_json f) = 1"
  by (auto simp: file_to_json_def split: option.splits)

lemma foldr_max_le: "\<forall>x \<in> set xs. x \<le> b \<Longrightarrow> foldr max xs (0 :: nat) \<le> b"
  by (induction xs) auto

lemma entry_storable:
  assumes "storable (JInt (exit_code log))"
  shows "storable (to_json log)" and "nesting (to_json log) \<le> 3"
proof -
  show "storable (to_json log)"
    using assms by (simp add: to_json_def list_all_iff file_entry_storable)
  have "foldr max (map nesting (map JString ss)) 0 \<le> 1" for ss by (rule foldr_max_le) auto
  moreover have "foldr max (map nesting (map file_to_json gs)) 0 \<le> 1" for gs
    by (rule foldr_max_le) (auto simp: file_entry_storable)
  ultimately show "nesting (to_json log) \<le> 3" by (simp add: to_json_def comp_def)
qed

lemma entry_text_read:
  assumes "wf_command_log log" and "storable (JInt (exit_code log))" and "3 \<le> deep"
  shows "bindr (json_load deep (json_dump (to_json log))) from_json = Inr (as_read log)"
proof -
  from assms(3) entry_storable(2) [OF assms(2)] have "nesting (to_json log) \<le> deep" by simp
  then show ?thesis
    by (simp add: json_load_dump [OF entry_storable(1) [OF assms(2)]] command_round_trip [OF assms(1)] as_read_def)
qed

text \<open>The names in a directory are finitely many, so a clock that moves on finds a free one.\<close>

lemma free_log_file_next:
  "free_log_file clock k dir h =
     (if path_exists h (log_file dir (clock k)) then free_log_file clock (Suc k) dir h
      else Some (log_file dir (clock k)))"
  by (rule free_log_file.simps)

lemma free_log_file_found:
  "\<not> path_exists h (log_file dir (clock (k + d))) \<Longrightarrow>
     \<exists>j \<le> d. free_log_file clock k dir h = Some (log_file dir (clock (k + j))) \<and>
       \<not> path_exists h (log_file dir (clock (k + j)))"
proof (induction d arbitrary: k)
  case 0
  then show ?case by (subst free_log_file_next) simp
next
  case (Suc d)
  show ?case
  proof (cases "path_exists h (log_file dir (clock k))")
    case True
    from Suc.IH [of "Suc k"] Suc.prems obtain j where "j \<le> d"
      "free_log_file clock (Suc k) dir h = Some (log_file dir (clock (k + Suc j)))"
      "\<not> path_exists h (log_file dir (clock (k + Suc j)))" by auto
    then show ?thesis using True by (intro exI [of _ "Suc j"]) (simp add: free_log_file_next [of clock k])
  next
    case False
    then show ?thesis by (intro exI [of _ 0]) (simp add: free_log_file_next [of clock k])
  qed
qed

lemma file_name_plain:
  "list_all (\<lambda>c. is_digit c \<or> c = CHR ''-'') (format_file_name t)"
proof -
  have "is_digit c" if "c \<in> set (digits w n)" for c w n
    using that digits_are_digits [of w n] by (simp only: list_all_iff)
  then show ?thesis by (auto simp: format_file_name_def list_all_iff simp del: digits.simps)
qed

lemma wf_file_name: "wf_part (format_file_name t)"
proof -
  have "slash \<notin> set (format_file_name t)" "CHR ''.'' \<notin> set (format_file_name t)"
    using file_name_plain [of t] by (auto simp: list_all_iff slash_def is_digit_def)
  moreover have "length (format_file_name t) > 1"
    by (simp add: format_file_name_def del: digits.simps)
  ultimately show ?thesis by (auto simp: wf_part_def)
qed

lemma parse_file_name: "parse_path (format_file_name t) = PPath '''' [format_file_name t]"
proof -
  have "wf_path (PPath '''' [format_file_name t])" by (simp add: wf_path_def wf_file_name)
  from parse_as_posix [OF this] show ?thesis by (simp add: as_posix_def)
qed

lemma log_file_parts: "log_file dir t = PPath (proot dir) (pparts dir @ [format_file_name t])"
  by (simp add: log_file_def join_path_def parse_file_name)

text \<open>The number of times the loop can find its name taken is bounded by the number of nodes.\<close>

definition clock_moves :: "(nat \<Rightarrow> datetime) \<Rightarrow> nat \<Rightarrow> bool" where
  "clock_moves clock n \<longleftrightarrow>
     distinct (map clock [0..<n]) \<and> list_all (\<lambda>k. printable_time (clock k)) [0..<n]"

lemma clock_moves_facts:
  assumes "clock_moves clock n"
  shows "k < n \<Longrightarrow> printable_time (clock k)" and "inj_on clock {..<n}"
  using assms by (auto simp: clock_moves_def list_all_iff distinct_map lessThan_atLeast0)

lemma some_name_free:
  fixes clock :: "nat \<Rightarrow> datetime"
  assumes "clock_moves clock (length (tree h) + 2)"
  shows "\<exists>d < length (tree h) + 2. \<not> path_exists h (log_file dir (clock d))"
proof (rule ccontr)
  let ?n = "length (tree h) + 2"
  assume "\<not> ?thesis"
  then have all: "find_node h (log_file dir (clock d)) \<noteq> None" if "d < ?n" for d
    using that by (auto simp: path_exists_def)
  let ?loc = "\<lambda>d::nat. projr (locate h (log_file dir (clock d)))"
  have known: "?loc d \<in> insert [] (set (map fst (tree h)))" if "d < ?n" for d
    using all [OF that] by (auto simp: find_node_def node_at_def entry_at_def split: sum.splits if_splits
        dest!: map_of_SomeD intro!: image_eqI)
  have last: "last (?loc d) = format_file_name (clock d)" if d: "d < ?n" for d
  proof -
    have "format_file_name (clock d) \<noteq> dotdot"
      using file_name_plain [of "clock d"] by (auto simp: dotdot_def is_digit_def)
    moreover obtain l where l: "locate h (log_file dir (clock d)) = Inr l"
      using all [OF d] by (auto simp: find_node_def split: sum.splits)
    ultimately have "\<exists>c. l = c @ [format_file_name (clock d)]"
      using locate_child unfolding log_file_parts by blast
    with l show ?thesis by auto
  qed
  have inj: "inj_on ?loc {..<?n}"
  proof (rule inj_onI)
    fix c d
    assume c: "c \<in> {..<?n}" and d: "d \<in> {..<?n}" and "?loc c = ?loc d"
    with last have "format_file_name (clock c) = format_file_name (clock d)" by (metis lessThan_iff)
    moreover have "printable_time (clock c)" "printable_time (clock d)"
      using clock_moves_facts(1) [OF assms] c d by simp_all
    ultimately have "clock c = clock d" by (auto intro: format_file_name_inj simp: printable_time_def)
    moreover have "inj_on clock {..<?n}" by (rule clock_moves_facts(2) [OF assms])
    ultimately show "c = d" using c d by (auto dest: inj_onD)
  qed
  have "card {..<?n} \<le> card (insert [] (set (map fst (tree h))))"
    by (rule card_inj_on_le [OF inj]) (use known in auto)
  moreover have "card (set (map fst (tree h))) \<le> length (tree h)"
    using card_length [of "map fst (tree h)"] by simp
  moreover have "card (insert [] (set (map fst (tree h)))) \<le> Suc (card (set (map fst (tree h))))"
    by (simp add: card_insert_if)
  ultimately show False by simp
qed

lemma free_log_file_free:
  assumes "free_log_file clock k dir h = Some p"
  shows "\<not> path_exists h p"
proof (rule free_log_file.raw_induct [OF _ assms, where P = "\<lambda>c k d h p. \<not> path_exists h p"])
qed (auto split: if_splits)

lemma free_log_file_is_log_file:
  assumes "free_log_file clock k dir h = Some p"
  shows "\<exists>t. p = log_file dir t"
proof (rule free_log_file.raw_induct [OF _ assms, where P = "\<lambda>c k d h p. \<exists>t. p = log_file d t"])
qed (auto split: if_splits)

text \<open>Reading an entry file, the body of the loop of the index.\<close>

definition log_of_file :: "nat \<Rightarrow> host \<Rightarrow> ppath \<Rightarrow> command_log result" where
  "log_of_file deep h file =
     bindr (read_file h file) (\<lambda>d. bindr (json_load deep d) from_json)"

lemma read_log_files_fold:
  "list_all (\<lambda>f. \<not> is_dir h f) files \<Longrightarrow>
   foldm (\<lambda>log_l file.
       if is_dir h file
       then bindr (read_log n deep h dir file) (\<lambda>logs. Inr (log_l @ logs))
       else
         bindr (read_file h file) (\<lambda>d.
         bindr (json_load deep d) (\<lambda>js.
         bindr (from_json js) (\<lambda>log. Inr (log_l @ [log]))))) acc files =
   bindr (map_result (log_of_file deep h) files) (\<lambda>logs. Inr (acc @ logs))"
  by (induction files arbitrary: acc) (simp_all add: log_of_file_def bindr_assoc)

text \<open>Where a new entry is, and that it joins the entries of its directory.\<close>

lemma log_file_place:
  assumes "locate h (log_file dir t) = Inr l"
  obtains c where "locate h dir = Inr c" and "l = c @ [format_file_name t]"
proof -
  let ?n = "format_file_name t"
  have n: "?n \<noteq> dotdot" using file_name_plain [of t] by (auto simp: dotdot_def is_digit_def)
  have base: "base_of h (log_file dir t) = base_of h dir"
    by (cases dir) (simp add: log_file_parts base_of_def is_absolute_def)
  from assms have walk: "walk h (base_of h dir) (pparts dir @ [?n]) = Inr l"
    unfolding locate_def base by (simp add: log_file_parts)
  then have "locate h dir = Inr (collapse (base_of h dir) (pparts dir))"
    using walk_parent_dir [OF walk] by (simp add: locate_def)
  moreover have "l = collapse (base_of h dir) (pparts dir) @ [?n]"
    using walk_collapse [OF walk] n by (simp add: collapse_append)
  ultimately show ?thesis by (rule that)
qed

lemma map_result_snoc:
  "map_result f (xs @ [x]) = bindr (map_result f xs) (\<lambda>ys. bindr (f x) (\<lambda>y. Inr (ys @ [y])))"
  by (induction xs) (simp_all add: bindr_assoc)

lemma map_result_mono:
  "map_result f xs = Inr ys \<Longrightarrow> (\<And>x y. x \<in> set xs \<Longrightarrow> f x = Inr y \<Longrightarrow> g x = Inr y) \<Longrightarrow> map_result g xs = Inr ys"
  by (induction xs arbitrary: ys) (auto elim!: bindrE)

lemma log_of_file_new:
  "node_at h l = None \<Longrightarrow> log_of_file deep h f = Inr y \<Longrightarrow>
    log_of_file deep (put_node l (FileNode d t) h) f = Inr y"
  by (auto simp: log_of_file_def new_file_read elim!: bindrE)

lemma read_log_stuck:
  assumes "f \<in> set (iterdir h dir)" and "is_dir h f"
    and "list_all (\<lambda>f. is_dir h f \<or> \<not> isl (log_of_file deep h f)) (iterdir h dir)"
  shows "read_log n deep h dir d = Inl RecursionError"
proof (induction n arbitrary: d)
  case (Suc n)
  let ?body = "\<lambda>log_l file.
       if is_dir h file
       then bindr (read_log n deep h dir file) (\<lambda>logs. Inr (log_l @ logs))
       else
         bindr (read_file h file) (\<lambda>d.
         bindr (json_load deep d) (\<lambda>js.
         bindr (from_json js) (\<lambda>log. Inr (log_l @ [log]))))"
  have "foldm ?body acc fs = Inl RecursionError"
    if "f \<in> set fs" "list_all (\<lambda>f. is_dir h f \<or> \<not> isl (log_of_file deep h f)) fs" for acc fs
    using that
  proof (induction fs arbitrary: acc)
    case (Cons g fs)
    show ?case
    proof (cases "is_dir h g")
      case True
      with Suc show ?thesis by simp
    next
      case False
      with Cons.prems assms(2) obtain log where log: "log_of_file deep h g = Inr log" and f: "f \<in> set fs"
        by (cases "log_of_file deep h g") auto
      have "?body acc g = Inr (acc @ [log])"
        using log False by (auto simp: log_of_file_def elim!: bindrE)
      with Cons.IH [OF f] Cons.prems(2) show ?thesis by simp
    qed
  qed simp
  with assms show ?case by simp
qed simp

lemma index_of_files:
  assumes "list_all (\<lambda>f. \<not> is_dir h f) (iterdir h dir)"
  shows "load_index (Suc n) deep h dir = map_result (log_of_file deep h) (iterdir h dir)"
proof -
  have "bindr m Inr = m" for m :: "command_log list result" by (cases m) simp_all
  then show ?thesis
    using read_log_files_fold [OF assms, of n deep dir "[]"] by (simp add: load_index_def)
qed

section \<open>Properties\<close>

text \<open>A log entry for the witnesses, and a codec that knows one value.\<close>

definition demo_time :: datetime where
  "demo_time = DateTime 2021 2 28 23 59 59 999999"

definition demo_log :: command_log where
  "demo_log = (new_command_log [''cincan/tshark'', ''-r'', ''a b.pcap''] demo_time)
     \<lparr>exit_code := 0,
      in_files := [new_file_log (PPath ''/'' [''w'', ''a'']) ''ab12'' (Some demo_time)],
      out_files := [new_file_log (PPath ''/'' [''dev'', ''stdout'']) ''cd34'' None]\<rparr>"

text \<open>
  The text that is written for an entry is read back as the entry, less what the text
  does not carry or the reader does not take: the streams are empty and the exit code is 0,
  although the exit code is in the file.
\<close>

theorem log_entry_round_trip:
  assumes "wf_command_log log" and "storable (JInt (exit_code log))" and "3 \<le> deep"
  shows "bindr (json_load deep (json_dump (to_json log))) from_json =
    Inr (log\<lparr>exit_code := 0, log_stdin := [], log_stdout := [], log_stderr := []\<rparr>)"
  using entry_text_read [OF assms] by (simp add: as_read_def)

lemma wf_demo_log: "wf_command_log demo_log"
  by (simp add: demo_log_def demo_time_def wf_command_log_def wf_file_log_def printable_time_def
      valid_datetime_def days_in_month_def wf_path_def wf_part_def slash_def new_file_log_def
      new_command_log_def)

theorem log_entry_round_trip_witness:
  "bindr (json_load 3 (json_dump (to_json (demo_log\<lparr>exit_code := -7\<rparr>)))) from_json =
    Inr (demo_log\<lparr>exit_code := 0, log_stdin := [], log_stdout := [], log_stderr := []\<rparr>)"
proof -
  have "wf_command_log (demo_log\<lparr>exit_code := -7\<rparr>)" using wf_demo_log by (simp add: wf_command_log_def)
  moreover have "storable (JInt (-7))" by code_simp
  then have "storable (JInt (exit_code (demo_log\<lparr>exit_code := -7\<rparr>)))" by simp
  ultimately show ?thesis using log_entry_round_trip [of "demo_log\<lparr>exit_code := -7\<rparr>" 3] by simp
qed

text \<open>
  As long as the clock moves on, the writer finds a file name that is not taken, after at
  most one try more than there are nodes in the file system.
\<close>

theorem log_writer_finds_free_name:
  assumes "clock_moves clock (length (tree h) + 2)"
  shows "\<exists>k < length (tree h) + 2. free_log_file clock 0 dir h = Some (log_file dir (clock k)) \<and>
    \<not> path_exists h (log_file dir (clock k))"
proof -
  obtain d where "d < length (tree h) + 2" "\<not> path_exists h (log_file dir (clock d))"
    using some_name_free [OF assms] by blast
  with free_log_file_found [of h dir clock 0 d] show ?thesis
    by (metis add_0 le_less_trans)
qed

theorem log_writer_finds_free_name_witness:
  "\<exists>k < length (tree \<lparr>cwd = [], tree = [([''w''], DirNode 0)]\<rparr>) + 2.
    free_log_file (\<lambda>k. DateTime 2021 1 1 0 0 0 k) 0 (PPath ''/'' [''w'']) \<lparr>cwd = [], tree = [([''w''], DirNode 0)]\<rparr> =
      Some (log_file (PPath ''/'' [''w'']) (DateTime 2021 1 1 0 0 0 k)) \<and>
    \<not> path_exists \<lparr>cwd = [], tree = [([''w''], DirNode 0)]\<rparr>
        (log_file (PPath ''/'' [''w'']) (DateTime 2021 1 1 0 0 0 k))"
  by (rule log_writer_finds_free_name)
    (simp add: clock_moves_def printable_time_def valid_datetime_def days_in_month_def numeral_3_eq_3)

lemma write_log_adds:
  assumes "write_log clock now dir log h = Some (Inr h')"
  shows "\<exists>l p. free_log_file clock 0 dir h = Some p \<and> locate h p = Inr l \<and> node_at h l = None \<and>
    h' = put_node l (FileNode (json_dump (to_json log)) now) h \<and>
    node_at h' = (node_at h)(l \<mapsto> FileNode (json_dump (to_json log)) now)"
proof -
  from assms obtain p where p: "free_log_file clock 0 dir h = Some p"
    and w: "write_file now p (json_dump (to_json log)) h = Inr h'"
    by (auto simp: write_log_def)
  from w obtain l where l: "locate h p = Inr l" "\<not> dir_at h l"
    "h' = put_node l (FileNode (json_dump (to_json log)) now) h" by (rule write_file_Inr)
  have "\<not> path_exists h p" by (rule free_log_file_free [OF p])
  with l(1) have "node_at h l = None" by (simp add: path_exists_def find_node_def)
  moreover from this have "l \<noteq> []" by auto
  ultimately show ?thesis
    using p l by (auto simp: fun_eq_iff node_at_put_same node_at_put_other)
qed

lemma write_log_only_adds:
  assumes "write_log clock now dir log h = Some (Inr h')"
  shows "only_adds (\<lambda>n. n = FileNode (json_dump (to_json log)) now) h h'"
proof -
  from write_log_adds [OF assms] obtain l where "node_at h l = None"
    and "h' = put_node l (FileNode (json_dump (to_json log)) now) h"
    and "node_at h' = (node_at h)(l \<mapsto> FileNode (json_dump (to_json log)) now)" by blast
  then show ?thesis by (simp add: only_adds_def)
qed

text \<open>
  Writing an entry adds one file, which holds the text of its JSON form, and changes no
  other node of the file system: no earlier entry is ever overwritten.
\<close>

theorem log_writer_adds_one_file:
  assumes "write_log clock now dir log h = Some (Inr h')"
  shows "\<exists>l p. free_log_file clock 0 dir h = Some p \<and> locate h p = Inr l \<and> node_at h l = None \<and>
    h' = put_node l (FileNode (json_dump (to_json log)) now) h \<and>
    node_at h' = (node_at h)(l \<mapsto> FileNode (json_dump (to_json log)) now)"
  using assms by (rule write_log_adds)

abbreviation empty_host :: host where
  "empty_host \<equiv> \<lparr>cwd = [], tree = []\<rparr>"

text \<open>When the first name is free, the entry is written there.\<close>

lemma write_log_free:
  assumes "locate h (log_file dir (clock 0)) = Inr l" and "node_at h l = None"
  shows "write_log clock now dir log h = Some (Inr (put_node l (FileNode (json_dump (to_json log)) now) h))"
proof -
  from assms have "\<not> path_exists h (log_file dir (clock 0))" by (simp add: path_exists_def find_node_def)
  then have "free_log_file clock 0 dir h = Some (log_file dir (clock 0))" by (subst free_log_file_next) simp
  with assms show ?thesis by (simp add: write_log_def write_file_def)
qed

lemma demo_written:
  obtains h' where "write_log (\<lambda>k. demo_time) 0 (PPath ''/'' []) demo_log empty_host = Some (Inr h')"
proof -
  let ?p = "log_file (PPath ''/'' []) demo_time"
  have "format_file_name demo_time \<noteq> dotdot"
    using wf_file_name [of demo_time] file_name_plain [of demo_time] by (auto simp: dotdot_def is_digit_def)
  then have at: "locate empty_host ?p = Inr [format_file_name demo_time]"
    by (simp add: log_file_parts locate_def base_of_def is_absolute_def)
  moreover have "node_at empty_host [format_file_name demo_time] = None"
    by (simp add: node_at_def entry_at_def)
  ultimately show ?thesis using write_log_free [where clock = "\<lambda>k. demo_time"] that by blast
qed

theorem log_writer_adds_one_file_witness:
  "\<exists>h'. write_log (\<lambda>k. demo_time) 0 (PPath ''/'' []) demo_log empty_host = Some (Inr h') \<and>
    (\<exists>l p. free_log_file (\<lambda>k. demo_time) 0 (PPath ''/'' []) empty_host = Some p \<and>
      locate empty_host p = Inr l \<and> node_at empty_host l = None \<and>
      h' = put_node l (FileNode (json_dump (to_json demo_log)) 0) empty_host \<and>
      node_at h' = (node_at empty_host)(l \<mapsto> FileNode (json_dump (to_json demo_log)) 0))"
proof -
  obtain h' where "write_log (\<lambda>k. demo_time) 0 (PPath ''/'' []) demo_log empty_host = Some (Inr h')"
    by (rule demo_written)
  from this log_writer_adds_one_file [OF this] show ?thesis by blast
qed

text \<open>
  Reading the log never ends well once the log directory holds a sub-directory: the recursive
  call lists the log directory again instead of the sub-directory, down to the end of the stack,
  however deep the stack is.
\<close>

theorem log_index_overflows:
  assumes "f \<in> set (iterdir h dir)" and "is_dir h f"
    and "list_all (\<lambda>f. is_dir h f \<or> \<not> isl (log_of_file deep h f)) (iterdir h dir)"
  shows "load_index n deep h dir = Inl RecursionError"
  unfolding load_index_def Let_def using assms by (rule read_log_stuck)

theorem log_index_overflows_witness:
  "load_index 900 3 \<lparr>cwd = [], tree = [([''l''], DirNode 0), ([''l'', ''s''], DirNode 0)]\<rparr>
     (PPath ''/'' [''l'']) = Inl RecursionError"
  by (rule log_index_overflows [where f = "PPath ''/'' [''l'', ''s'']"]; code_simp)

text \<open>
  Without a sub-directory the index is the list of the entries of all files of the log
  directory, in the order in which the directory lists them, and the parent directory that is
  passed for the logs of all users plays no part.
\<close>

theorem log_index_lists_directory:
  assumes "list_all (\<lambda>f. \<not> is_dir h f) (iterdir h dir)"
  shows "load_index (Suc n) deep h dir = map_result (log_of_file deep h) (iterdir h dir)"
  using assms by (rule index_of_files)

definition demo_log_host :: host where
  "demo_log_host =
     \<lparr>cwd = [], tree = [([''l''], DirNode 0), ([''l'', ''f''], FileNode (json_dump (to_json demo_log)) 0)]\<rparr>"

lemma demo_log_dir: "list_all (\<lambda>f. \<not> is_dir demo_log_host f) (iterdir demo_log_host (PPath ''/'' [''l'']))"
  by (simp add: demo_log_host_def iterdir_def is_dir_def find_node_def locate_def base_of_def is_absolute_def
      dir_at_def node_at_def entry_at_def children_def dotdot_def)

theorem log_index_lists_directory_witness:
  "load_index (Suc 0) 3 demo_log_host (PPath ''/'' [''l'']) =
    map_result (log_of_file 3 demo_log_host) (iterdir demo_log_host (PPath ''/'' [''l'']))"
  using demo_log_dir by (rule log_index_lists_directory)

lemma write_log_indexed:
  assumes "write_log clock now dir log h = Some (Inr h')"
    and "wf_command_log log" and "storable (JInt (exit_code log))" and "3 \<le> deep"
    and "list_all (\<lambda>f. \<not> is_dir h f) (iterdir h dir)" and "load_index (Suc n) deep h dir = Inr logs"
  shows "load_index (Suc n) deep h' dir = Inr (logs @ [as_read log])"
proof -
  from write_log_adds [OF assms(1)] obtain l p where p: "free_log_file clock 0 dir h = Some p" "locate h p = Inr l"
    and new: "node_at h l = None" and h': "h' = put_node l (FileNode (json_dump (to_json log)) now) h" by blast
  obtain t where t: "p = log_file dir t" using free_log_file_is_log_file [OF p(1)] by blast
  from p(2) obtain c where c: "locate h dir = Inr c" "l = c @ [format_file_name t]"
    unfolding t by (rule log_file_place)
  have c': "locate h' dir = Inr c" using c new by (simp add: h' new_file_locate)
  have iter: "iterdir h' dir = iterdir h dir @ [p]"
    using new c c' by (simp add: iterdir_def h' new_file_children t log_file_parts)
  have "\<not> is_dir h p" using p(2) new by (simp add: is_dir_def find_node_def)
  then have "list_all (\<lambda>f. \<not> is_dir h' f) (iterdir h dir @ [p])"
    using assms(5) new by (simp add: h' new_file_is_dir)
  then have nodirs: "list_all (\<lambda>f. \<not> is_dir h' f) (iterdir h' dir)" by (simp only: iter)
  have "map_result (log_of_file deep h) (iterdir h dir) = Inr logs"
    using assms(5,6) by (simp add: index_of_files)
  then have "map_result (log_of_file deep h') (iterdir h dir) = Inr logs"
    by (rule map_result_mono) (simp add: h' log_of_file_new [OF new])
  moreover have "log_of_file deep h' p = Inr (as_read log)"
  proof -
    have "locate h' p = Inr l" using p(2) new by (simp add: h' new_file_locate)
    moreover have "node_at h' l = Some (FileNode (json_dump (to_json log)) now)"
      using c(2) by (simp add: h' node_at_put_same)
    ultimately have "read_file h' p = Inr (json_dump (to_json log))" by (simp add: read_file_def)
    with entry_text_read [OF assms(2-4)] show ?thesis by (simp add: log_of_file_def)
  qed
  ultimately show ?thesis
    unfolding index_of_files [OF nodirs] iter by (simp add: map_result_snoc)
qed

text \<open>
  C23: An entry that is written is in the index that is read afterwards, next to all the entries
  that were in it before: it lacks only the streams and the exit code.
\<close>

theorem written_entry_is_indexed:
  assumes "write_log clock now dir log h = Some (Inr h')"
    and "wf_command_log log" and "storable (JInt (exit_code log))" and "3 \<le> deep"
    and "list_all (\<lambda>f. \<not> is_dir h f) (iterdir h dir)" and "load_index (Suc n) deep h dir = Inr logs"
  shows "\<exists>logs'. load_index (Suc n) deep h' dir = Inr logs' \<and>
    (\<forall>e. count_list logs' e = count_list
      (log\<lparr>exit_code := 0, log_stdin := [], log_stdout := [], log_stderr := []\<rparr> # logs) e)"
  using write_log_indexed [OF assms] by (simp add: as_read_def)

theorem written_entry_is_indexed_witness:
  "\<exists>h' logs'. write_log (\<lambda>k. demo_time) 0 (PPath ''/'' []) demo_log empty_host = Some (Inr h') \<and>
    load_index (Suc 0) 3 h' (PPath ''/'' []) = Inr logs' \<and>
    (\<forall>e. count_list logs' e = count_list
      (demo_log\<lparr>exit_code := 0, log_stdin := [], log_stdout := [], log_stderr := []\<rparr> # []) e)"
proof -
  obtain h' where w: "write_log (\<lambda>k. demo_time) 0 (PPath ''/'' []) demo_log empty_host = Some (Inr h')"
    by (rule demo_written)
  have "storable (JInt 0)" by code_simp
  then have e: "storable (JInt (exit_code demo_log))" by (simp add: demo_log_def)
  have d: "list_all (\<lambda>f. \<not> is_dir empty_host f) (iterdir empty_host (PPath ''/'' []))" by code_simp
  have i: "load_index (Suc 0) 3 empty_host (PPath ''/'' []) = Inr []" by code_simp
  from w written_entry_is_indexed [OF w wf_demo_log e le_refl d i] show ?thesis by blast
qed

text \<open>
  The list of entries has every entry as often as the index, ordered by time in either
  direction, and entries of the same time keep the order of the index in both.
\<close>

theorem log_entries_sorted_stably:
  "(\<forall>e. count_list (list_entries reverse logs) e = count_list logs e) \<and>
   (if reverse then sorted (rev (map log_time (list_entries reverse logs)))
    else sorted (map log_time (list_entries reverse logs))) \<and>
   filter (\<lambda>e. log_time e = t) (list_entries reverse logs) = filter (\<lambda>e. log_time e = t) logs"
proof -
  have count: "count_list (sort_key log_time xs) e = count_list xs e" for xs e
  proof (induction xs)
    case (Cons x xs)
    have "count_list (insort_key log_time y ys) e = count_list (y # ys) e" for y ys
      by (induction ys) auto
    with Cons show ?case by simp
  qed simp
  show ?thesis
    by (simp add: list_entries_def count sort_key_stable rev_filter [symmetric] rev_map)
qed

text \<open>
  On a machine without the directory \<^verbatim>\<open>~/.cincan\<close> the log cannot be opened: the file with the
  user's id is written before any directory is made.
\<close>

theorem log_needs_dot_directory:
  assumes "locate h (join_path home (parse_path ''.cincan'')) = Inr l" and "node_at h l = None"
  shows "open_log now home uuid log_directory h = (Inl FileNotFoundError, h)"
proof -
  have paths: "parse_path ''.cincan'' = PPath '''' [''.cincan'']"
    "parse_path ''.cincan/uid.txt'' = PPath '''' [''.cincan'', ''uid.txt'']" by code_simp+
  from assms(1) have "walk h (base_of h home) (pparts home @ [''.cincan'']) = Inr l"
    by (cases home) (simp add: locate_def join_path_def paths base_of_def is_absolute_def)
  then have "walk h (base_of h home) ((pparts home @ [''.cincan'']) @ [''uid.txt'']) = Inl FileNotFoundError"
    using assms(2) unfolding walk_append [of h _ "pparts home @ [''.cincan'']"] by (simp add: dir_at_def)
  then have at: "locate h (uid_file home) = Inl FileNotFoundError"
    by (cases home) (simp add: locate_def uid_file_def join_path_def paths base_of_def is_absolute_def)
  then have "\<not> is_file h (uid_file home)" by (simp add: is_file_def find_node_def)
  with at show ?thesis by (simp add: open_log_def user_id_def write_file_def and_then_def attempt_def)
qed

theorem log_needs_dot_directory_witness:
  "open_log 0 (PPath ''/'' [''home'']) ''id'' None \<lparr>cwd = [], tree = [([''home''], DirNode 0)]\<rparr> =
    (Inl FileNotFoundError, \<lparr>cwd = [], tree = [([''home''], DirNode 0)]\<rparr>)"
  by (rule log_needs_dot_directory [where l = "[''home'', ''.cincan'']"]; code_simp)

end
