(* ===== verification/Configuration.thy ===== *)
theory Configuration
  imports Command_Log
begin

text \<open>
  \<^verbatim>\<open>cincan/configuration.py\<close>: the settings read from \<^verbatim>\<open>~/.cincan/config.json\<close>, with their defaults.
  \<open>deep\<close> bounds the scanner of JSON text.  A tag that is not a string, or a shell that is not,
  is an error here; Python goes on with the value and fails where it is used.
\<close>

record configuration =
  settings :: "(string, json) dict"
  show_updates :: bool
  default_stable_tag :: string
  default_dev_tag :: string
  default_shells :: "string list option"

text \<open>
  Whether Python takes a value for true in a condition.  A floating-point number is false when its
  digits are all 0; one so small that Python rounds it to 0 counts as true here.
\<close>

definition truthy :: "json \<Rightarrow> bool" where
  "truthy j =
     (case j of
        JNull \<Rightarrow> False
      | JBool b \<Rightarrow> b
      | JInt k \<Rightarrow> k \<noteq> 0
      | JFloat s \<Rightarrow>
          list_ex (\<lambda>c. c \<notin> {CHR ''0'', CHR ''.'', CHR ''-''}) (takeWhile (\<lambda>c. c \<notin> {CHR ''e'', CHR ''E''}) s)
      | JString s \<Rightarrow> s \<noteq> []
      | JList js \<Rightarrow> js \<noteq> []
      | JObject d \<Rightarrow> d \<noteq> [])"

text \<open>\<open>None\<close> stands for a setting \<^verbatim>\<open>shells\<close> that is not a list.\<close>

definition shells_of :: "json \<Rightarrow> string list option result" where
  "shells_of j =
     (case j of JList js \<Rightarrow> bindr (map_result text_of js) (\<lambda>ss. Inr (Some ss)) | _ \<Rightarrow> Inr None)"

definition read_settings :: "nat \<Rightarrow> host \<Rightarrow> ppath \<Rightarrow> (string, json) dict result" where
  "read_settings deep h file =
     (if is_file h file
      then bindr (read_file h file) (\<lambda>d. bindr (json_load deep d) (\<lambda>j.
             case j of JObject vals \<Rightarrow> Inr vals | _ \<Rightarrow> Inl AttributeError))
      else Inr [])"

definition configure :: "(string, json) dict \<Rightarrow> configuration result" where
  "configure vals =
     bindr (text_of (get_or vals ''stable_tag'' (JString ''latest''))) (\<lambda>stable.
     bindr (text_of (get_or vals ''dev_tag'' (JString ''dev''))) (\<lambda>dev.
     bindr (shells_of (get_or vals ''shells'' (JList [JString ''/bin/bash'', JString ''/bin/sh'']))) (\<lambda>shells.
     Inr \<lparr>settings = vals, show_updates = truthy (get_or vals ''show_updates'' (JBool True)),
          default_stable_tag = stable, default_dev_tag = dev, default_shells = shells\<rparr>)))"

definition load_configuration ::
  "nat \<Rightarrow> host \<Rightarrow> ppath \<Rightarrow> configuration result" where
  "load_configuration deep h file = bindr (read_settings deep h file) configure"

definition is_command_log :: "configuration \<Rightarrow> bool" where
  "is_command_log conf = truthy (get_or (settings conf) ''command_log'' (JBool False))"

section \<open>Lemmas\<close>

lemma map_result_strings [simp]: "map_result text_of (map JString ss) = Inr ss"
  by (induction ss) (simp_all add: text_of_def)

definition default_configuration :: configuration where
  "default_configuration =
     \<lparr>settings = [], show_updates = True, default_stable_tag = ''latest'', default_dev_tag = ''dev'',
      default_shells = Some [''/bin/bash'', ''/bin/sh'']\<rparr>"

lemma configure_nothing: "configure [] = Inr default_configuration"
  by (simp add: configure_def get_or_def text_of_def shells_of_def truthy_def default_configuration_def)

lemma no_file: "\<not> is_file h file \<Longrightarrow> load_configuration deep h file = Inr default_configuration"
  by (simp add: load_configuration_def read_settings_def configure_nothing)

text \<open>A setting that is there replaces its default and no other.\<close>

lemma configured:
  assumes "configure vals = Inr conf"
  shows "dict_get vals ''stable_tag'' = Some (JString s) \<Longrightarrow> default_stable_tag conf = s"
    and "dict_get vals ''stable_tag'' = None \<Longrightarrow> default_stable_tag conf = ''latest''"
    and "dict_get vals ''dev_tag'' = None \<Longrightarrow> default_dev_tag conf = ''dev''"
    and "dict_get vals ''shells'' = None \<Longrightarrow> default_shells conf = Some [''/bin/bash'', ''/bin/sh'']"
    and "dict_get vals ''shells'' = Some (JList (map JString ss)) \<Longrightarrow> default_shells conf = Some ss"
    and "is_command_log conf \<Longrightarrow> \<exists>j. dict_get vals ''command_log'' = Some j \<and> truthy j"
  using assms
  by (auto simp: configure_def bindr_eq_Inr get_or_def text_of_def shells_of_def is_command_log_def
      truthy_def split: option.splits)

end
