(* ===== verification/Pull_Progress.thy ===== *)
theory Pull_Progress
  imports Py_Prelude "HOL-Library.Sublist"
begin

text \<open>
  The progress display of an image pull: \<^verbatim>\<open>__pull_image_with_progress\<close> of
  \<^verbatim>\<open>cincan/image_fetcher.py\<close>, with the escape sequences of \<^verbatim>\<open>NavigateCursor\<close>
  (\<^verbatim>\<open>cincan/utils.py\<close>).  The statuses come from the Docker service; a missing field of a status
  is an empty string, as \<^verbatim>\<open>status.get(field, "")\<close> makes it.
\<close>

section \<open>The cursor\<close>

text \<open>The text that a method of \<^verbatim>\<open>NavigateCursor\<close> writes; \<open>shown\<close> is \<open>n\<close> in decimal.\<close>

datatype cursor_move = Hide | Visible | GoUp string | GoDown string | GoRight string | GoLeft string | ClearLine

definition escape :: "string \<Rightarrow> string" where
  "escape s = CHR 0x1B # CHR ''['' # s"

primrec cursor_text :: "cursor_move \<Rightarrow> string" where
  "cursor_text Hide = escape ''?25l''"
| "cursor_text Visible = escape ''?25h''"
| "cursor_text (GoUp n) = escape (n @ ''A'')"
| "cursor_text (GoDown n) = escape (n @ ''B'')"
| "cursor_text (GoRight n) = escape (n @ ''C'')"
| "cursor_text (GoLeft n) = escape (n @ ''D'')"
| "cursor_text ClearLine = escape ''2K''"

section \<open>Rows\<close>

record status =
  s_id :: string
  s_status :: string
  s_progress :: string

text \<open>\<^verbatim>\<open>f'{s:<n}'\<close>\<close>

definition pad :: "nat \<Rightarrow> string \<Rightarrow> string" where
  "pad n s = s @ replicate (n - length s) CHR '' ''"

definition row_line :: "status \<Rightarrow> string" where
  "row_line data =
     (let layer_id = s_id data;
          layer_id_padded = (if layer_id \<noteq> '''' then pad 12 layer_id @ '': '' else layer_id)
      in layer_id_padded @ pad 20 (s_status data) @ '' '' @ s_progress data)"

definition log_row :: "string \<Rightarrow> nat \<Rightarrow> status \<Rightarrow> string" where
  "log_row repository t_width data =
     (let line = row_line data; whole = length (repository @ '': '' @ line)
      in if whole > t_width then take (length line - (whole - t_width)) line else line)"

section \<open>The display\<close>

text \<open>A row written at the cursor, which goes to the next row, or the cursor moved up.\<close>

datatype event = Row string | Up nat

record bar =
  first_time :: bool
  loc :: nat
  cur_loc :: nat
  locations :: "(string, status \<times> nat) dict"

definition new_bar :: bar where
  "new_bar = \<lparr>first_time = True, loc = 0, cur_loc = 0, locations = []\<rparr>"

text \<open>
  The body of the loop.  A location that is there is never empty, so \<^verbatim>\<open>not locations.get(s_id)\<close>
  asks whether the layer is new.
\<close>

definition known_layer :: "(status \<Rightarrow> string) \<Rightarrow> status \<Rightarrow> nat \<Rightarrow> bar \<Rightarrow> bar \<times> event list" where
  "known_layer row st l b =
     (let (b1, e1) = (if first_time b then (b\<lparr>cur_loc := 0\<rparr>, [Up (cur_loc b)]) else (b, []));
          locs = dict_put (s_id st) (st, l) (locations b1);
          rows = map (\<lambda>x. row (fst (snd x))) (sort_key (\<lambda>x. snd (snd x)) locs)
      in (b1\<lparr>first_time := False, locations := locs, cur_loc := cur_loc b1 + length rows\<rparr>,
          e1 @ map Row rows))"

definition new_layer :: "(status \<Rightarrow> string) \<Rightarrow> status \<Rightarrow> bar \<Rightarrow> bar \<times> event list" where
  "new_layer row st b =
     (b\<lparr>loc := loc b + 1, locations := dict_put (s_id st) (st, loc b + 1) (locations b),
        cur_loc := cur_loc b + 1, first_time := True\<rparr>, [Row (row st)])"

definition show_status :: "(status \<Rightarrow> string) \<Rightarrow> status \<Rightarrow> bar \<Rightarrow> bar \<times> event list" where
  "show_status row st b =
     (if s_id st = '''' then (b, [Row (row st)])
      else
        let (b1, e1) = (if \<not> first_time b then (b\<lparr>cur_loc := 0\<rparr>, [Up (cur_loc b)]) else (b, []));
            (b2, e2) = (case dict_get (locations b1) (s_id st) of
                          None \<Rightarrow> new_layer row st b1
                        | Some (old, l) \<Rightarrow> known_layer row st l b1)
        in (b2, e1 @ e2))"

fun show_all :: "(status \<Rightarrow> string) \<Rightarrow> bar \<Rightarrow> status list \<Rightarrow> bar \<times> event list" where
  "show_all row b [] = (b, [])"
| "show_all row b (st # sts) =
     (case show_status row st b of (b1, e1) \<Rightarrow>
      case show_all row b1 sts of (b2, e2) \<Rightarrow> (b2, e1 @ e2))"

definition pull_events :: "string \<Rightarrow> nat \<Rightarrow> status list \<Rightarrow> event list" where
  "pull_events repository t_width sts = snd (show_all (log_row repository t_width) new_bar sts)"

section \<open>What should be on the screen\<close>

text \<open>The layers in the order of their first status, and the latest status of each.\<close>

definition layers :: "status list \<Rightarrow> string list" where
  "layers sts = rev (remdups (rev (map s_id sts)))"

definition latest :: "status list \<Rightarrow> string \<Rightarrow> status" where
  "latest sts i = last (filter (\<lambda>st. s_id st = i) sts)"

text \<open>Where the cursor is after the events, in rows below the first.\<close>

fun cursor :: "event list \<Rightarrow> int" where
  "cursor [] = 0"
| "cursor (Row r # es) = 1 + cursor es"
| "cursor (Up n # es) = cursor es - int n"

definition position :: "string list \<Rightarrow> string \<Rightarrow> nat" where
  "position ids i = Suc (length (takeWhile (\<lambda>j. j \<noteq> i) ids))"

lemma cursor_append [simp]: "cursor (es @ fs) = cursor es + cursor fs"
  by (induction es rule: cursor.induct) auto

lemma cursor_rows [simp]: "cursor (map Row rs) = int (length rs)"
  by (induction rs) auto

lemma show_all_append:
  "show_all row b (xs @ ys) =
     (case show_all row b xs of (b1, e1) \<Rightarrow> case show_all row b1 ys of (b2, e2) \<Rightarrow> (b2, e1 @ e2))"
  by (induction xs arbitrary: b) (auto split: prod.splits)

lemma layers_snoc:
  "layers (sts @ [st]) = (if s_id st \<in> set (layers sts) then layers sts else layers sts @ [s_id st])"
  by (simp add: layers_def)

lemma layers_distinct [simp]: "distinct (layers sts)" and layers_Nil [simp]: "layers [] = []"
  and set_layers: "set (layers sts) = s_id ` set sts"
  by (simp_all add: layers_def)

lemma latest_snoc: "latest (sts @ [st]) i = (if i = s_id st then st else latest sts i)"
  by (simp add: latest_def)

lemma position_snoc:
  "position (ids @ [i]) j = (if j \<in> set ids then position ids j
                             else if j = i then Suc (length ids) else Suc (Suc (length ids)))"
  by (induction ids) (auto simp: position_def)

lemma positions: "distinct ids \<Longrightarrow> map (position ids) ids = [1..<Suc (length ids)]"
proof (induction ids rule: rev_induct)
  case Nil
  then show ?case by simp
next
  case (snoc i ids)
  have "map (position (ids @ [i])) ids = map (position ids) ids"
    by (auto simp: position_snoc)
  moreover from snoc have "map (position ids) ids = [1..<Suc (length ids)]" by simp
  ultimately have "map (position (ids @ [i])) ids = [1..<Suc (length ids)]" by simp
  moreover have "[1..<Suc (length (ids @ [i]))] = [1..<Suc (length ids)] @ [Suc (length ids)]" by simp
  moreover from snoc have "position (ids @ [i]) i = Suc (length ids)" by (simp add: position_snoc)
  ultimately show ?case by (simp only: map_append list.map)
qed

lemma update_listed:
  "distinct ids \<Longrightarrow> i \<in> set ids \<Longrightarrow>
     AList.update i v (map (\<lambda>j. (j, g j)) ids) = map (\<lambda>j. (j, (g(i := v)) j)) ids"
  by (induction ids) (auto intro!: map_cong)

lemma update_new:
  "i \<notin> set ids \<Longrightarrow> AList.update i v (map (\<lambda>j. (j, g j)) ids) = map (\<lambda>j. (j, g j)) ids @ [(i, v)]"
  by (induction ids) auto

lemma get_listed: "map_of (map (\<lambda>j. (j, g j)) ids) i = (if i \<in> set ids then Some (g i) else None)"
  by (induction ids) auto

definition shown_locations :: "status list \<Rightarrow> (string, status \<times> nat) dict" where
  "shown_locations sts = map (\<lambda>i. (i, latest sts i, position (layers sts) i)) (layers sts)"

lemma shown_sorted: "sort_key (\<lambda>x. snd (snd x)) (shown_locations sts) = shown_locations sts"
proof -
  have "map (\<lambda>x. snd (snd x)) (shown_locations sts) = [1..<Suc (length (layers sts))]"
    using positions [OF layers_distinct, of sts] by (simp add: shown_locations_def comp_def)
  then have "sorted (map (\<lambda>x. snd (snd x)) (shown_locations sts))"
    by (simp only: sorted_upt)
  then show ?thesis by (rule sort_key_id_if_sorted)
qed

lemma shown_known:
  assumes "s_id st \<in> set (layers sts)"
  shows "dict_put (s_id st) (st, position (layers sts) (s_id st)) (shown_locations sts) =
    shown_locations (sts @ [st])"
  using assms
  by (simp add: shown_locations_def update_listed layers_snoc latest_snoc fun_upd_def if_distrib cong: map_cong if_cong)

lemma shown_new:
  assumes "s_id st \<notin> set (layers sts)"
  shows "dict_put (s_id st) (st, Suc (length (layers sts))) (shown_locations sts) =
    shown_locations (sts @ [st])"
  using assms
  by (auto simp: shown_locations_def update_new layers_snoc latest_snoc position_snoc intro!: map_cong)

lemma get_shown:
  "dict_get (shown_locations sts) i =
     (if i \<in> set (layers sts) then Some (latest sts i, position (layers sts) i) else None)"
  by (simp add: shown_locations_def get_listed)

section \<open>The display follows the pull\<close>

definition bar_inv :: "status list \<Rightarrow> bar \<Rightarrow> event list \<Rightarrow> bool" where
  "bar_inv sts b es \<longleftrightarrow>
     locations b = shown_locations sts \<and> loc b = length (layers sts) \<and>
     cursor es = int (cur_loc b) \<and> (if sts = [] then first_time b else 1 \<le> cur_loc b)"

definition redraw :: "(status \<Rightarrow> string) \<Rightarrow> status list \<Rightarrow> event list" where
  "redraw row sts = map (\<lambda>i. Row (row (latest sts i))) (layers sts)"

lemma cursor_redraw [simp]: "cursor (redraw row sts) = int (length (layers sts))"
  using cursor_rows [of "map (\<lambda>i. row (latest sts i)) (layers sts)"] by (simp add: redraw_def comp_def)

lemma bar_inv_new: "bar_inv [] new_bar []"
  by (simp add: bar_inv_def new_bar_def shown_locations_def)

lemma show_known:
  assumes inv: "bar_inv sts b es" and id: "s_id st \<noteq> ''''" and old: "s_id st \<in> set (layers sts)"
    and step: "show_status row st b = (b', e')"
  shows "bar_inv (sts @ [st]) b' (es @ e')" and "e' = Up (cur_loc b) # redraw row (sts @ [st])"
proof -
  let ?locs = "shown_locations (sts @ [st])"
  have rows: "map Row (map (\<lambda>x. row (fst (snd x))) ?locs) = redraw row (sts @ [st])"
    by (simp add: shown_locations_def redraw_def comp_def)
  have "length ?locs = length (layers sts)" using old by (simp add: shown_locations_def layers_snoc)
  moreover from old have "layers sts \<noteq> []" by auto
  ultimately show e: "e' = Up (cur_loc b) # redraw row (sts @ [st])"
    and "bar_inv (sts @ [st]) b' (es @ e')"
    using inv id old step rows
    by (auto simp: bar_inv_def show_status_def known_layer_def get_shown shown_known shown_sorted
        layers_snoc Suc_le_eq simp del: map_map split: if_splits)
qed

lemma show_new:
  assumes "bar_inv sts b es" and "s_id st \<noteq> ''''" and "s_id st \<notin> set (layers sts)"
    and "show_status row st b = (b', e')"
  shows "bar_inv (sts @ [st]) b' (es @ e')"
  using assms shown_new [OF assms(3)] shown_new [of st "[]"]
  by (auto simp: bar_inv_def show_status_def new_layer_def get_shown shown_new layers_snoc split: if_splits)

lemma show_all_inv:
  "list_all (\<lambda>st. s_id st \<noteq> '''') sts \<Longrightarrow> show_all row new_bar sts = (b, es) \<Longrightarrow> bar_inv sts b es"
proof (induction sts arbitrary: b es rule: rev_induct)
  case Nil
  then show ?case by (simp add: bar_inv_new)
next
  case (snoc st sts)
  obtain b1 e1 where first: "show_all row new_bar sts = (b1, e1)" by fastforce
  with snoc have inv: "bar_inv sts b1 e1" by simp
  obtain b2 e2 where step: "show_status row st b1 = (b2, e2)" by fastforce
  with first snoc.prems(2) have "b = b2" "es = e1 @ e2" by (simp_all add: show_all_append)
  with show_known(1) [OF inv _ _ step] show_new [OF inv _ _ step] snoc.prems(1) show ?case
    by (cases "s_id st \<in> set (layers sts)") auto
qed

text \<open>C34: While every status names its layer, a further status of a layer that is on the screen moves
  the cursor up to the first row and writes one row for every layer, in the order in which the
  layers came up, each with its latest status.\<close>

theorem progress_redraws_layers:
  assumes "list_all (\<lambda>st. s_id st \<noteq> '''') (sts @ [st])" and "s_id st \<in> s_id ` set sts"
  shows "\<exists>n. n \<ge> 1 \<and> cursor (pull_events repository t_width sts) = int n \<and>
    pull_events repository t_width (sts @ [st]) = pull_events repository t_width sts @
      Up n # redraw (log_row repository t_width) (sts @ [st])"
proof -
  let ?row = "log_row repository t_width"
  obtain b es where run: "show_all ?row new_bar sts = (b, es)" by fastforce
  obtain b' e' where step: "show_status ?row st b = (b', e')" by fastforce
  from run assms(1) have inv: "bar_inv sts b es" by (simp add: show_all_inv)
  from assms(2) have "sts \<noteq> []" and old: "s_id st \<in> set (layers sts)" by (auto simp: set_layers)
  with show_known(2) [OF inv _ old step] inv run step assms(1) show ?thesis
    by (auto simp: pull_events_def show_all_append bar_inv_def)
qed

definition demo_statuses :: "status list" where
  "demo_statuses =
     [\<lparr>s_id = ''a'', s_status = ''Pulling'', s_progress = ''''\<rparr>,
      \<lparr>s_id = ''b'', s_status = ''Pulling'', s_progress = ''''\<rparr>]"

theorem progress_redraws_layers_witness:
  "cursor (pull_events ''r'' 80 demo_statuses) = 2 \<and>
   (\<exists>n. n \<ge> 1 \<and> cursor (pull_events ''r'' 80 demo_statuses) = int n \<and>
    pull_events ''r'' 80 (demo_statuses @ [\<lparr>s_id = ''a'', s_status = ''Done'', s_progress = ''''\<rparr>]) =
      pull_events ''r'' 80 demo_statuses @ Up n # redraw (log_row ''r'' 80)
        (demo_statuses @ [\<lparr>s_id = ''a'', s_status = ''Done'', s_progress = ''''\<rparr>]))"
proof
  show "cursor (pull_events ''r'' 80 demo_statuses) = 2" by code_simp
qed (rule progress_redraws_layers, simp_all add: demo_statuses_def)



end
