(* ===== verification/Image_Fetcher.thy ===== *)
theory Image_Fetcher
  imports Py_Steps Configuration Pull_Progress
begin

text \<open>
  \<^verbatim>\<open>ImageFetcher\<close> of \<^verbatim>\<open>cincan/image_fetcher.py\<close>.  The Docker daemon is a parameter: a state \<open>'d\<close> that
  pulling changes, and the answers of the two clients the program has.  The messages to the user
  are not modelled, the progress display is.
\<close>

section \<open>The daemon\<close>

text \<open>
  \<open>images_pull\<close> is \<^verbatim>\<open>client.images.pull\<close>, \<open>stream_pull\<close> is \<^verbatim>\<open>low_level_client.pull\<close>: it raises when
  the pull is refused, and otherwise yields statuses until the stream ends.
\<close>

record ('d, 'i) image_api =
  images_get :: "string \<Rightarrow> 'd \<Rightarrow> 'i result"
  images_pull :: "string \<Rightarrow> string \<Rightarrow> ('d, unit) action"
  stream_pull :: "string \<Rightarrow> string \<Rightarrow> ('d, status list) action"

record 'd fetch_state =
  daemon :: 'd
  screen :: "event list"

definition on_daemon :: "('d, 'a) action \<Rightarrow> ('d fetch_state, 'a) action" where
  "on_daemon m st = (case m (daemon st) of (r, d) \<Rightarrow> (r, st\<lparr>daemon := d\<rparr>))"

definition get_local :: "('d, 'i) image_api \<Rightarrow> string \<Rightarrow> ('d fetch_state, 'i) action" where
  "get_local api name st = (images_get api name (daemon st), st)"

section \<open>Names\<close>

record fetcher =
  config :: configuration
  full_prefix :: string
  fancy :: bool
  term_width :: nat

definition cincan_tool :: "fetcher \<Rightarrow> string \<Rightarrow> bool" where
  "cincan_tool f img = startswith img (full_prefix f @ ''/'')"

definition name_tag :: "fetcher \<Rightarrow> string \<Rightarrow> string list" where
  "name_tag f img =
     (if CHR '':'' \<in> set img then rsplit_once (CHR '':'') img
      else if cincan_tool f img then [img, default_stable_tag (config f)]
      else [img, ''latest''])"

definition full_name :: "string \<Rightarrow> string \<Rightarrow> string" where
  "full_name name tag = joined '':'' [name, tag]"

section \<open>Pulling\<close>

text \<open>
  The progress bar needs the low-level client, a terminal on both sides, a logging level below
  \<^verbatim>\<open>WARNING\<close>, and no batch mode.
\<close>

definition WARNING :: nat where
  "WARNING = 30"

definition use_progress :: "bool \<Rightarrow> bool \<Rightarrow> bool \<Rightarrow> nat \<Rightarrow> bool \<Rightarrow> bool" where
  "use_progress low_level stdin_tty stdout_tty level batch \<longleftrightarrow>
     low_level \<and> stdin_tty \<and> stdout_tty \<and> level < WARNING \<and> \<not> batch"

definition new_fetcher ::
  "configuration \<Rightarrow> string \<Rightarrow> bool \<Rightarrow> bool \<Rightarrow> bool \<Rightarrow> nat \<Rightarrow> bool \<Rightarrow> nat \<Rightarrow> fetcher" where
  "new_fetcher conf registry low_level stdin_tty stdout_tty level batch width =
     \<lparr>config = conf, full_prefix = registry, fancy = use_progress low_level stdin_tty stdout_tty level batch,
      term_width = width\<rparr>"

definition pull_with_progress ::
  "('d, 'i) image_api \<Rightarrow> nat \<Rightarrow> string \<Rightarrow> string \<Rightarrow> ('d fetch_state, unit) action" where
  "pull_with_progress api t_width repository tag =
     and_then (on_daemon (stream_pull api repository tag)) (\<lambda>sts st.
       (Inr (), st\<lparr>screen := screen st @ pull_events repository t_width sts\<rparr>))"

definition pull_image ::
  "('d, 'i) image_api \<Rightarrow> fetcher \<Rightarrow> string \<Rightarrow> string \<Rightarrow> ('d fetch_state, unit) action" where
  "pull_image api f repository tag =
     handle (if fancy f then pull_with_progress api (term_width f) repository tag
             else on_daemon (images_pull api repository tag))
       (\<lambda>e. if e = KeyboardInterrupt then raise (Exits 0) else raise e)"

section \<open>Getting an img\<close>

text \<open>
  What the branch \<^verbatim>\<open>if pull\<close> ends with: an img that is returned at once, or the tag to go on with.
\<close>

datatype 'i pulled = Found 'i | GoOn string

definition development_image ::
  "('d, 'i) image_api \<Rightarrow> fetcher \<Rightarrow> string \<Rightarrow> ('d fetch_state, 'i pulled) action" where
  "development_image api f name =
     (let dev = default_dev_tag (config f) in
      handle (and_then (get_local api (full_name name dev)) (\<lambda>i. give (Found i)))
        (\<lambda>e. if e = DockerImageNotFound
             then handle (and_then (on_daemon (images_pull api name dev)) (\<lambda>_. give (GoOn dev)))
                    (\<lambda>e. if e \<in> {DockerNotFound, DockerImageNotFound} then raise (Exits 1) else raise e)
             else raise e))"

definition pull_first ::
  "('d, 'i) image_api \<Rightarrow> fetcher \<Rightarrow> string \<Rightarrow> string \<Rightarrow> string \<Rightarrow> ('d fetch_state, 'i pulled) action" where
  "pull_first api f img name tag =
     handle (and_then (pull_image api f name tag) (\<lambda>_. give (GoOn tag)))
       (\<lambda>e. if e = DockerImageNotFound then raise (Exits 1)
            else if e = DockerNotFound then
              if tag \<noteq> default_stable_tag (config f) \<or> \<not> cincan_tool f img then raise (Exits 1)
              else development_image api f name
            else if e = DockerAPIError then raise (Exits 1)
            else raise e)"

text \<open>
  \<^verbatim>\<open>get_image\<close> calls itself when the img is not there; \<open>n\<close> is how much deeper the stack lets it.
\<close>

primrec get_image ::
  "nat \<Rightarrow> ('d, 'i) image_api \<Rightarrow> fetcher \<Rightarrow> string \<Rightarrow> bool \<Rightarrow> ('d fetch_state, 'i) action" where
  "get_image 0 api f img = (\<lambda>pull. raise RecursionError)"
| "get_image (Suc n) api f img = (\<lambda>pull.
     let nt = name_tag f img; name = nt ! 0; initial_tag = nt ! 1 in
     and_then (if pull then pull_first api f img name initial_tag else give (GoOn initial_tag)) (\<lambda>p.
       case p of
         Found i \<Rightarrow> give i
       | GoOn tag \<Rightarrow>
           handle (get_local api (full_name name tag))
             (\<lambda>e. if e = DockerImageNotFound then get_image n api f img True else raise e)))"

section \<open>Lemmas\<close>

lemma name_tag_two: "\<exists>name tag. name_tag f img = [name, tag]"
  using rsplit_once_cases [of "CHR '':''" img] unfolding name_tag_def by (metis (no_types))

lemma full_name_colon: "full_name name tag = name @ '':'' @ tag"
  by (simp add: full_name_def)

definition requested_tags :: "fetcher \<Rightarrow> string \<Rightarrow> string set" where
  "requested_tags f img =
     insert (name_tag f img ! 1)
       (if name_tag f img ! 1 = default_stable_tag (config f) \<and> cincan_tool f img
        then {default_dev_tag (config f)} else {})"

lemma development_image_Inr:
  assumes "development_image api f name st = (Inr p, st')"
  shows "p = GoOn (default_dev_tag (config f)) \<or>
    (\<exists>i. p = Found i \<and> images_get api (full_name name (default_dev_tag (config f))) (daemon st') = Inr i)"
  using assms unfolding development_image_def Let_def
  by (auto elim!: handle_Inr and_then_Inr simp: get_local_def split: if_splits)

lemma pull_first_Inr:
  assumes "pull_first api f img name (name_tag f img ! 1) st = (Inr p, st')"
  shows "(\<exists>tag \<in> requested_tags f img. p = GoOn tag) \<or>
    (\<exists>i. \<exists>tag \<in> requested_tags f img. p = Found i \<and> images_get api (full_name name tag) (daemon st') = Inr i)"
  using assms unfolding pull_first_def
  by (auto elim!: handle_Inr and_then_Inr dest!: development_image_Inr simp: requested_tags_def split: if_splits)

lemma get_image_named:
  assumes "get_image n api f img pull st = (Inr i, st')"
  shows "\<exists>tag \<in> requested_tags f img.
    images_get api (full_name (name_tag f img ! 0) tag) (daemon st') = Inr i"
  using assms
proof (induction n arbitrary: pull st)
  case 0
  then show ?case by simp
next
  case (Suc n)
  let ?name = "name_tag f img ! 0" and ?tag = "name_tag f img ! 1"
  from Suc.prems obtain p st1 where
    p: "(if pull then pull_first api f img ?name ?tag else give (GoOn ?tag)) st = (Inr p, st1)"
    and rest: "(case p of Found i \<Rightarrow> give i
       | GoOn tag \<Rightarrow> handle (get_local api (full_name ?name tag))
             (\<lambda>e. if e = DockerImageNotFound then get_image n api f img True else raise e)) st1 = (Inr i, st')"
    unfolding get_image.simps Let_def by (rule and_then_Inr)
  from p pull_first_Inr have "(\<exists>tag \<in> requested_tags f img. p = GoOn tag) \<or>
      (\<exists>j. \<exists>tag \<in> requested_tags f img. p = Found j \<and> images_get api (full_name ?name tag) (daemon st1) = Inr j)"
    by (fastforce simp: requested_tags_def split: if_splits)
  with rest Suc.IH show ?case
    by (elim disjE bexE exE conjE) (auto elim!: handle_Inr simp: get_local_def split: if_splits)
qed

text \<open>
  C15: The image that is returned is the local image of the reference that was asked for.  A reference
  with a tag is used as it is; one without is completed by the stable tag of the configuration for
  a tool of the registry, and by \<open>latest\<close> for any other.  Only a tool of the registry that is asked
  for with the stable tag may come with the development tag instead.
\<close>

theorem image_is_the_one_named:
  assumes "get_image n api f img pull st = (Inr i, st')"
  defines "steady \<equiv> default_stable_tag (config f)" and "dev \<equiv> default_dev_tag (config f)"
  shows "\<exists>ref. images_get api ref (daemon st') = Inr i \<and>
    (if CHR '':'' \<in> set img
     then ref = img \<or> (cincan_tool f img \<and> (\<exists>base. img = base @ '':'' @ steady \<and> ref = base @ '':'' @ dev))
     else if cincan_tool f img then ref \<in> {img @ '':'' @ steady, img @ '':'' @ dev}
     else ref = img @ '':latest'')"
proof -
  from get_image_named [OF assms(1)] obtain tag where tag: "tag \<in> requested_tags f img"
    and i: "images_get api (full_name (name_tag f img ! 0) tag) (daemon st') = Inr i" by blast
  show ?thesis
  proof (cases "CHR '':'' \<in> set img")
    case False
    with i tag show ?thesis
      by (auto simp: name_tag_def requested_tags_def full_name_colon steady_def dev_def split: if_splits)
  next
    case True
    obtain base t where img: "rsplit_once (CHR '':'') img = [base, t]" "img = base @ '':'' @ t"
      by (rule rsplit_once_cases [of "CHR '':''" img]) (use True in auto)
    with True have "name_tag f img = [base, t]" by (simp add: name_tag_def)
    with i tag True img(2) show ?thesis
      by (auto simp: requested_tags_def full_name_colon steady_def dev_def split: if_splits)
  qed
qed

text \<open>A daemon that holds the names of local images and can pull those of a list.\<close>

definition demo_api :: "string list \<Rightarrow> (string list, string) image_api" where
  "demo_api remote =
     \<lparr>images_get = (\<lambda>n d. if n \<in> set d then Inr n else Inl DockerImageNotFound),
      images_pull = (\<lambda>n t d. if full_name n t \<in> set remote then (Inr (), full_name n t # d)
                             else (Inl DockerNotFound, d)),
      stream_pull = (\<lambda>n t d. if full_name n t \<in> set remote then (Inr [], full_name n t # d)
                             else (Inl DockerNotFound, d))\<rparr>"

definition demo_fetcher :: "bool \<Rightarrow> fetcher" where
  "demo_fetcher bar =
     new_fetcher default_configuration ''quay.io/cincan'' True True True 20 (\<not> bar) 80"

definition no_screen :: "'d \<Rightarrow> 'd fetch_state" where
  "no_screen d = \<lparr>daemon = d, screen = []\<rparr>"

lemma demo_development:
  "get_image 2 (demo_api [''quay.io/cincan/tshark:dev'']) (demo_fetcher False) ''quay.io/cincan/tshark'' False
     (no_screen []) =
   (Inr ''quay.io/cincan/tshark:dev'', no_screen [''quay.io/cincan/tshark:dev''])"
  by code_simp

theorem image_is_the_one_named_witness:
  "\<exists>ref \<in> {''quay.io/cincan/tshark:latest'', ''quay.io/cincan/tshark:dev''}.
    images_get (demo_api [''quay.io/cincan/tshark:dev'']) ref [''quay.io/cincan/tshark:dev''] =
      Inr ''quay.io/cincan/tshark:dev''"
proof -
  have "cincan_tool (demo_fetcher False) ''quay.io/cincan/tshark''"
    and "default_stable_tag (config (demo_fetcher False)) = ''latest''"
    and "default_dev_tag (config (demo_fetcher False)) = ''dev''" by code_simp+
  with image_is_the_one_named [OF demo_development] show ?thesis by (auto simp: no_screen_def)
qed

text \<open>An image that is there is returned without a pull, whatever the registry holds.\<close>

theorem present_image_not_pulled:
  assumes "images_get api (full_name (name_tag f img ! 0) (name_tag f img ! 1)) (daemon st) = Inr i"
  shows "get_image (Suc n) api f img False st = (Inr i, st)"
  using assms by (simp add: Let_def get_local_def handle_def)

theorem present_image_not_pulled_witness:
  "get_image (Suc 0) (demo_api []) (demo_fetcher False) ''busybox'' False (no_screen [''busybox:latest'']) =
     (Inr ''busybox:latest'', no_screen [''busybox:latest''])"
  by (rule present_image_not_pulled) code_simp

text \<open>
  What the high-level client documents, and what is used where there is no progress bar: a pull that
  succeeds leaves the image.  (The low-level client promises nothing of the kind, an error is one of
  the statuses of its stream.)  Neither client runs out of the interpreter's stack by itself.
\<close>

definition leaves_images :: "('d, 'i) image_api \<Rightarrow> bool" where
  "leaves_images api \<longleftrightarrow>
     (\<forall>name tag d d'. images_pull api name tag d = (Inr (), d') \<longrightarrow>
        images_get api (name @ '':'' @ tag) d' \<noteq> Inl DockerImageNotFound)"

definition shallow :: "('d, 'i) image_api \<Rightarrow> bool" where
  "shallow api \<longleftrightarrow> (\<forall>ref d. images_get api ref d \<noteq> Inl RecursionError) \<and>
     (\<forall>name tag d. fst (images_pull api name tag d) \<noteq> Inl RecursionError)"

lemma pull_image_plain:
  assumes "\<not> fancy f"
  shows "pull_image api f name tag st =
    (case images_pull api name tag (daemon st) of
       (Inl e, d) \<Rightarrow> (Inl (if e = KeyboardInterrupt then Exits 0 else e), st\<lparr>daemon := d\<rparr>)
     | (Inr u, d) \<Rightarrow> (Inr u, st\<lparr>daemon := d\<rparr>))"
  using assms by (simp add: pull_image_def on_daemon_def handle_def raise_def split: prod.splits sum.splits)

lemma pull_first_leaves_it:
  assumes "\<not> fancy f" and "leaves_images api" and "pull_first api f img name tag st = (Inr (GoOn t), st')"
  shows "images_get api (full_name name t) (daemon st') \<noteq> Inl DockerImageNotFound"
  using assms(2,3) pull_image_plain [OF assms(1), of api name tag st]
  unfolding pull_first_def development_image_def Let_def
  by (auto elim!: handle_Inr and_then_Inr simp: on_daemon_def leaves_images_def full_name_colon
      split: if_splits prod.splits sum.splits)

lemma pull_first_shallow:
  assumes "\<not> fancy f" and "shallow api"
  shows "fst (pull_first api f img name tag st) \<noteq> Inl RecursionError"
proof -
  have "fst (images_pull api n t d) \<noteq> Inl RecursionError" "images_get api r d \<noteq> Inl RecursionError" for n t d r
    using assms(2) by (simp_all add: shallow_def)
  note no = this this(1) [simplified]
  have "fst (development_image api f name s) \<noteq> Inl RecursionError" for s
    using no(1) [of name "default_dev_tag (config f)" "daemon s"]
      no(2) [of "full_name name (default_dev_tag (config f))" "daemon s"]
    by (auto simp: development_image_def Let_def handle_def and_then_def get_local_def give_def raise_def on_daemon_def
        split: prod.splits sum.splits)
  with no(1) [of name tag "daemon st"] show ?thesis
    by (auto simp: pull_first_def pull_image_plain [OF assms(1)] handle_def and_then_def give_def raise_def
        split: prod.splits sum.splits)
qed

text \<open>
  C16: Without the progress bar, and with a daemon whose successful pulls leave the image, getting an
  image ends after at most one call of itself: it never runs out of a stack that has room for that,
  and a larger one gives the same result.
\<close>

theorem get_image_returns:
  assumes "\<not> fancy f" and "leaves_images api" and "shallow api"
  shows "fst (get_image (Suc (Suc n)) api f img pull st) \<noteq> Inl RecursionError \<and>
    get_image (Suc (Suc n)) api f img pull st = get_image (Suc (Suc 0)) api f img pull st"
proof -
  let ?name = "name_tag f img ! 0" and ?tag = "name_tag f img ! 1"
  have gets: "images_get api r d \<noteq> Inl RecursionError" for r d using assms(3) by (simp add: shallow_def)
  have pulled: "get_image (Suc k) api f img True s = get_image (Suc 0) api f img True s \<and>
      fst (get_image (Suc k) api f img True s) \<noteq> Inl RecursionError" for k s
    using pull_first_leaves_it [OF assms(1,2), of img ?name ?tag s]
      pull_first_shallow [OF assms(1,3), of img ?name ?tag s] gets
    by (auto simp: Let_def and_then_def handle_def get_local_def give_def raise_def
        split: prod.splits sum.splits pulled.splits)
  show ?thesis
  proof (cases pull)
    case True
    with pulled [of "Suc n" st] pulled [of "Suc 0" st] pulled [of 0 st] show ?thesis by (simp del: get_image.simps)
  next
    case False
    have "get_image (Suc (Suc k)) api f img False st =
        (case images_get api (full_name ?name ?tag) (daemon st) of
           Inl e \<Rightarrow> if e = DockerImageNotFound then get_image (Suc k) api f img True st else (Inl e, st)
         | Inr i \<Rightarrow> (Inr i, st))" for k
      by (simp only: get_image.simps(2) [of "Suc k"] Let_def if_False and_then_give pulled.case)
        (simp add: handle_def get_local_def raise_def split: sum.splits)
    with pulled [of n st] pulled [of 0 st] gets False show ?thesis by (simp del: get_image.simps split: sum.splits) metis
  qed
qed

theorem get_image_returns_witness:
  "fst (get_image (Suc (Suc 5)) (demo_api [''busybox:latest'']) (demo_fetcher False) ''busybox'' False (no_screen [])) \<noteq>
     Inl RecursionError \<and>
   get_image (Suc (Suc 5)) (demo_api [''busybox:latest'']) (demo_fetcher False) ''busybox'' False (no_screen []) =
     (Inr ''busybox:latest'', no_screen [''busybox:latest''])"
proof -
  have "\<not> fancy (demo_fetcher False)" by code_simp
  moreover have "leaves_images (demo_api [''busybox:latest''])" "shallow (demo_api [''busybox:latest''])"
    by (auto simp: leaves_images_def shallow_def demo_api_def full_name_def split: if_splits)
  moreover have "get_image (Suc (Suc 0)) (demo_api [''busybox:latest'']) (demo_fetcher False) ''busybox'' False
      (no_screen []) = (Inr ''busybox:latest'', no_screen [''busybox:latest''])" by code_simp
  ultimately show ?thesis
    using get_image_returns [of "demo_fetcher False" "demo_api [''busybox:latest'']" 5 "''busybox''" False "no_screen []"]
    by metis
qed

text \<open>With the progress bar, a pull whose stream ends with an error status but leaves no image makes
  the program call itself until the stack is full, however deep it is.\<close>

theorem failed_stream_overflows:
  assumes "fancy f"
    and "\<And>d. images_get api (full_name (name_tag f img ! 0) (name_tag f img ! 1)) d = Inl DockerImageNotFound"
    and "\<And>d. \<exists>sts d'. stream_pull api (name_tag f img ! 0) (name_tag f img ! 1) d = (Inr sts, d')"
  shows "fst (get_image n api f img pull st) = Inl RecursionError"
proof (induction n arbitrary: pull st)
  case 0
  then show ?case by (simp add: raise_def)
next
  case (Suc n)
  let ?name = "name_tag f img ! 0" and ?tag = "name_tag f img ! 1"
  obtain sts d where "stream_pull api ?name ?tag (daemon st) = (Inr sts, d)" using assms(3) by blast
  then have "\<exists>st1. (if pull then pull_first api f img ?name ?tag else give (GoOn ?tag)) st = (Inr (GoOn ?tag), st1)"
    using assms(1)
    by (simp add: pull_first_def pull_image_def pull_with_progress_def on_daemon_def and_then_def handle_def
        give_def)
  then obtain st1 where
    "(if pull then pull_first api f img ?name ?tag else give (GoOn ?tag)) st = (Inr (GoOn ?tag), st1)" ..
  then have "get_image (Suc n) api f img pull st = get_image n api f img True st1"
    by (simp only: get_image.simps Let_def and_then_run(1) pulled.case)
      (simp add: handle_def get_local_def assms(2) del: One_nat_def)
  with Suc.IH show ?case by simp
qed

definition broken_api :: "(unit, string) image_api" where
  "broken_api =
     \<lparr>images_get = (\<lambda>n d. Inl DockerImageNotFound), images_pull = (\<lambda>n t d. (Inl DockerNotFound, d)),
      stream_pull = (\<lambda>n t d. (Inr [\<lparr>s_id = '''', s_status = '''', s_progress = ''''\<rparr>], d))\<rparr>"

theorem failed_stream_overflows_witness:
  "fst (get_image 50 broken_api (demo_fetcher True) ''busybox'' False (no_screen ())) = Inl RecursionError"
  by (rule failed_stream_overflows)
    (simp_all add: broken_api_def demo_fetcher_def new_fetcher_def use_progress_def WARNING_def)

text \<open>A tag that does not exist ends the program, unless it is the stable tag of a tool of the
  registry: then a development image that is there is used, and nothing else is pulled.\<close>

theorem missing_tag:
  assumes "pull_image api f (name_tag f img ! 0) (name_tag f img ! 1) st = (Inl DockerNotFound, st1)"
  shows "if name_tag f img ! 1 \<noteq> default_stable_tag (config f) \<or> \<not> cincan_tool f img
         then get_image (Suc n) api f img True st = (Inl (Exits 1), st1)
         else (case images_get api (full_name (name_tag f img ! 0) (default_dev_tag (config f))) (daemon st1) of
                 Inr i \<Rightarrow> get_image (Suc n) api f img True st = (Inr i, st1)
               | Inl e \<Rightarrow> if e = DockerImageNotFound then True
                          else get_image (Suc n) api f img True st = (Inl e, st1))"
  using assms
  by (auto simp: Let_def pull_first_def development_image_def requested_tags_def and_then_def handle_def
      raise_def give_def get_local_def split: sum.splits)

theorem missing_tag_witness:
  "get_image (Suc 0) (demo_api []) (demo_fetcher False) ''busybox:old'' True (no_screen []) =
     (Inl (Exits 1), no_screen [])"
proof -
  have "pull_image (demo_api []) (demo_fetcher False) (name_tag (demo_fetcher False) ''busybox:old'' ! 0)
      (name_tag (demo_fetcher False) ''busybox:old'' ! 1) (no_screen []) = (Inl DockerNotFound, no_screen [])"
    and "name_tag (demo_fetcher False) ''busybox:old'' ! 1 \<noteq> default_stable_tag (config (demo_fetcher False))"
    by code_simp+
  with missing_tag [OF this(1), of 0] show ?thesis by simp
qed

text \<open>A registry with a port and a tool without a tag: the port and the path are taken for the tag.\<close>

theorem port_taken_for_tag:
  assumes "CHR '':'' \<notin> set rest"
  shows "name_tag f (registry @ '':'' @ rest) = [registry, rest]"
  using assms by (simp add: name_tag_def)

theorem port_taken_for_tag_witness:
  "name_tag (demo_fetcher False) (''localhost'' @ '':'' @ ''5000/tool'') = [''localhost'', ''5000/tool'']"
  by (rule port_taken_for_tag) simp

end
