(* ===== verification/Version_Handler.thy ===== *)
theory Version_Handler
  imports Configuration
begin

text \<open>
  \<^verbatim>\<open>VersionHandler\<close> of \<^verbatim>\<open>cincan/version_handler.py\<close> and the colours of \<^verbatim>\<open>ANSIEscapes\<close>
  (\<^verbatim>\<open>cincan/utils.py\<close>).  The registry is a parameter: the version of an image, and the answer of
  \<^verbatim>\<open>list_versions\<close>, a nested dictionary like a JSON value.  A version or a tag that is not a string is an error
  here; Python would print it.
\<close>

section \<open>Colours\<close>

datatype ansi =
    BLACK | PURPLE | CYAN | DARKCYAN | BLUE | GREEN | GREEN_BACKGROUND | YELLOW | GRAY
  | GRAY_BACKGROUND | RED | RED_BACKGROUND | BOLD_RED | BOLD | BOLD_YELLOW | UNDERLINE
  | WHITE_BACKGROUND | END_ESCAPE

definition sgr :: "string \<Rightarrow> string" where
  "sgr code = CHR 0x1B # CHR ''['' # code @ ''m''"

primrec ansi_text :: "ansi \<Rightarrow> string" where
  "ansi_text BLACK = sgr ''30''"
| "ansi_text PURPLE = sgr ''95''"
| "ansi_text CYAN = sgr ''96''"
| "ansi_text DARKCYAN = sgr ''36''"
| "ansi_text BLUE = sgr ''94''"
| "ansi_text GREEN = sgr ''92''"
| "ansi_text GREEN_BACKGROUND = sgr ''102''"
| "ansi_text YELLOW = sgr ''93''"
| "ansi_text GRAY = sgr ''90''"
| "ansi_text GRAY_BACKGROUND = sgr ''100''"
| "ansi_text RED = sgr ''31''"
| "ansi_text RED_BACKGROUND = sgr ''41''"
| "ansi_text BOLD_RED = sgr ''1'' @ sgr ''31''"
| "ansi_text BOLD = sgr ''1''"
| "ansi_text BOLD_YELLOW = sgr ''1'' @ sgr ''33''"
| "ansi_text UNDERLINE = sgr ''4''"
| "ansi_text WHITE_BACKGROUND = sgr ''47''"
| "ansi_text END_ESCAPE = sgr ''0''"

section \<open>What the registry knows\<close>

record versions =
  current_version :: string
  data_available :: bool
  latest_local :: string
  local_tags :: "string list"
  local_updates :: bool
  latest_remote :: string
  remote_tags :: "string list"
  remote_updates :: bool
  latest_origin :: string
  origin_provider :: string

definition no_versions :: versions where
  "no_versions =
     \<lparr>current_version = '''', data_available = False, latest_local = '''', local_tags = [],
      local_updates = False, latest_remote = '''', remote_tags = [], remote_updates = False,
      latest_origin = '''', origin_provider = ''''\<rparr>"

text \<open>\<^verbatim>\<open>j.get(k, default)\<close>: only a dictionary has the method.\<close>

definition get_field :: "json \<Rightarrow> string \<Rightarrow> json \<Rightarrow> json result" where
  "get_field j k v = (case j of JObject d \<Rightarrow> Inr (get_or d k v) | _ \<Rightarrow> Inl AttributeError)"

definition text_field :: "json \<Rightarrow> string \<Rightarrow> string result" where
  "text_field j k = bindr (get_field j k (JString '''')) text_of"

definition tags_field :: "json \<Rightarrow> string list result" where
  "tags_field j = bindr (get_field j ''tags'' (JList [])) (\<lambda>l. bindr (items_of l) (map_result text_of))"

definition take_local :: "json \<Rightarrow> versions \<Rightarrow> versions result" where
  "take_local j st =
     (if truthy j then bindr (text_field j ''version'') (\<lambda>v. bindr (tags_field j) (\<lambda>ts.
        Inr (st\<lparr>latest_local := v, local_tags := ts\<rparr>)))
      else Inr st)"

definition take_remote :: "json \<Rightarrow> versions \<Rightarrow> versions result" where
  "take_remote j st =
     (if truthy j then bindr (text_field j ''version'') (\<lambda>v. bindr (tags_field j) (\<lambda>ts.
        Inr (st\<lparr>latest_remote := v, remote_tags := ts\<rparr>)))
      else Inr st)"

definition take_origin :: "json \<Rightarrow> versions \<Rightarrow> versions result" where
  "take_origin j st =
     (if truthy j then bindr (text_field j ''version'') (\<lambda>v.
        bindr (get_field j ''details'' (JObject [])) (\<lambda>dt. bindr (text_field dt ''provider'') (\<lambda>p.
        Inr (st\<lparr>latest_origin := v, origin_provider := p\<rparr>))))
      else Inr st)"

definition take_versions :: "json \<Rightarrow> versions \<Rightarrow> versions result" where
  "take_versions info st =
     bindr (get_field info ''versions'' (JObject [])) (\<lambda>version_data.
     bindr (get_field version_data ''local'' (JObject [])) (\<lambda>local_data.
     bindr (get_field version_data ''remote'' (JObject [])) (\<lambda>remote_data.
     bindr (get_field version_data ''origin'' (JObject [])) (\<lambda>origin_data.
     bindr (take_local local_data st) (\<lambda>st1.
     bindr (take_remote remote_data st1) (\<lambda>st2.
     bindr (take_origin origin_data st2) (\<lambda>st3.
     bindr (get_field info ''updates'' (JObject [])) (\<lambda>available_updates.
     bindr (get_field available_updates ''local'' JNull) (\<lambda>lu.
     bindr (get_field available_updates ''remote'' JNull) (\<lambda>ru.
     Inr (st3\<lparr>local_updates := truthy lu, remote_updates := truthy ru,
              data_available := data_available st3 \<or> truthy version_data \<and> truthy available_updates\<rparr>)))))))))))"

definition basename :: "string \<Rightarrow> string" where
  "basename s = last (split_on CHR ''/'' s)"

definition get_version_information ::
  "string result \<Rightarrow> (string \<Rightarrow> json result) \<Rightarrow> string \<Rightarrow> versions \<Rightarrow> versions result" where
  "get_version_information by_image_id list_versions tool_name st =
     bindr by_image_id (\<lambda>v.
       let st1 = st\<lparr>current_version := v\<rparr> in
       case list_versions (basename tool_name) of
         Inl e \<Rightarrow> if e = FileNotFoundError then Inr st1 else Inl e
       | Inr info \<Rightarrow> if truthy info then take_versions info st1 else Inr st1)"

section \<open>The comparison\<close>

definition coloured :: "ansi \<Rightarrow> string \<Rightarrow> string" where
  "coloured c s = ansi_text c @ s @ ansi_text END_ESCAPE"

text \<open>The colours of the current and of the latest local version, and the second message.\<close>

definition compare_local :: "configuration \<Rightarrow> string \<Rightarrow> versions \<Rightarrow> (ansi \<times> ansi) \<times> string" where
  "compare_local conf tool_name st =
     (if \<not> local_updates st then
        if current_version st \<noteq> latest_local st
        then ((YELLOW, GREEN),
              ''Latest local is available with tags '' @ [CHR 0x27] @ joined '','' (local_tags st) @ [CHR 0x27])
        else ((GREEN, GREEN), '''')
      else
        ((YELLOW, RED),
         if default_stable_tag conf \<in> set (remote_tags st)
         then ''Update available in remote: ('' @ [CHR 0x27] @ latest_local st @ [CHR 0x27] @ '' vs. '' @
              [CHR 0x27] @ latest_remote st @ [CHR 0x27] @ '') Use '' @ [CHR 0x27] @ ''docker pull '' @
              tool_name @ '':'' @ default_stable_tag conf @ [CHR 0x27] @ '' to update.''
         else ''Newer development version available in remote: '' @ [CHR 0x27] @ latest_local st @ [CHR 0x27] @
              '' vs. '' @ [CHR 0x27] @ latest_remote st @ [CHR 0x27] @ '' with tags '' @
              [CHR 0x27] @ joined '','' (remote_tags st) @ [CHR 0x27]))"

definition version_line :: "ansi \<Rightarrow> ansi \<Rightarrow> ansi \<Rightarrow> versions \<Rightarrow> string" where
  "version_line color_current color_local color_remote st =
     ''Version information - '' @
     coloured BOLD ''Current:'' @ '' '' @ coloured color_current (current_version st) @ '' '' @
     coloured BOLD ''Latest Local:'' @ '' '' @ coloured color_local (latest_local st) @ '' '' @
     coloured BOLD ''Latest Remote:'' @ '' '' @ coloured color_remote (latest_remote st) @ '' '' @
     coloured BOLD ''Origin:'' @ '' '' @ latest_origin st"

text \<open>The messages at the level \<^verbatim>\<open>INFO\<close>.\<close>

definition compare_versions ::
  "configuration \<Rightarrow> string \<Rightarrow> string result \<Rightarrow> (string \<Rightarrow> json result) \<Rightarrow> string \<Rightarrow> versions \<Rightarrow>
   (string list \<times> versions) result" where
  "compare_versions conf full_prefix by_image_id list_versions tool_name st =
     (if \<not> startswith tool_name (full_prefix @ ''/'') then Inr ([], st)
      else
        bindr (get_version_information by_image_id list_versions tool_name st) (\<lambda>st1.
        if data_available st1 then
          case compare_local conf tool_name st1 of ((color_current, color_local), other) \<Rightarrow>
          let color_remote = (if remote_updates st1 then YELLOW else GREEN)
          in Inr (version_line color_current color_local color_remote st1 #
                  (if other \<noteq> '''' then [other] else []), st1)
        else Inr ([''No version information available for '' @ tool_name @ [CHR 0x0A]], st1)))"

section \<open>What the user sees\<close>

text \<open>A text without its escape sequences, each of which goes from \<open>ESC\<close> to the next \<^verbatim>\<open>m\<close>.\<close>

fun plain :: "bool \<Rightarrow> string \<Rightarrow> string" where
  "plain inside [] = []"
| "plain inside (c # cs) =
     (if inside then plain (c \<noteq> CHR ''m'') cs
      else if c = CHR 0x1B then plain True cs
      else c # plain False cs)"

lemma plain_text [simp]: "CHR 0x1B \<notin> set s \<Longrightarrow> plain False (s @ t) = s @ plain False t"
  by (induction s) auto

lemma plain_code [simp]: "CHR ''m'' \<notin> set s \<Longrightarrow> plain True (s @ t) = plain True t"
  by (induction s) auto

lemma plain_sgr [simp]: "CHR ''m'' \<notin> set code \<Longrightarrow> plain False (sgr code @ t) = plain False t"
  by (simp add: sgr_def)

lemma plain_ansi [simp]: "plain False (ansi_text c @ t) = plain False t"
  by (cases c) (simp_all add: sgr_def)

lemma plain_coloured [simp]: "CHR 0x1B \<notin> set s \<Longrightarrow> plain False (coloured c s @ t) = s @ plain False t"
  by (simp add: coloured_def)

definition no_escape :: "versions \<Rightarrow> bool" where
  "no_escape st \<longleftrightarrow> list_all (\<lambda>s. CHR 0x1B \<notin> set s)
     [current_version st, latest_local st, latest_remote st, latest_origin st]"

lemma plain_line:
  assumes "no_escape st"
  shows "plain False (version_line c l r st) =
    ''Version information - Current: '' @ current_version st @ '' Latest Local: '' @ latest_local st @
    '' Latest Remote: '' @ latest_remote st @ '' Origin: '' @ latest_origin st"
proof -
  have "plain False (latest_origin st) = latest_origin st"
    using assms plain_text [of "latest_origin st" "[]"] by (simp add: no_escape_def)
  with assms show ?thesis
    by (simp add: no_escape_def version_line_def)
qed

text \<open>For a tool of the registry with version data, the first line says, without its colours, the four
  versions; the local version is red exactly when the registry has an update for it, the current
  one is green exactly when there is none and it is the latest local one, and a second line comes
  in all the other cases.\<close>

theorem version_report:
  assumes "startswith tool_name (full_prefix @ ''/'')"
    and "get_version_information by_image_id list_versions tool_name st = Inr st1"
    and "data_available st1" and "no_escape st1"
  shows "\<exists>current_colour local_colour remote_colour rest.
    compare_versions conf full_prefix by_image_id list_versions tool_name st =
      Inr (version_line current_colour local_colour remote_colour st1 # rest, st1) \<and>
    plain False (version_line current_colour local_colour remote_colour st1) =
      ''Version information - Current: '' @ current_version st1 @ '' Latest Local: '' @ latest_local st1 @
      '' Latest Remote: '' @ latest_remote st1 @ '' Origin: '' @ latest_origin st1 \<and>
    (local_colour = RED \<longleftrightarrow> local_updates st1) \<and> (remote_colour = YELLOW \<longleftrightarrow> remote_updates st1) \<and>
    (current_colour = GREEN \<longleftrightarrow> \<not> local_updates st1 \<and> current_version st1 = latest_local st1) \<and>
    (rest = [] \<longleftrightarrow> current_colour = GREEN)"
proof -
  obtain c l other where local: "compare_local conf tool_name st1 = ((c, l), other)"
    by (metis prod.collapse)
  let ?r = "if remote_updates st1 then YELLOW else GREEN"
  let ?rest = "if other \<noteq> '''' then [other] else []"
  from local have "l = RED \<longleftrightarrow> local_updates st1" "other = '''' \<longleftrightarrow> c = GREEN"
      "c = GREEN \<longleftrightarrow> \<not> local_updates st1 \<and> current_version st1 = latest_local st1"
    by (auto simp: compare_local_def split: if_splits)
  moreover have "compare_versions conf full_prefix by_image_id list_versions tool_name st =
      Inr (version_line c l ?r st1 # ?rest, st1)"
    using assms(1-3) local by (simp add: compare_versions_def Let_def)
  moreover have "?r = YELLOW \<longleftrightarrow> remote_updates st1" and "?rest = [] \<longleftrightarrow> other = ''''" by simp_all
  ultimately show ?thesis
    using plain_line [OF assms(4), of c l ?r] by blast
qed

definition demo_versions :: json where
  "demo_versions =
     JObject [(''versions'', JObject [(''local'', JObject [(''version'', JString ''1''), (''tags'', JList [JString ''latest''])]),
                (''remote'', JObject [(''version'', JString ''2''), (''tags'', JList [JString ''latest''])])]),
              (''updates'', JObject [(''local'', JBool True), (''remote'', JBool False)])]"

theorem version_report_witness:
  "\<exists>c r rest. compare_versions default_configuration ''q'' (Inr ''1'') (\<lambda>n. Inr demo_versions) ''q/tool'' no_versions =
     Inr (version_line c RED r (projr (get_version_information (Inr ''1'') (\<lambda>n. Inr demo_versions) ''q/tool'' no_versions))
          # rest, projr (get_version_information (Inr ''1'') (\<lambda>n. Inr demo_versions) ''q/tool'' no_versions)) \<and> rest \<noteq> []"
proof -
  let ?st = "projr (get_version_information (Inr ''1'') (\<lambda>n. Inr demo_versions) ''q/tool'' no_versions)"
  have tool: "startswith ''q/tool'' (''q'' @ ''/'')" by code_simp
  have info: "get_version_information (Inr ''1'') (\<lambda>n. Inr demo_versions) ''q/tool'' no_versions = Inr ?st"
    by code_simp
  have data: "data_available ?st" "no_escape ?st" and "local_updates ?st" by code_simp+
  from version_report [OF tool info data, of default_configuration] obtain c l r rest where
    "compare_versions default_configuration ''q'' (Inr ''1'') (\<lambda>n. Inr demo_versions) ''q/tool'' no_versions =
      Inr (version_line c l r ?st # rest, ?st)"
    and "l = RED \<longleftrightarrow> local_updates ?st" and "rest = [] \<longleftrightarrow> c = GREEN"
    and "c = GREEN \<longleftrightarrow> \<not> local_updates ?st \<and> current_version ?st = latest_local ?st"
    by (elim exE conjE) blast
  with \<open>local_updates ?st\<close> show ?thesis by blast
qed

end
