(* ===== verification/Tool_Setup.thy ===== *)
theory Tool_Setup
  imports Image_Fetcher Version_Handler
begin

text \<open>
  How \<^verbatim>\<open>ToolImage.__init__\<close> of \<^verbatim>\<open>cincan/frontend.py\<close> gets its image: the conversion of names
  from Docker Hub, the image built or fetched, and the check for new versions.  An argument that
  may be \<^verbatim>\<open>None\<close> is an option; Python takes \<^verbatim>\<open>None\<close> and the empty string for false.
\<close>

section \<open>Names\<close>

record registry =
  is_dockerhub :: bool
  registry_prefix :: string

definition given :: "string option \<Rightarrow> bool" where
  "given s \<longleftrightarrow> s \<noteq> None \<and> s \<noteq> Some ''''"

definition starts :: "string option \<Rightarrow> string \<Rightarrow> bool" where
  "starts s p = (case s of None \<Rightarrow> False | Some t \<Rightarrow> startswith t p)"

definition migrated :: "registry \<Rightarrow> string option \<Rightarrow> string" where
  "migrated reg img = registry_prefix reg @ ''/'' @ basename (the img)"

definition namespace_conversion ::
  "registry \<Rightarrow> string option \<times> string option \<Rightarrow> string option \<times> string option" where
  "namespace_conversion reg ni =
     (case ni of (name, img) \<Rightarrow>
        if is_dockerhub reg then (name, img)
        else if given img \<and> \<not> starts img (registry_prefix reg @ ''/'') then
          if starts img ''cincan/'' then
            (if given name \<and> starts name ''cincan/'' then Some (migrated reg img) else name,
             Some (migrated reg img))
          else (name, img)
        else (name, img))"

text \<open>The conversion changes the image only when it is one of the CinCan images of Docker Hub and
  another registry is the default; then it is the image of the same base name and tag under the
  prefix of the default registry, and a second conversion changes nothing more.\<close>

theorem conversion_settles:
  "namespace_conversion reg (namespace_conversion reg (name, img)) = namespace_conversion reg (name, img) \<and>
   snd (namespace_conversion reg (name, img)) =
     (if \<not> is_dockerhub reg \<and> starts img ''cincan/'' \<and> \<not> starts img (registry_prefix reg @ ''/'')
      then Some (registry_prefix reg @ ''/'' @ basename (the img)) else img)"
proof -
  have "starts (Some (migrated reg img)) (registry_prefix reg @ ''/'')"
    by (simp add: starts_def migrated_def)
  moreover have "starts img ''cincan/'' \<Longrightarrow> given img"
    by (auto simp: starts_def given_def split: option.splits)
  ultimately show ?thesis
    by (auto simp: namespace_conversion_def migrated_def)
qed

section \<open>The constructor\<close>

text \<open>
  \<open>build\<close> is \<^verbatim>\<open>client.images.build\<close> of a context and a tag, which gives the image and a log, \<open>versions\<close> what \<^verbatim>\<open>compare_versions\<close> does for a name and an
  image: the messages, or an error.
\<close>

record 'i tool_base =
  base_name :: string
  base_image :: 'i
  loaded :: bool
  build_context :: string
  messages :: "string list"

definition chosen_name :: "string option \<Rightarrow> string \<Rightarrow> string" where
  "chosen_name name other = (if given name then the name else other)"

text \<open>
  \<^verbatim>\<open>__log_dict_values\<close> prints the first value of every dictionary of the log of a build; it raises when
  one has none.
\<close>

definition log_dict_values :: "(string, json) dict list \<Rightarrow> unit result" where
  "log_dict_values log = (if [] \<in> set log then Inl IndexError else Inr ())"

definition obtain_image ::
  "(string \<Rightarrow> string option \<Rightarrow> ('i \<times> (string, json) dict list) result) \<Rightarrow> (string \<Rightarrow> bool \<Rightarrow> ('d fetch_state, 'i) action) \<Rightarrow>
   string option \<Rightarrow> string option \<Rightarrow> string option \<Rightarrow> bool \<Rightarrow> string option \<Rightarrow> ('d fetch_state, 'i tool_base) action" where
  "obtain_image build fetch name build_path img pull tag =
     (case build_path of
        Some p \<Rightarrow>
          (case build p tag of
             Inl e \<Rightarrow> raise e
           | Inr (i, log) \<Rightarrow>
               and_then (ask (\<lambda>st. log_dict_values log)) (\<lambda>_.
                 give \<lparr>base_name = chosen_name name p, base_image = i, loaded = False,
                       build_context = p, messages = []\<rparr>))
      | None \<Rightarrow>
          (case img of
             Some i \<Rightarrow>
               and_then (fetch i pull) (\<lambda>obj.
                 give \<lparr>base_name = chosen_name name i, base_image = obj, loaded = True,
                       build_context = ''.'', messages = []\<rparr>)
           | None \<Rightarrow> raise (ExitsWith ''No file nor image specified'')))"

definition new_tool ::
  "configuration \<Rightarrow> registry \<Rightarrow> bool \<Rightarrow> (string \<Rightarrow> string option \<Rightarrow> ('i \<times> (string, json) dict list) result) \<Rightarrow>
   (string \<Rightarrow> bool \<Rightarrow> ('d fetch_state, 'i) action) \<Rightarrow> (string \<Rightarrow> 'i \<Rightarrow> string list result) \<Rightarrow> nat \<Rightarrow>
   string option \<Rightarrow> string option \<Rightarrow> string option \<Rightarrow> bool \<Rightarrow> string option \<Rightarrow> bool \<Rightarrow>
   ('d fetch_state, 'i tool_base) action" where
  "new_tool conf reg connected build fetch versions level name build_path img pull tag batch =
     (case namespace_conversion reg (name, img) of (name1, img1) \<Rightarrow>
      if \<not> connected then raise (Exits 1)
      else
        and_then (obtain_image build fetch name1 build_path img1 pull tag) (\<lambda>b.
          if show_updates conf \<and> \<not> batch \<and> level < WARNING then
            case versions (hd (rsplit_once CHR '':'' (base_name b))) (base_image b) of
              Inl e \<Rightarrow> raise e
            | Inr ms \<Rightarrow> give (b\<lparr>messages := ms\<rparr>)
          else give b))"

text \<open>A tool of the Docker Hub namespace ends up with the image of the default registry: what the
  constructor returns is a local image of the converted name, with the tag that was asked for or
  the development tag in its place, and is marked as not built by the program.\<close>

theorem migrated_tool_is_fetched:
  assumes "new_tool conf reg True build (get_image n api f) versions level (Some tool) None (Some tool) pull None batch st =
      (Inr b, st')"
    and "\<not> is_dockerhub reg" and "startswith tool ''cincan/''"
    and "\<not> startswith tool (registry_prefix reg @ ''/'')"
  shows "loaded b \<and> base_name b = registry_prefix reg @ ''/'' @ basename tool \<and>
    (\<exists>tag \<in> requested_tags f (base_name b).
       images_get api (full_name (name_tag f (base_name b) ! 0) tag) (daemon st') = Inr (base_image b))"
proof -
  let ?new = "registry_prefix reg @ ''/'' @ basename tool"
  have "namespace_conversion reg (Some tool, Some tool) = (Some ?new, Some ?new)"
    using assms(2-4) by (auto simp: namespace_conversion_def migrated_def given_def starts_def)
  with assms(1) obtain b1 st1 where
    b1: "obtain_image build (get_image n api f) (Some ?new) None (Some ?new) pull None st = (Inr b1, st1)"
    and rest: "base_name b = base_name b1" "base_image b = base_image b1" "loaded b = loaded b1" "st' = st1"
    unfolding new_tool_def
    by (auto elim!: and_then_Inr split: if_splits sum.splits)
  from b1 obtain i where i: "get_image n api f ?new pull st = (Inr i, st1)"
    and "b1 = \<lparr>base_name = ?new, base_image = i, loaded = True, build_context = ''.'', messages = []\<rparr>"
    unfolding obtain_image_def by (auto elim!: and_then_Inr simp: chosen_name_def given_def)
  with rest get_image_named [OF i] show ?thesis by simp
qed

definition demo_registry :: registry where
  "demo_registry = \<lparr>is_dockerhub = False, registry_prefix = ''quay.io/cincan''\<rparr>"

theorem migrated_tool_is_fetched_witness:
  "\<exists>tag \<in> requested_tags (demo_fetcher False) ''quay.io/cincan/tshark''.
     images_get (demo_api []) (full_name (name_tag (demo_fetcher False) ''quay.io/cincan/tshark'' ! 0) tag)
       [''quay.io/cincan/tshark:dev'', ''quay.io/cincan/tshark:latest''] = Inr ''quay.io/cincan/tshark:latest''"
proof -
  let ?d = "no_screen [''quay.io/cincan/tshark:dev'', ''quay.io/cincan/tshark:latest'']"
  let ?b = "\<lparr>base_name = ''quay.io/cincan/tshark'', base_image = ''quay.io/cincan/tshark:latest'', loaded = True,
    build_context = ''.'', messages = []\<rparr>"
  have "new_tool default_configuration demo_registry True (\<lambda>p t. Inl OSError)
      (get_image 2 (demo_api []) (demo_fetcher False)) (\<lambda>n i. Inr []) 20
      (Some ''cincan/tshark'') None (Some ''cincan/tshark'') False None False ?d = (Inr ?b, ?d)" by code_simp
  from migrated_tool_is_fetched [OF this] show ?thesis
    by (simp add: demo_registry_def no_screen_def)
qed

end
