(* ===== verification/File_Matcher.thy ===== *)
theory File_Matcher
  imports Posix_Path
begin

text \<open>
  \<^verbatim>\<open>FileMatcher\<close> of \<^verbatim>\<open>cincan/file_tool.py\<close>: the patterns that select the files to upload and
  to download.  The contract of a filter (it keeps the elements that satisfy a predicate) is a
  locale; applying a list of filters one after the other is a client of it.  The meaning of a
  pattern is \<open>glob\<close>, in which a star stands for any string.
\<close>

section \<open>Lists of filters\<close>

locale file_filter =
  fixes keep :: "'f \<Rightarrow> 'a \<Rightarrow> bool"
    and run :: "'f \<Rightarrow> 'a list \<Rightarrow> 'a list"
  assumes run_filter: "run f xs = filter (keep f) xs"
begin

lemma run_all: "fold run fs xs = filter (\<lambda>x. \<forall>f \<in> set fs. keep f x) xs"
proof (induction fs arbitrary: xs)
  case Nil
  then show ?case by simp
next
  case (Cons f fs)
  then show ?case by (simp add: run_filter conj_commute)
qed

lemma run_all_cong: "set fs = set gs \<Longrightarrow> fold run fs xs = fold run gs xs"
  by (simp add: run_all)

lemma run_all_same_keeps:
  assumes "\<And>f. f \<in> set fs \<Longrightarrow> \<exists>g \<in> set gs. keep f = keep g"
    and "\<And>g. g \<in> set gs \<Longrightarrow> \<exists>f \<in> set fs. keep f = keep g"
  shows "fold run fs xs = fold run gs xs"
proof -
  have "(\<forall>f \<in> set fs. keep f x) \<longleftrightarrow> (\<forall>g \<in> set gs. keep g x)" for x
    using assms by metis
  then show ?thesis by (simp add: run_all)
qed

lemma run_all_subset: "set (fold run fs xs) \<subseteq> set xs"
  by (auto simp: run_all)

lemma run_all_accepted: "x \<in> set (fold run fs xs) \<Longrightarrow> f \<in> set fs \<Longrightarrow> keep f x"
  by (simp add: run_all)

lemma run_all_distinct: "distinct xs \<Longrightarrow> distinct (fold run fs xs)"
  by (simp add: run_all)

end

section \<open>Patterns\<close>

record file_matcher =
  match_string :: string
  exact :: bool
  absolute_path :: bool
  inclusive :: bool

definition star :: char where
  "star = CHR ''*''"

definition new_matcher :: "string \<Rightarrow> bool \<Rightarrow> file_matcher" where
  "new_matcher m inc =
     \<lparr>match_string = m, exact = (star \<notin> set m),
      absolute_path = startswith m ''/'', inclusive = inc\<rparr>"

definition parse_matchers :: "string list \<Rightarrow> file_matcher list" where
  "parse_matchers ms =
     map (\<lambda>m. if startswith m ''^'' then new_matcher (drop 1 m) False else new_matcher m True) ms"

text \<open>What the constructor establishes, for every matcher of the program.\<close>

definition wf_matcher :: "file_matcher \<Rightarrow> bool" where
  "wf_matcher f \<longleftrightarrow>
     (exact f \<longleftrightarrow> star \<notin> set (match_string f)) \<and>
     (absolute_path f \<longleftrightarrow> startswith (match_string f) ''/'')"

lemma wf_new_matcher [simp, intro]: "wf_matcher (new_matcher m inc)"
  by (simp add: wf_matcher_def new_matcher_def)

lemma wf_parse_matchers: "f \<in> set (parse_matchers ms) \<Longrightarrow> wf_matcher f"
  by (auto simp: parse_matchers_def split: if_splits)

text \<open>
  The loop of \<^verbatim>\<open>__match\<close> over the pieces between the stars, \<open>off\<close> the place in the value
  reached so far; \<open>None\<close> is its \<^verbatim>\<open>return False\<close>.
\<close>

fun match_pieces :: "string \<Rightarrow> string list \<Rightarrow> nat \<Rightarrow> nat option" where
  "match_pieces v [] off = Some off"
| "match_pieces v (s # ss) off =
     (if length s > 0
      then (case find_from v s off of
              None \<Rightarrow> None
            | Some k \<Rightarrow> match_pieces v ss (k + length s))
      else match_pieces v ss (off + length s))"

definition match_value :: "file_matcher \<Rightarrow> string \<Rightarrow> bool" where
  "match_value f v =
     (if exact f then match_string f = v
      else
        let split = split_on star (match_string f); s = hd split in
        if length s > 0 \<and> (length v < length s \<or> take (length s) v \<noteq> s) then False
        else
          (case (if length s > 0 then match_pieces v (tl split) (length s)
                 else match_pieces v split 0) of
             None \<Rightarrow> False
           | Some off \<Rightarrow> \<not> (last split \<noteq> '''' \<and> off \<noteq> length v)))"

section \<open>Filtering\<close>

definition keeps_upload :: "file_matcher \<Rightarrow> ppath \<Rightarrow> bool" where
  "keeps_upload f p \<longleftrightarrow> match_value f (as_posix p) = inclusive f"

definition filter_upload_files :: "file_matcher \<Rightarrow> ppath list \<Rightarrow> ppath list" where
  "filter_upload_files f files = filter (\<lambda>p. match_value f (as_posix p) = inclusive f) files"

text \<open>
  \<^verbatim>\<open>filter_download_files\<close>: the loop with its result list, over the absolute names or over
  the names relative to the working directory of the container.
\<close>

fun download_absolute :: "file_matcher \<Rightarrow> string list \<Rightarrow> string list" where
  "download_absolute f [] = []"
| "download_absolute f (x # xs) =
     (if match_value f x = inclusive f then x # download_absolute f xs else download_absolute f xs)"

fun download_relative :: "file_matcher \<Rightarrow> ppath \<Rightarrow> string list \<Rightarrow> string list" where
  "download_relative f w [] = []"
| "download_relative f w (x # xs) =
     (case relative_to (parse_path x) w of
        Inl e \<Rightarrow> if \<not> inclusive f then x # download_relative f w xs else download_relative f w xs
      | Inr r \<Rightarrow>
          if match_value f (as_posix r) = inclusive f then x # download_relative f w xs
          else download_relative f w xs)"

definition filter_download_files :: "file_matcher \<Rightarrow> string list \<Rightarrow> string \<Rightarrow> string list" where
  "filter_download_files f files work_dir =
     (if absolute_path f then download_absolute f files
      else download_relative f (parse_path work_dir) files)"

definition keeps_download :: "file_matcher \<Rightarrow> string \<Rightarrow> string \<Rightarrow> bool" where
  "keeps_download f work_dir x \<longleftrightarrow>
     (if absolute_path f then match_value f x = inclusive f
      else case relative_to (parse_path x) (parse_path work_dir) of
             Inl e \<Rightarrow> \<not> inclusive f
           | Inr r \<Rightarrow> match_value f (as_posix r) = inclusive f)"

lemma download_absolute_filter:
  "download_absolute f xs = filter (\<lambda>x. match_value f x = inclusive f) xs"
  by (induction xs) auto

lemma download_relative_filter:
  "download_relative f w xs =
     filter (\<lambda>x. case relative_to (parse_path x) w of
                Inl e \<Rightarrow> \<not> inclusive f
              | Inr r \<Rightarrow> match_value f (as_posix r) = inclusive f) xs"
  by (induction xs) (auto split: sum.splits)

interpretation uploads: file_filter keeps_upload filter_upload_files
  by unfold_locales (auto simp: keeps_upload_def filter_upload_files_def intro!: filter_cong)

interpretation downloads: file_filter "\<lambda>f. keeps_download f w" "\<lambda>f xs. filter_download_files f xs w" for w
  by unfold_locales
    (auto simp: keeps_download_def filter_download_files_def download_absolute_filter
      download_relative_filter intro!: filter_cong)

text \<open>Whether a filter keeps a file depends only on its pattern and its sense.\<close>

lemma keeps_download_cong:
  "wf_matcher f \<Longrightarrow> wf_matcher g \<Longrightarrow> match_string f = match_string g \<Longrightarrow>
     inclusive f = inclusive g \<Longrightarrow> keeps_download f w = keeps_download g w"
  by (auto simp: keeps_download_def match_value_def wf_matcher_def fun_eq_iff split: sum.splits)

section \<open>What a pattern means\<close>

fun glob :: "string \<Rightarrow> string \<Rightarrow> bool" where
  "glob [] v = (v = [])"
| "glob (c # p) v =
     (if c = star then list_ex (\<lambda>w. glob p w) (suffixes v)
      else (case v of [] \<Rightarrow> False | x # xs \<Rightarrow> x = c \<and> glob p xs))"

text \<open>The same by pieces: the pieces in order, with anything in front of each.\<close>

fun gapped :: "string list \<Rightarrow> string \<Rightarrow> bool" where
  "gapped [] v = (v = [])"
| "gapped (s # ss) v = (\<exists>g r. v = g @ s @ r \<and> gapped ss r)"

lemma glob_Cons_star: "glob (star # p) v \<longleftrightarrow> (\<exists>g w. v = g @ w \<and> glob p w)"
  unfolding glob.simps list_ex_iff by (auto simp: suffix_def) blast

lemma glob_no_star: "star \<notin> set p \<Longrightarrow> glob p v \<longleftrightarrow> v = p"
  by (induction p arbitrary: v) (auto split: list.splits)

lemma glob_append: "star \<notin> set p \<Longrightarrow> glob (p @ q) v \<longleftrightarrow> (\<exists>r. v = p @ r \<and> glob q r)"
  by (induction p arbitrary: v) (auto split: list.splits)

lemma glob_pieces: "glob p v \<longleftrightarrow> (\<exists>r. v = hd (split_on star p) @ r \<and> gapped (tl (split_on star p)) r)"
proof (induction "length p" arbitrary: p v rule: less_induct)
  case less
  show ?case
  proof (cases "star \<in> set p")
    case False
    then show ?thesis by (simp add: glob_no_star)
  next
    case True
    then obtain a b where p: "p = a @ star # b" and a: "star \<notin> set a"
      using split_list_first [of star p] by blast
    have "glob b w \<longleftrightarrow>
        (\<exists>r. w = hd (split_on star b) @ r \<and> gapped (tl (split_on star b)) r)" for w
      using less p by simp
    then show ?thesis
      using p a by (cases "split_on star b") (auto simp: glob_append glob_Cons_star simp del: glob.simps)
  qed
qed

text \<open>
  \<open>match_pieces\<close> takes every piece at its leftmost place.  What it accepts is a way to place
  the pieces, and whenever there is a way, the greedy one exists and ends no later.
\<close>

lemma match_pieces_sound:
  "match_pieces v ss off = Some k \<Longrightarrow> off \<le> length v \<Longrightarrow>
     off \<le> k \<and> k \<le> length v \<and> gapped ss (take (k - off) (drop off v))"
proof (induction ss arbitrary: off)
  case Nil
  then show ?case by simp
next
  case (Cons s ss)
  show ?case
  proof (cases "s = []")
    case True
    with Cons have "off \<le> k \<and> k \<le> length v \<and> gapped ss (take (k - off) (drop off v))" by simp
    with True show ?thesis by (auto intro: exI [of _ "[]"])
  next
    case False
    with Cons.prems obtain j where j: "find_from v s off = Some j"
      and rest: "match_pieces v ss (j + length s) = Some k"
      by (auto split: option.splits)
    note found = find_from_Some [OF j]
    from Cons.IH [OF rest found(2)] have
      k: "j + length s \<le> k" "k \<le> length v"
      and tail: "gapped ss (take (k - (j + length s)) (drop (j + length s) v))" by auto
    have "take (k - off) (drop off v) =
        take (j - off) (drop off v) @ s @ take (k - (j + length s)) (drop (j + length s) v)"
    proof -
      from found(3) obtain z where z: "drop j v = s @ z" by (auto simp: prefix_def)
      then have after: "drop (j + length s) v = z"
        by (metis add.commute append_eq_conv_conj drop_drop)
      have "drop off v = take (j - off) (drop off v) @ drop (j - off) (drop off v)"
        by (rule append_take_drop_id [symmetric])
      with z found(1) have whole: "drop off v = take (j - off) (drop off v) @ s @ z" by simp
      have len: "length (take (j - off) (drop off v)) = j - off"
        using found(2) Cons.prems(2) by simp
      have "take (k - off) (take (j - off) (drop off v) @ s @ z) =
          take (j - off) (drop off v) @ s @ take (k - (j + length s)) z"
        using len k(1) found(1) by (simp add: take_append)
      with whole after show ?thesis by metis
    qed
    with tail k found(1) show ?thesis by auto
  qed
qed

lemma match_pieces_complete:
  "gapped ss u \<Longrightarrow> drop off v = u @ t \<Longrightarrow> off \<le> length v \<Longrightarrow> off0 \<le> off \<Longrightarrow>
     \<exists>k. match_pieces v ss off0 = Some k \<and> k \<le> off + length u"
proof (induction ss arbitrary: u off off0)
  case Nil
  then show ?case by simp
next
  case (Cons s ss)
  from Cons.prems(1) obtain g r where u: "u = g @ s @ r" and r: "gapped ss r" by auto
  let ?off = "off + length g + length s"
  from Cons.prems(2) u have at: "drop (off + length g) v = s @ r @ t" and tail: "drop ?off v = r @ t"
    by (metis append.assoc append_eq_conv_conj drop_drop add.commute)+
  have len: "?off \<le> length v"
    using arg_cong [OF Cons.prems(2), of length] u Cons.prems(3) by simp
  show ?case
  proof (cases "s = []")
    case True
    with Cons.IH [OF r tail len, of off0] Cons.prems(4) u show ?thesis by auto
  next
    case False
    have "prefix s (drop (off + length g) v)" using at by simp
    then obtain j where j: "find_from v s off0 = Some j" "j \<le> off + length g"
      using find_from_le [of off0 "off + length g" v s] Cons.prems(4) len by auto
    from Cons.IH [OF r tail len, of "j + length s"] j u False show ?thesis by auto
  qed
qed

lemma gapped_extend: "ss \<noteq> [] \<Longrightarrow> last ss = [] \<Longrightarrow> gapped ss u \<Longrightarrow> gapped ss (u @ t)"
proof (induction ss arbitrary: u)
  case (Cons s ss)
  then show ?case
  proof (cases "ss = []")
    case False
    from Cons.prems obtain g r where "u = g @ s @ r" "gapped ss r" by auto
    moreover from this Cons False have "gapped ss (r @ t)" by simp
    ultimately have "u @ t = g @ s @ (r @ t) \<and> gapped ss (r @ t)" by simp
    then show ?thesis unfolding gapped.simps by blast
  qed auto
qed simp

lemma split_on_starred: "star \<in> set p \<Longrightarrow> \<exists>s t ts. split_on star p = s # t # ts"
proof -
  assume "star \<in> set p"
  then obtain a b where "p = a @ star # b" and "star \<notin> set a"
    using split_list_first [of star p] by blast
  then show ?thesis by (cases "split_on star b") auto
qed

text \<open>The matcher of a pattern with a star, with the pieces of the pattern named.\<close>

lemma match_value_pieces:
  assumes "\<not> exact f" and "split_on star (match_string f) = s # ss"
  shows "match_value f v \<longleftrightarrow>
    prefix s v \<and>
    (\<exists>k. match_pieces v ss (length s) = Some k \<and> (last (s # ss) = [] \<or> k = length v))"
proof -
  have pre: "prefix s v \<longleftrightarrow> \<not> (length v < length s \<or> take (length s) v \<noteq> s)"
    by (auto simp: prefix_def) (metis append_take_drop_id)
  show ?thesis
    using assms pre by (cases "s = []") (auto simp: match_value_def Let_def split: option.splits)
qed

lemma match_value_sound:
  assumes f: "wf_matcher f" and m: "match_value f v"
  shows "glob (match_string f) v"
proof (cases "exact f")
  case True
  with f m show ?thesis by (simp add: wf_matcher_def match_value_def glob_no_star)
next
  case False
  with f have "star \<in> set (match_string f)" by (simp add: wf_matcher_def)
  then obtain s t ts where sp: "split_on star (match_string f) = s # t # ts"
    using split_on_starred by blast
  from m [unfolded match_value_pieces [OF False sp]] obtain k where
    pre: "prefix s v" and k: "match_pieces v (t # ts) (length s) = Some k"
    and stop: "last (t # ts) = [] \<or> k = length v"
    by auto
  have "length s \<le> length v" using pre by (rule prefix_length_le)
  from match_pieces_sound [OF k this] have
    g: "gapped (t # ts) (take (k - length s) (drop (length s) v))" and "k \<le> length v" by auto
  have "gapped (t # ts) (drop (length s) v)"
  proof (cases "k = length v")
    case True
    with g show ?thesis by simp
  next
    case False
    with stop have "last (t # ts) = []" by simp
    from gapped_extend [OF _ this g, of "drop (k - length s) (drop (length s) v)"]
    show ?thesis unfolding append_take_drop_id by blast
  qed
  moreover from pre have "v = s @ drop (length s) v" by (auto simp: prefix_def)
  ultimately show ?thesis unfolding glob_pieces sp by auto
qed

lemma match_value_complete:
  assumes f: "wf_matcher f" and g: "glob (match_string f) v"
    and p: "exact f \<or> last (split_on star (match_string f)) = []"
  shows "match_value f v"
proof (cases "exact f")
  case True
  with f g show ?thesis by (simp add: wf_matcher_def match_value_def glob_no_star)
next
  case False
  with f have "star \<in> set (match_string f)" by (simp add: wf_matcher_def)
  then obtain s t ts where sp: "split_on star (match_string f) = s # t # ts"
    using split_on_starred by blast
  from g [unfolded glob_pieces sp] obtain r where r: "v = s @ r" "gapped (t # ts) r" by auto
  then have "drop (length s) v = r @ []" "length s \<le> length v" by simp_all
  from match_pieces_complete [OF r(2) this le_refl] obtain k where
    "match_pieces v (t # ts) (length s) = Some k" by blast
  with p False sp r(1) show ?thesis by (auto simp: match_value_pieces [OF False sp])
qed

lemma last_split_on_star: "endswith p [star] \<Longrightarrow> last (split_on star p) = []"
proof -
  assume "endswith p [star]"
  then obtain q where "p = q @ [star]" by (auto simp: suffix_def)
  moreover have "last (split_on star (q @ [star])) = []"
    using split_on_nonlast [of star q] by simp
  ultimately show ?thesis by simp
qed

section \<open>Properties\<close>

text \<open>
  C26: a pattern never matches more than it says: whatever \<^verbatim>\<open>FileMatcher\<close> accepts is the
  pattern with some string in place of every star.
\<close>

theorem matcher_sound: "match_value (new_matcher p inc) v \<Longrightarrow> glob p v"
  using match_value_sound [of "new_matcher p inc" v] by (simp add: new_matcher_def wf_matcher_def)

theorem matcher_sound_witness: "glob ''_test*.zip'' ''_test/ab.zip''"
proof (rule matcher_sound)
  show "match_value (new_matcher ''_test*.zip'' True) ''_test/ab.zip''" by code_simp
qed

text \<open>
  C27: for a pattern without a star, or with a star at its end, \<^verbatim>\<open>FileMatcher\<close> accepts exactly
  the strings the pattern describes.
\<close>

theorem matcher_exact_when_open_ended:
  assumes "star \<notin> set p \<or> endswith p ''*''"
  shows "match_value (new_matcher p inc) v \<longleftrightarrow> glob p v"
proof
  show "match_value (new_matcher p inc) v \<Longrightarrow> glob p v"
    using match_value_sound [of "new_matcher p inc" v] by (simp add: new_matcher_def wf_matcher_def)
  show "glob p v \<Longrightarrow> match_value (new_matcher p inc) v"
    using match_value_complete [of "new_matcher p inc" v] assms last_split_on_star [of p]
    by (auto simp: new_matcher_def wf_matcher_def star_def)
qed

theorem matcher_exact_when_open_ended_witness:
  "match_value (new_matcher ''tests/*'' False) ''tests/a/b'' = glob ''tests/*'' ''tests/a/b''"
  by (rule matcher_exact_when_open_ended) code_simp

text \<open>
  A pattern that ends in a literal piece, such as \<open>*.txt\<close>, is not matched that way: it
  matches a name exactly when the piece stands at the end of the name and nowhere before,
  because \<^verbatim>\<open>__match\<close> takes the first occurrence of the piece and never looks for a later one.
\<close>

theorem suffix_pattern_first_occurrence:
  assumes "star \<notin> set ext" and "ext \<noteq> []"
  shows "match_value (new_matcher (star # ext) inc) v \<longleftrightarrow>
    (\<exists>u. v = u @ ext \<and> find_from v ext 0 = Some (length u))"
proof -
  let ?f = "new_matcher (star # ext) inc"
  have sp: "split_on star (match_string ?f) = [] # [ext]" and ne: "\<not> exact ?f"
    using assms(1) by (simp_all add: new_matcher_def)
  have "match_value ?f v \<longleftrightarrow> (\<exists>k. find_from v ext 0 = Some k \<and> k + length ext = length v)"
    unfolding match_value_pieces [OF ne sp] using assms(2) by (auto split: option.splits)
  also have "\<dots> \<longleftrightarrow> (\<exists>u. v = u @ ext \<and> find_from v ext 0 = Some (length u))"
  proof (intro iffI; elim exE conjE)
    fix k
    assume k: "find_from v ext 0 = Some k" "k + length ext = length v"
    from find_from_Some(3) [OF k(1)] obtain z where z: "drop k v = ext @ z" by (auto simp: prefix_def)
    have "length (drop k v) = length ext" using k(2) by simp
    with z have "v = take k v @ ext" using append_take_drop_id [of k v] by simp
    with k show "\<exists>u. v = u @ ext \<and> find_from v ext 0 = Some (length u)"
      by (intro exI [of _ "take k v"]) simp
  next
    fix u
    assume "v = u @ ext" "find_from v ext 0 = Some (length u)"
    then show "\<exists>k. find_from v ext 0 = Some k \<and> k + length ext = length v" by auto
  qed
  finally show ?thesis .
qed

theorem suffix_pattern_first_occurrence_witness:
  "match_value (new_matcher (star # ''.txt'') True) ''source-a.txt'' \<longleftrightarrow>
    (\<exists>u. ''source-a.txt'' = u @ ''.txt'' \<and> find_from ''source-a.txt'' ''.txt'' 0 = Some (length u))"
  by (rule suffix_pattern_first_occurrence) (simp_all add: star_def)

text \<open>
  So an excluding filter \<open>^*.txt\<close> lets the file \<open>a.txt.txt\<close> through, although the pattern
  describes its name.
\<close>

theorem suffix_pattern_leak:
  "glob ''*.txt'' ''a.txt.txt'' \<and>
   fold (\<lambda>f xs. filter_download_files f xs ''/home/'') (parse_matchers [''^*.txt''])
     [''/home/a.txt'', ''/home/a.txt.txt''] = [''/home/a.txt.txt'']"
  by code_simp

text \<open>
  Applying filters one after the other keeps exactly the files that every filter keeps, in
  their order; neither the order of the filters nor a repetition matters.
\<close>

theorem download_filters_conjunction:
  "fold (\<lambda>f xs. filter_download_files f xs w) fs xs =
     filter (\<lambda>x. list_all (\<lambda>f. keeps_download f w x) fs) xs"
  by (simp add: downloads.run_all list_all_iff)

end
