(* ===== verification/Shell_Lexer.thy ===== *)
theory Shell_Lexer
  imports Py_Prelude
begin

text \<open>
  The lexer of Python's standard library that \<^verbatim>\<open>FileResolver\<close> splits an argument with:
  \<^verbatim>\<open>shlex.shlex(arg, posix=True, punctuation_chars="=,")\<close>, read until it is exhausted.
  \<open>read_token\<close> is its state machine, one character per step; a character that the lexer pushes
  back is left in the input.  Characters are code points below 256.
\<close>

datatype lex_state =
    Between           \<comment> \<open>the state \<^verbatim>\<open>' '\<close>\<close>
  | Ended             \<comment> \<open>the state \<^verbatim>\<open>None\<close>\<close>
  | InWord            \<comment> \<open>the state \<^verbatim>\<open>'a'\<close>\<close>
  | InPunctuation     \<comment> \<open>the state \<^verbatim>\<open>'c'\<close>\<close>
  | InQuotes char     \<comment> \<open>the state is the quote\<close>
  | AfterEscape       \<comment> \<open>the state is the backslash\<close>

definition newline :: char where
  "newline = CHR 0x0A"

definition backslash :: char where
  "backslash = CHR 0x5C"

definition double_quote :: char where
  "double_quote = CHR 0x22"

definition lex_space :: "char \<Rightarrow> bool" where
  "lex_space c \<longleftrightarrow> c = CHR '' '' \<or> c = CHR 0x09 \<or> c = CHR 0x0D \<or> c = newline"

definition lex_comment :: "char \<Rightarrow> bool" where
  "lex_comment c \<longleftrightarrow> c = CHR ''#''"

definition lex_quote :: "char \<Rightarrow> bool" where
  "lex_quote c \<longleftrightarrow> c = CHR 0x27 \<or> c = double_quote"

definition lex_punct :: "char \<Rightarrow> bool" where
  "lex_punct c \<longleftrightarrow> c = CHR ''='' \<or> c = CHR '',''"

text \<open>
  The word characters: letters, digits, the underscore, the Latin letters beyond ASCII, and
  the characters that punctuation mode adds, less the punctuation characters themselves.
\<close>

definition lex_word :: "char \<Rightarrow> bool" where
  "lex_word c \<longleftrightarrow>
     (let n = (of_char c :: nat)
      in (97 \<le> n \<and> n \<le> 122) \<or> (65 \<le> n \<and> n \<le> 90) \<or> (48 \<le> n \<and> n \<le> 57) \<or>
         c \<in> set ''_~-./*?'' \<or> (192 \<le> n \<and> n \<noteq> 215 \<and> n \<noteq> 247))"

definition after_line :: "string \<Rightarrow> string" where
  "after_line s = drop 1 (dropWhile (\<lambda>c. c \<noteq> newline) s)"

lemma length_after_line: "length (after_line s) \<le> length s"
  using length_dropWhile_le [of "\<lambda>c. c \<noteq> newline" s] by (simp add: after_line_def)

text \<open>The end of \<^verbatim>\<open>read_token\<close>: the token, the state it leaves and the input left.\<close>

definition token_end ::
  "bool \<Rightarrow> string \<Rightarrow> lex_state \<Rightarrow> string \<Rightarrow> (string option \<times> lex_state \<times> string) result" where
  "token_end quoted tok st rest = Inr (if \<not> quoted \<and> tok = '''' then None else Some tok, st, rest)"

function read_token ::
  "lex_state \<Rightarrow> lex_state \<Rightarrow> bool \<Rightarrow> string \<Rightarrow> string \<Rightarrow> (string option \<times> lex_state \<times> string) result"
where
  "read_token st esc quoted tok [] =
     (case st of
        Ended \<Rightarrow> token_end quoted '''' Ended []
      | InQuotes d \<Rightarrow> Inl ValueError
      | AfterEscape \<Rightarrow> Inl ValueError
      | _ \<Rightarrow> token_end quoted tok Ended [])"
| "read_token Ended esc quoted tok (c # cs) = token_end quoted '''' Ended cs"
| "read_token Between esc quoted tok (c # cs) =
     (if lex_space c then
        if tok \<noteq> '''' \<or> quoted then token_end quoted tok Between cs
        else read_token Between esc quoted tok cs
      else if lex_comment c then read_token Between esc quoted tok (after_line cs)
      else if c = backslash then read_token AfterEscape InWord quoted tok cs
      else if lex_word c then read_token InWord esc quoted [c] cs
      else if lex_punct c then read_token InPunctuation esc quoted [c] cs
      else if lex_quote c then read_token (InQuotes c) esc quoted tok cs
      else token_end quoted [c] Between cs)"
| "read_token (InQuotes d) esc quoted tok (c # cs) =
     (if c = d then read_token InWord esc True tok cs
      else if c = backslash \<and> d = double_quote then read_token AfterEscape (InQuotes d) True tok cs
      else read_token (InQuotes d) esc True (tok @ [c]) cs)"
| "read_token AfterEscape esc quoted tok (c # cs) =
     read_token esc esc quoted
       ((case esc of
           InQuotes d \<Rightarrow> if c \<noteq> backslash \<and> c \<noteq> d then tok @ [backslash] else tok
         | _ \<Rightarrow> tok) @ [c]) cs"
| "read_token InWord esc quoted tok (c # cs) =
     (if lex_space c then
        if tok \<noteq> '''' \<or> quoted then token_end quoted tok Between cs
        else read_token Between esc quoted tok cs
      else if lex_comment c then
        if tok \<noteq> '''' \<or> quoted then token_end quoted tok Between (after_line cs)
        else read_token Between esc quoted tok (after_line cs)
      else if lex_quote c then read_token (InQuotes c) esc quoted tok cs
      else if c = backslash then read_token AfterEscape InWord quoted tok cs
      else if lex_word c then read_token InWord esc quoted (tok @ [c]) cs
      else if tok \<noteq> '''' \<or> quoted then token_end quoted tok Between (c # cs)
      else read_token Between esc quoted tok (c # cs))"
| "read_token InPunctuation esc quoted tok (c # cs) =
     (if lex_space c then
        if tok \<noteq> '''' \<or> quoted then token_end quoted tok Between cs
        else read_token Between esc quoted tok cs
      else if lex_comment c then
        if tok \<noteq> '''' \<or> quoted then token_end quoted tok Between (after_line cs)
        else read_token Between esc quoted tok (after_line cs)
      else if lex_punct c then read_token InPunctuation esc quoted (tok @ [c]) cs
      else token_end quoted tok Between (c # cs))"
  by pat_completeness auto
termination
  by (relation "measure (\<lambda>(st, esc, quoted, tok, s). 2 * length s + (if st = InWord then 1 else 0))")
    (use length_after_line in \<open>auto simp: less_Suc_eq_le intro!: le_SucI mult_le_mono2\<close>)

declare read_token.simps [simp del]

lemma read_token_progress:
  "read_token st esc quoted tok s = Inr (t, st', rest) \<Longrightarrow>
     st' = Ended \<or>
     st' = Between \<and> length rest \<le> length s \<and> (st = Between \<longrightarrow> length rest < length s)"
proof (induction st esc quoted tok s rule: read_token.induct)
  case (1 st esc quoted tok)
  then show ?case by (simp add: read_token.simps token_end_def split: lex_state.splits)
next
  case (2 esc quoted tok c cs)
  then show ?case by (simp add: read_token.simps token_end_def)
next
  case (3 esc quoted tok c cs)
  then show ?case
    using length_after_line [of cs]
    by (auto simp: read_token.simps(3) token_end_def split: if_splits)
next
  case (4 d esc quoted tok c cs)
  then show ?case by (auto simp: read_token.simps(4) split: if_splits)
next
  case (5 esc quoted tok c cs)
  then show ?case by (fastforce simp: read_token.simps(5))
next
  case (6 esc quoted tok c cs)
  then show ?case
    using length_after_line [of cs]
    by (auto simp: read_token.simps(6) token_end_def split: if_splits)
next
  case (7 esc quoted tok c cs)
  then show ?case
    using length_after_line [of cs]
    by (auto simp: read_token.simps(7) token_end_def split: if_splits)
qed

text \<open>
  \<^verbatim>\<open>list(lex)\<close>: tokens until \<^verbatim>\<open>None\<close>.  A lexer that has seen the end of the input returns
  \<^verbatim>\<open>None\<close> on the next call, so the loop stops there.
\<close>

function lex_tokens :: "string \<Rightarrow> string list result" where
  "lex_tokens s =
     (case read_token Between Between False '''' s of
        Inl e \<Rightarrow> Inl e
      | Inr (None, st, rest) \<Rightarrow> Inr []
      | Inr (Some w, st, rest) \<Rightarrow>
          if st = Ended then Inr [w]
          else (case lex_tokens rest of Inl e \<Rightarrow> Inl e | Inr ws \<Rightarrow> Inr (w # ws)))"
  by pat_completeness auto
termination
  by (relation "measure length") (auto dest: read_token_progress)

declare lex_tokens.simps [simp del]

section \<open>When the lexer raises\<close>

text \<open>Only quotes and backslashes can make the lexer raise: without them it always returns.\<close>

definition lex_plain :: "char \<Rightarrow> bool" where
  "lex_plain c \<longleftrightarrow> \<not> lex_quote c \<and> c \<noteq> backslash"

lemma lex_plainD: "lex_plain c \<Longrightarrow> \<not> lex_quote c" "lex_plain c \<Longrightarrow> c \<noteq> backslash"
  by (simp_all add: lex_plain_def)

lemma plain_after_line: "list_all lex_plain cs \<Longrightarrow> list_all lex_plain (after_line cs)"
  by (auto simp: list_all_iff after_line_def dest: in_set_dropD set_dropWhileD)

lemma read_token_plain:
  "list_all lex_plain s \<Longrightarrow> st = Between \<or> st = InWord \<or> st = InPunctuation \<Longrightarrow>
     \<exists>t st' rest. read_token st esc quoted tok s = Inr (t, st', rest) \<and> list_all lex_plain rest"
proof (induction st esc quoted tok s rule: read_token.induct)
  case (1 st esc quoted tok)
  then show ?case by (auto simp: read_token.simps token_end_def)
next
  case (3 esc quoted tok c cs)
  then show ?case
    using plain_after_line [of cs] by (auto simp: read_token.simps(3) token_end_def lex_plainD)
next
  case (6 esc quoted tok c cs)
  then show ?case
    using plain_after_line [of cs] by (auto simp: read_token.simps(6) token_end_def lex_plainD)
next
  case (7 esc quoted tok c cs)
  then show ?case
    using plain_after_line [of cs] by (auto simp: read_token.simps(7) token_end_def lex_plainD)
qed auto

lemma lex_tokens_plain: "list_all lex_plain s \<Longrightarrow> \<exists>ws. lex_tokens s = Inr ws"
proof (induction s rule: lex_tokens.induct)
  case (1 s)
  from read_token_plain [OF "1.prems"] obtain t st rest where
    r: "read_token Between Between False '''' s = Inr (t, st, rest)" and rest: "list_all lex_plain rest"
    by blast
  show ?case
  proof (cases t)
    case None
    with r show ?thesis by (simp add: lex_tokens.simps [of s])
  next
    case (Some w)
    show ?thesis
    proof (cases "st = Ended")
      case True
      with r Some show ?thesis by (simp add: lex_tokens.simps [of s])
    next
      case False
      with "1.IH" [OF r refl Some refl False rest] obtain ws where "lex_tokens rest = Inr ws" by auto
      with r Some False show ?thesis by (simp add: lex_tokens.simps [of s])
    qed
  qed
qed

text \<open>A string of word characters is one token.\<close>

lemma word_not_special:
  assumes "lex_word c"
  shows "\<not> lex_space c" "\<not> lex_comment c" "\<not> lex_quote c" "c \<noteq> backslash" "\<not> lex_punct c"
proof -
  have "\<not> lex_word d" if "d = CHR '' '' \<or> d = CHR 0x09 \<or> d = CHR 0x0D \<or> d = newline \<or> d = CHR ''#'' \<or>
    d = CHR 0x27 \<or> d = double_quote \<or> d = backslash \<or> d = CHR ''='' \<or> d = CHR '',''" for d
    using that by (auto simp: lex_word_def newline_def double_quote_def backslash_def)
  with assms show "\<not> lex_space c" "\<not> lex_comment c" "\<not> lex_quote c" "c \<noteq> backslash" "\<not> lex_punct c"
    by (auto simp: lex_space_def lex_comment_def lex_quote_def lex_punct_def)
qed

lemma read_word:
  "list_all lex_word s \<Longrightarrow> tok \<noteq> '''' \<Longrightarrow>
     read_token InWord esc False tok s = Inr (Some (tok @ s), Ended, [])"
  by (induction s arbitrary: tok)
    (auto simp: read_token.simps token_end_def word_not_special)

lemma lex_tokens_word:
  assumes "list_all lex_word s" and "s \<noteq> ''''"
  shows "lex_tokens s = Inr [s]"
proof -
  from assms obtain c cs where s: "s = c # cs" "lex_word c" "list_all lex_word cs" by (cases s) auto
  then have "read_token Between Between False '''' s = Inr (Some s, Ended, [])"
    by (simp add: read_token.simps(3) word_not_special read_word)
  then show ?thesis by (simp add: lex_tokens.simps)
qed

text \<open>An unclosed quote raises, whatever stands before it, as soon as it opens a token.\<close>

lemma read_unclosed_quote:
  "d \<notin> set s \<Longrightarrow> backslash \<notin> set s \<Longrightarrow> read_token (InQuotes d) esc quoted tok s = Inl ValueError"
  by (induction s arbitrary: esc quoted tok) (auto simp: read_token.simps)

lemma read_word_then_quote:
  "list_all lex_word w \<Longrightarrow> tok \<noteq> '''' \<Longrightarrow> lex_quote d \<Longrightarrow> d \<notin> set s \<Longrightarrow> backslash \<notin> set s \<Longrightarrow>
     read_token InWord esc False tok (w @ d # s) = Inl ValueError"
proof (induction w arbitrary: tok)
  case Nil
  have "\<not> lex_space d" "\<not> lex_comment d"
    using Nil.prems by (auto simp: lex_quote_def lex_space_def lex_comment_def newline_def double_quote_def)
  with Nil show ?case by (simp add: read_token.simps(6) read_unclosed_quote)
next
  case (Cons c w)
  then show ?case by (simp add: read_token.simps(6) word_not_special)
qed

lemma lex_tokens_apostrophe:
  assumes "list_all lex_word w" and "w \<noteq> ''''" and "lex_quote d" and "d \<notin> set s" and "backslash \<notin> set s"
  shows "lex_tokens (w @ d # s) = Inl ValueError"
proof -
  from assms obtain c cs where w: "w = c # cs" "lex_word c" "list_all lex_word cs" by (cases w) auto
  then have "read_token Between Between False '''' (w @ d # s) = Inl ValueError"
    using assms by (simp add: read_token.simps(3) word_not_special read_word_then_quote)
  then show ?thesis by (simp add: lex_tokens.simps)
qed


end
