(* ===== verification/File_Resolver.thy ===== *)
theory File_Resolver
  imports Host_Files File_Matcher Shell_Lexer
begin

text \<open>
  \<^verbatim>\<open>FileResolver\<close> of \<^verbatim>\<open>cincan/file_tool.py\<close>: which host files a command line names, the names
  they get in the archive sent to the container, and the command line rewritten to those names.
  The object is a record; the set \<^verbatim>\<open>already_listed\<close> that its methods pass to each other by
  reference is a field of it.  The host file system does not change while the resolver runs.
\<close>

record resolver =
  host_files :: "ppath list"
  command_args :: "string list"
  output_dirs :: "ppath set"
  already_listed :: "ppath set"

section \<open>Archive names\<close>

definition contains :: "string \<Rightarrow> string \<Rightarrow> bool" where
  "contains s sub \<longleftrightarrow> find_sub sub s \<noteq> None"

definition use_absolute_path :: "ppath \<Rightarrow> bool" where
  "use_absolute_path p \<longleftrightarrow> is_absolute p \<or> contains (as_posix p) ''..''"

definition archive_name_for :: "host \<Rightarrow> ppath \<Rightarrow> ppath \<times> string" where
  "archive_name_for h p =
     (if use_absolute_path p
      then let r = resolve h p; a = as_posix r
           in (r, if startswith a ''/'' then drop 1 a else a)
      else (p, as_posix p))"

section \<open>Finding the files of an argument\<close>

text \<open>\<^verbatim>\<open>if h_file not in already_listed\<close>: list a file once.\<close>

definition list_file :: "ppath \<Rightarrow> resolver \<Rightarrow> resolver" where
  "list_file f st =
     (if f \<notin> already_listed st
      then st\<lparr>host_files := host_files st @ [f], already_listed := insert f (already_listed st)\<rparr>
      else st)"

text \<open>
  \<^verbatim>\<open>__include_sub_dirs\<close> calls itself for every directory; \<open>n\<close> is how much deeper the
  interpreter's stack lets it go before it raises \<^verbatim>\<open>RecursionError\<close>.
\<close>

fun include_sub_dirs :: "nat \<Rightarrow> host \<Rightarrow> ppath list \<Rightarrow> resolver \<Rightarrow> resolver result" where
  "include_sub_dirs n h [] st = Inr st"
| "include_sub_dirs n h (f # fs) st =
     (let st1 = list_file f st
      in bindr
           (if is_dir h f
            then (case n of
                    0 \<Rightarrow> Inl RecursionError
                  | Suc m \<Rightarrow> include_sub_dirs m h (iterdir h f) st1)
            else Inr st1)
           (\<lambda>st2. include_sub_dirs n h fs st2))"

text \<open>
  The loop over the parents of a relative path: is there an existing directory on the way that
  is not listed yet?  (The caller rules absolute paths out, so the last parent is \<open>.\<close>.)
\<close>

function parent_dir_found :: "host \<Rightarrow> ppath list \<Rightarrow> ppath \<Rightarrow> bool" where
  "parent_dir_found h listed p =
     (if as_posix p = ''.'' \<or> pparts p = [] then False
      else if is_dir h p \<and> p \<notin> set listed then True
      else parent_dir_found h listed (parent p))"
  by pat_completeness auto
termination
  by (relation "measure (\<lambda>(h, listed, p). length (pparts p))") (auto simp: parent_def)

declare parent_dir_found.simps [simp del]

definition trailing_slashes :: "string \<Rightarrow> nat" where
  "trailing_slashes path = length (takeWhile (\<lambda>c. c = slash) (rev (drop 1 path)))"

text \<open>\<^verbatim>\<open>__file_exists(path, already_listed, parent_check)\<close>.\<close>

definition file_exists ::
  "nat \<Rightarrow> host \<Rightarrow> string \<Rightarrow> bool \<Rightarrow> resolver \<Rightarrow> (string option \<times> resolver) result" where
  "file_exists n h path parent_check st =
     (let o_file = parse_path path;
          there = path_exists h o_file \<and> \<not> list_all (\<lambda>c. c = slash) path
      in if \<not> there \<and> \<not> parent_check \<and> CHR '' '' \<notin> set path then Inr (None, st)
         else
           let found = there \<or>
                 (\<not> is_absolute o_file \<and> \<not> contains (as_posix o_file) ''..'' \<and>
                  parent_dir_found h (host_files st) (parent o_file))
           in if \<not> found then Inr (None, st)
              else
                case archive_name_for h o_file of
                  (h_file, a_name) \<Rightarrow>
                    let st1 = list_file h_file st;
                        a = a_name @ replicate (trailing_slashes path) slash
                    in bindr
                         (if is_dir h o_file \<and> o_file \<notin> output_dirs st1
                          then include_sub_dirs n h (iterdir h o_file) st1
                          else Inr st1)
                         (\<lambda>st2. Inr (Some a, st2)))"

section \<open>The command line\<close>

definition push_arg :: "string \<Rightarrow> resolver \<Rightarrow> resolver" where
  "push_arg a st = st\<lparr>command_args := command_args st @ [a]\<rparr>"

text \<open>A name is used where Python finds it true: there, and not empty.\<close>

definition named :: "string option \<Rightarrow> bool" where
  "named a \<longleftrightarrow> (case a of None \<Rightarrow> False | Some s \<Rightarrow> s \<noteq> '''')"

definition analyze_part ::
  "nat \<Rightarrow> host \<Rightarrow> (string \<times> string) list \<times> resolver \<Rightarrow> string \<Rightarrow>
   ((string \<times> string) list \<times> resolver) result" where
  "analyze_part n h acc part =
     (case acc of (modified, st) \<Rightarrow>
        bindr (file_exists n h part True st)
          (\<lambda>(a, st'). Inr (if named a then modified @ [(part, the a)] else modified, st')))"

definition analyze_arg :: "nat \<Rightarrow> host \<Rightarrow> resolver \<Rightarrow> string \<Rightarrow> resolver result" where
  "analyze_arg n h st o_arg =
     bindr (file_exists n h o_arg False st)
       (\<lambda>(a, st1).
          if named a then Inr (push_arg (the a) st1)
          else
            bindr (lex_tokens o_arg) (\<lambda>parts.
            bindr (foldm (analyze_part n h) ([], st1) parts) (\<lambda>(modified, st2).
              Inr (push_arg (fold (\<lambda>(m_part, m_name) s. replaced m_part m_name s) modified o_arg) st2))))"

definition analyze :: "nat \<Rightarrow> host \<Rightarrow> string list \<Rightarrow> resolver \<Rightarrow> resolver result" where
  "analyze n h original_args st =
     foldm (analyze_arg n h) (st\<lparr>command_args := [], already_listed := output_dirs st\<rparr>) original_args"

text \<open>The constructor: \<open>dirs\<close> and \<open>filters\<close> are empty where Python passes \<^verbatim>\<open>None\<close>.\<close>

definition new_resolver ::
  "nat \<Rightarrow> host \<Rightarrow> string list \<Rightarrow> string list \<Rightarrow> bool \<Rightarrow> file_matcher list \<Rightarrow> resolver result" where
  "new_resolver n h args dirs do_resolve filters =
     (let st = \<lparr>host_files = map parse_path dirs, command_args = args,
                output_dirs = set (map parse_path dirs), already_listed = {}\<rparr>
      in if do_resolve
         then bindr (analyze n h args st)
                (\<lambda>st'. Inr (st'\<lparr>host_files := fold filter_upload_files filters (host_files st')\<rparr>))
         else Inr st)"

section \<open>What to upload\<close>

text \<open>\<^verbatim>\<open>while not p.exists(): p = p.parent\<close>: the root and the working directory exist.\<close>

function existing_ancestor :: "host \<Rightarrow> ppath \<Rightarrow> ppath" where
  "existing_ancestor h p =
     (if path_exists h p \<or> pparts p = [] then p else existing_ancestor h (parent p))"
  by pat_completeness auto
termination
  by (relation "measure (\<lambda>(h, p). length (pparts p))") (auto simp: parent_def)

declare existing_ancestor.simps [simp del]

definition detect_upload_files :: "host \<Rightarrow> resolver \<Rightarrow> ppath list option \<Rightarrow> ppath list" where
  "detect_upload_files h st files =
     (let it_files = (case files of None \<Rightarrow> sort (host_files st) | Some fs \<Rightarrow> fs);
          res = filter (\<lambda>f. path_exists h f \<or> f \<in> output_dirs st) it_files
      in if files = None
         then
           let all_dirs = set res \<union> \<Union> (set ` parents ` set res)
           in fold (\<lambda>f res.
                      let p = existing_ancestor h (parent f)
                      in if p \<notin> all_dirs then res @ [p] else res)
                (filter (\<lambda>f. \<not> path_exists h f) it_files) res
         else res)"

definition resolve_upload_files ::
  "host \<Rightarrow> resolver \<Rightarrow> (ppath, string) dict \<Rightarrow> string list \<times> (ppath, string) dict" where
  "resolve_upload_files h st upload_files =
     (command_args st,
      fold (\<lambda>up_file d. case archive_name_for h up_file of (h_file, a_name) \<Rightarrow> dict_put h_file a_name d)
        (detect_upload_files h st None) upload_files)"

section \<open>The listed files\<close>

text \<open>
  A file is below a path when it is reached through directories listed by \<^verbatim>\<open>iterdir\<close>.  Including
  the sub-directories lists what is below, and all of it.
\<close>

inductive below :: "host \<Rightarrow> ppath \<Rightarrow> ppath \<Rightarrow> bool" for h :: host where
  itself: "below h f f"
| inside: "is_dir h f \<Longrightarrow> k \<in> set (iterdir h f) \<Longrightarrow> below h k g \<Longrightarrow> below h f g"

inductive_simps below_iff: "below h f g"

lemma list_file_simps [simp]:
  "already_listed (list_file f st) = insert f (already_listed st)"
  "command_args (list_file f st) = command_args st"
  "output_dirs (list_file f st) = output_dirs st"
  by (auto simp: list_file_def)

lemma include_sub_dirs_exact:
  "include_sub_dirs n h fs st = Inr st' \<Longrightarrow>
     already_listed st' = already_listed st \<union> {g. \<exists>f \<in> set fs. below h f g} \<and>
     command_args st' = command_args st \<and> output_dirs st' = output_dirs st"
proof (induction n h fs st arbitrary: st' rule: include_sub_dirs.induct)
  case (1 n h st)
  then show ?case by simp
next
  case (2 n h f fs st)
  let ?st1 = "list_file f st"
  from "2.prems" obtain st2 where
    first: "(if is_dir h f
            then (case n of 0 \<Rightarrow> Inl RecursionError | Suc m \<Rightarrow> include_sub_dirs m h (iterdir h f) ?st1)
            else Inr ?st1) = Inr st2"
    and rest: "include_sub_dirs n h fs st2 = Inr st'"
    by (auto simp: Let_def elim!: bindrE)
  have st2: "already_listed st2 = already_listed st \<union> {g. below h f g} \<and>
      command_args st2 = command_args st \<and> output_dirs st2 = output_dirs st"
  proof (cases "is_dir h f")
    case False
    with first have "st2 = ?st1" by simp
    moreover from False have "{g. below h f g} = {f}" by (auto simp: below_iff [of h f])
    ultimately show ?thesis by simp
  next
    case True
    with first obtain m where m: "n = Suc m" "include_sub_dirs m h (iterdir h f) ?st1 = Inr st2"
      by (auto split: nat.splits)
    have "{g. below h f g} = insert f {g. \<exists>k \<in> set (iterdir h f). below h k g}"
      using True by (auto simp: below_iff [of h f])
    with "2.IH"(1) [OF refl True m] show ?thesis by simp
  qed
  have "already_listed st' = already_listed st2 \<union> {g. \<exists>f \<in> set fs. below h f g} \<and>
      command_args st' = command_args st2 \<and> output_dirs st' = output_dirs st2"
    by (rule "2.IH"(2) [OF refl first rest])
  with st2 show ?case by auto
qed

text \<open>
  The invariant of the analysis: the set of listed files is the set of the list, no file is
  listed twice, and every listed file is a well-formed path.
\<close>

definition wf_name :: "string \<Rightarrow> bool" where
  "wf_name s \<longleftrightarrow> wf_part s \<and> s \<noteq> dotdot"

definition wf_host :: "host \<Rightarrow> bool" where
  "wf_host h \<longleftrightarrow>
     list_all wf_name (cwd h) \<and> list_all (\<lambda>e. fst e \<noteq> [] \<and> list_all wf_name (fst e)) (tree h) \<and>
     dir_at h (cwd h)"

definition listing_inv :: "resolver \<Rightarrow> bool" where
  "listing_inv st \<longleftrightarrow>
     already_listed st = set (host_files st) \<and> distinct (host_files st) \<and>
     list_all wf_path (host_files st)"

lemma listing_inv_push [simp]: "listing_inv (push_arg a st) = listing_inv st"
  by (simp add: listing_inv_def push_arg_def)

lemma listing_inv_list_file: "listing_inv st \<Longrightarrow> wf_path f \<Longrightarrow> listing_inv (list_file f st)"
  by (auto simp: listing_inv_def list_file_def)

lemma wf_child:
  assumes "wf_host h" and "c \<in> set (children h l)"
  shows "wf_name c"
proof -
  from assms(2) obtain e where "e \<in> set (tree h)" "fst e \<noteq> []" "c = last (fst e)"
    by (auto simp: children_def)
  with assms(1) show ?thesis by (auto simp: wf_host_def list_all_iff)
qed

lemma wf_iterdir:
  assumes h: "wf_host h" and p: "wf_path p" and k: "k \<in> set (iterdir h p)"
  shows "wf_path k"
proof -
  from k obtain l n where "n \<in> set (children h l)" and kk: "k = PPath (proot p) (pparts p @ [n])"
    by (cases "locate h p") (auto simp: iterdir_def)
  with wf_child [OF h] have "wf_part n" by (auto simp: wf_name_def)
  with p kk show ?thesis by (simp add: wf_path_def)
qed

lemma wf_collapse:
  "list_all wf_name cur \<Longrightarrow> list_all wf_part ps \<Longrightarrow> list_all wf_name (collapse cur ps)"
proof (induction cur ps rule: collapse.induct)
  case (1 cur)
  then show ?case by simp
next
  case (2 cur n ns)
  have "list_all wf_name (if n = dotdot then butlast cur else cur @ [n])"
    using "2.prems" by (auto simp: wf_name_def list_all_iff dest: in_set_butlastD)
  with "2.IH" "2.prems"(2) show ?case by simp
qed

lemma wf_base_of: "wf_host h \<Longrightarrow> list_all wf_name (base_of h p)"
  by (simp add: base_of_def wf_host_def)

lemma wf_resolve_names:
  "wf_host h \<Longrightarrow> wf_path p \<Longrightarrow> list_all wf_name (pparts (resolve h p))"
  by (simp add: resolve_def wf_collapse wf_base_of wf_path_def)

lemma wf_resolve: "wf_host h \<Longrightarrow> wf_path p \<Longrightarrow> wf_path (resolve h p)"
  using wf_resolve_names [of h p]
  by (auto simp: wf_path_def resolve_def wf_name_def list_all_iff)

lemma wf_archive_path:
  "wf_host h \<Longrightarrow> wf_path p \<Longrightarrow> archive_name_for h p = (f, a) \<Longrightarrow> wf_path f"
  by (auto simp: archive_name_for_def Let_def wf_resolve split: if_splits)

lemma include_sub_dirs_inv:
  "include_sub_dirs n h fs st = Inr st' \<Longrightarrow> wf_host h \<Longrightarrow> list_all wf_path fs \<Longrightarrow>
     listing_inv st \<Longrightarrow> listing_inv st'"
proof (induction n h fs st arbitrary: st' rule: include_sub_dirs.induct)
  case (1 n h st)
  then show ?case by simp
next
  case (2 n h f fs st)
  let ?st1 = "list_file f st"
  from "2.prems"(1) obtain st2 where
    first: "(if is_dir h f
            then (case n of 0 \<Rightarrow> Inl RecursionError | Suc m \<Rightarrow> include_sub_dirs m h (iterdir h f) ?st1)
            else Inr ?st1) = Inr st2"
    and rest: "include_sub_dirs n h fs st2 = Inr st'"
    by (auto simp: Let_def elim!: bindrE)
  from "2.prems" have wf: "wf_path f" "list_all wf_path fs" by auto
  have st1: "listing_inv ?st1" using "2.prems"(4) wf(1) by (rule listing_inv_list_file)
  have "listing_inv st2"
  proof (cases "is_dir h f")
    case True
    with first obtain m where m: "n = Suc m" "include_sub_dirs m h (iterdir h f) ?st1 = Inr st2"
      by (auto split: nat.splits)
    have "list_all wf_path (iterdir h f)"
      using wf_iterdir [OF "2.prems"(2) wf(1)] by (simp add: list_all_iff)
    from "2.IH"(1) [OF refl True m "2.prems"(2) this st1] show ?thesis .
  qed (use first st1 in simp)
  from "2.IH"(2) [OF refl first rest "2.prems"(2) wf(2) this] show ?case .
qed

section \<open>The stack is deep enough\<close>

text \<open>
  The recursion goes down the tree, so a stack deeper than the tree never overflows.
\<close>

definition depth :: "host \<Rightarrow> nat" where
  "depth h = fold max (map (\<lambda>e. length (fst e)) (tree h)) 0"

lemma fold_max_ge: "(m::nat) \<le> fold max ms m"
  by (induction ms arbitrary: m) (auto intro: le_trans [OF max.cobounded2])

lemma fold_max_bound: "x \<in> set ms \<Longrightarrow> (x::nat) \<le> fold max ms m"
proof (induction ms arbitrary: m)
  case (Cons y ms)
  then show ?case using fold_max_ge [of "max x m" ms] by auto
qed simp

lemma depth_bound: "node_at h l \<noteq> None \<Longrightarrow> length l \<le> depth h"
proof (cases "l = []")
  case False
  assume "node_at h l \<noteq> None"
  with False obtain n where "(l, n) \<in> set (tree h)"
    by (auto simp: node_at_def entry_at_def dest: map_of_SomeD)
  then show ?thesis unfolding depth_def by (intro fold_max_bound) force
qed simp

lemma is_dir_located: "is_dir h f \<Longrightarrow> \<exists>l. locate h f = Inr l \<and> dir_at h l"
  by (auto simp: is_dir_def find_node_def dir_at_def split: sum.splits)

lemma iterdir_located:
  assumes h: "wf_host h" and d: "locate h f = Inr l" "dir_at h l" and k: "k \<in> set (iterdir h f)"
  shows "\<exists>m. locate h k = Inr m \<and> length m = Suc (length l)"
proof -
  from k d(1) obtain n where n: "n \<in> set (children h l)" and kk: "k = PPath (proot f) (pparts f @ [n])"
    by (auto simp: iterdir_def)
  from wf_child [OF h n] have "n \<noteq> dotdot" by (simp add: wf_name_def)
  moreover have "base_of h k = base_of h f" by (simp add: kk base_of_def is_absolute_def)
  ultimately have "locate h k = Inr (l @ [n])"
    using d kk by (simp add: locate_def walk_append)
  then show ?thesis by simp
qed

lemma include_sub_dirs_no_overflow:
  "wf_host h \<Longrightarrow>
   (\<And>f l. f \<in> set fs \<Longrightarrow> is_dir h f \<Longrightarrow> locate h f = Inr l \<Longrightarrow> depth h < length l + n) \<Longrightarrow>
     \<exists>st'. include_sub_dirs n h fs st = Inr st'"
proof (induction n h fs st rule: include_sub_dirs.induct)
  case (1 n h st)
  then show ?case by simp
next
  case (2 n h f fs st)
  have "\<exists>st2. (if is_dir h f
       then (case n of 0 \<Rightarrow> Inl RecursionError
             | Suc m \<Rightarrow> include_sub_dirs m h (iterdir h f) (list_file f st))
       else Inr (list_file f st)) = Inr st2"
  proof (cases "is_dir h f")
    case True
    then obtain l where l: "locate h f = Inr l" "dir_at h l" using is_dir_located by blast
    from l(2) have "length l \<le> depth h" by (intro depth_bound) (auto simp: dir_at_def split: option.splits)
    moreover have "depth h < length l + n" using "2.prems"(2) [of f l] True l(1) by simp
    ultimately obtain m where m: "n = Suc m" by (cases n) auto
    have "depth h < length k + m" if "g \<in> set (iterdir h f)" "locate h g = Inr k" for g k
      using iterdir_located [OF "2.prems"(1) l that(1)] that(2) \<open>depth h < length l + n\<close> m by auto
    with "2.IH"(1) [OF refl True m "2.prems"(1)] True m show ?thesis by auto
  qed simp
  then obtain st2 where st2: "(if is_dir h f
       then (case n of 0 \<Rightarrow> Inl RecursionError
             | Suc m \<Rightarrow> include_sub_dirs m h (iterdir h f) (list_file f st))
       else Inr (list_file f st)) = Inr st2" by blast
  from "2.IH"(2) [OF refl st2 "2.prems"(1)] "2.prems"(2)
  obtain st' where "include_sub_dirs n h fs st2 = Inr st'" by (metis list.set_intros(2))
  with st2 show ?case by (simp add: Let_def)
qed


section \<open>The analysis as a whole\<close>

text \<open>One file name examined: what it does to the state.\<close>

lemma file_exists_state:
  assumes r: "file_exists n h path parent_check st = Inr (a, st')"
  shows "command_args st' = command_args st \<and> output_dirs st' = output_dirs st \<and>
    (a = None \<longrightarrow> st' = st) \<and> already_listed st \<subseteq> already_listed st' \<and>
    (wf_host h \<longrightarrow> listing_inv st \<longrightarrow> listing_inv st')"
proof -
  let ?o = "parse_path path"
  obtain h_file a_name where ar: "archive_name_for h ?o = (h_file, a_name)" by fastforce
  let ?st1 = "list_file h_file st"
  from r have "st' = st \<and> a = None \<or>
      a \<noteq> None \<and> (if is_dir h ?o \<and> ?o \<notin> output_dirs ?st1
        then include_sub_dirs n h (iterdir h ?o) ?st1 else Inr ?st1) = Inr st'"
    unfolding file_exists_def Let_def ar prod.case
    by (simp split: if_splits) (auto elim!: bindrE)
  then show ?thesis
  proof (elim disjE conjE)
    assume "a \<noteq> None" and step: "(if is_dir h ?o \<and> ?o \<notin> output_dirs ?st1
        then include_sub_dirs n h (iterdir h ?o) ?st1 else Inr ?st1) = Inr st'"
    have inv1: "listing_inv ?st1" if "wf_host h" "listing_inv st"
      using listing_inv_list_file [OF that(2)] wf_archive_path [OF that(1) wf_parse_path ar] by simp
    show ?thesis
    proof (cases "is_dir h ?o \<and> ?o \<notin> output_dirs ?st1")
      case True
      with step have s: "include_sub_dirs n h (iterdir h ?o) ?st1 = Inr st'" by simp
      have "listing_inv st'" if "wf_host h" "listing_inv st"
        using include_sub_dirs_inv [OF s that(1) _ inv1 [OF that]]
          wf_iterdir [OF that(1) wf_parse_path] by (auto simp: list_all_iff)
      with include_sub_dirs_exact [OF s] \<open>a \<noteq> None\<close> show ?thesis by auto
    next
      case False
      with step inv1 \<open>a \<noteq> None\<close> show ?thesis by auto
    qed
  qed simp
qed

lemma analyze_part_state:
  assumes "analyze_part n h (ms, st) part = Inr (ms', st')"
  shows "command_args st' = command_args st \<and> output_dirs st' = output_dirs st \<and>
    (wf_host h \<longrightarrow> listing_inv st \<longrightarrow> listing_inv st')"
  using assms by (auto simp: analyze_part_def dest!: file_exists_state elim!: bindrE)

lemma analyze_parts_state:
  assumes "foldm (analyze_part n h) (ms, st) parts = Inr (ms', st')"
  shows "command_args st' = command_args st \<and> output_dirs st' = output_dirs st \<and>
    (wf_host h \<longrightarrow> listing_inv st \<longrightarrow> listing_inv st')"
proof -
  let ?P = "\<lambda>(ms, t). command_args t = command_args st \<and> output_dirs t = output_dirs st \<and>
      (wf_host h \<longrightarrow> listing_inv st \<longrightarrow> listing_inv t)"
  have "?P (ms', st')"
  proof (rule foldm_invariant [OF assms, where P = ?P])
    fix t x t'
    assume "?P t" and "analyze_part n h t x = Inr t'"
    then show "?P t'"
      using analyze_part_state [of n h "fst t" "snd t" x "fst t'" "snd t'"] by (auto simp: split_beta)
  qed simp
  then show ?thesis by simp
qed

lemma analyze_arg_state:
  assumes "analyze_arg n h st arg = Inr st'"
  shows "(\<exists>a. command_args st' = command_args st @ [a]) \<and> output_dirs st' = output_dirs st \<and>
    (wf_host h \<longrightarrow> listing_inv st \<longrightarrow> listing_inv st')"
proof -
  from assms obtain a st1 where f: "file_exists n h arg False st = Inr (a, st1)"
    and r: "(if named a then Inr (push_arg (the a) st1)
          else
            bindr (lex_tokens arg) (\<lambda>parts.
            bindr (foldm (analyze_part n h) ([], st1) parts) (\<lambda>(modified, st2).
              Inr (push_arg (fold (\<lambda>(m_part, m_name) s. replaced m_part m_name s) modified arg) st2)))) = Inr st'"
    unfolding analyze_arg_def by (auto elim!: bindrE)
  note st1 = file_exists_state [OF f]
  show ?thesis
  proof (cases "named a")
    case True
    with r st1 show ?thesis by (auto simp: push_arg_def listing_inv_def)
  next
    case False
    with r obtain parts ms st2 x where p: "foldm (analyze_part n h) ([], st1) parts = Inr (ms, st2)"
      and st': "st' = push_arg x st2"
      by (auto elim!: bindrE)
    from analyze_parts_state [OF p] st1 st' show ?thesis by (auto simp: push_arg_def listing_inv_def)
  qed
qed

lemma analyze_args_state:
  "foldm (analyze_arg n h) st args = Inr st' \<Longrightarrow>
     length (command_args st') = length (command_args st) + length args \<and>
     output_dirs st' = output_dirs st \<and> (wf_host h \<longrightarrow> listing_inv st \<longrightarrow> listing_inv st')"
proof (induction args arbitrary: st)
  case (Cons arg args)
  then obtain st1 where one: "analyze_arg n h st arg = Inr st1"
    and rest: "foldm (analyze_arg n h) st1 args = Inr st'" by (auto elim!: bindrE)
  from analyze_arg_state [OF one] Cons.IH [OF rest] show ?case by auto
qed simp



lemma new_resolver_state:
  assumes "new_resolver n h args dirs True filters = Inr st"
  obtains st' where "foldm (analyze_arg n h)
      \<lparr>host_files = map parse_path dirs, command_args = [],
       output_dirs = set (map parse_path dirs), already_listed = set (map parse_path dirs)\<rparr> args = Inr st'"
    and "st = st'\<lparr>host_files := fold filter_upload_files filters (host_files st')\<rparr>"
  using assms unfolding new_resolver_def analyze_def by (auto simp: Let_def elim!: bindrE)

lemma initial_listing:
  "distinct (map parse_path dirs) \<Longrightarrow>
     listing_inv \<lparr>host_files = map parse_path dirs, command_args = [],
       output_dirs = set (map parse_path dirs), already_listed = set (map parse_path dirs)\<rparr>"
  by (simp add: listing_inv_def list_all_iff)

lemma new_resolver_wf:
  assumes h: "wf_host h" and r: "new_resolver n h args dirs do_resolve filters = Inr st"
    and d: "distinct (map parse_path dirs)"
  shows "list_all wf_path (host_files st) \<and> distinct (host_files st) \<and>
    length (command_args st) = length args \<and> output_dirs st = set (map parse_path dirs)"
proof (cases do_resolve)
  case False
  with r d have "st = \<lparr>host_files = map parse_path dirs, command_args = args,
      output_dirs = set (map parse_path dirs), already_listed = {}\<rparr>"
    by (simp add: new_resolver_def)
  with d show ?thesis by (simp add: list_all_iff)
next
  case True
  with r obtain st' where fold: "foldm (analyze_arg n h)
      \<lparr>host_files = map parse_path dirs, command_args = [],
       output_dirs = set (map parse_path dirs), already_listed = set (map parse_path dirs)\<rparr> args = Inr st'"
    and st: "st = st'\<lparr>host_files := fold filter_upload_files filters (host_files st')\<rparr>"
    using new_resolver_state [of n h args dirs filters st] by auto
  from analyze_args_state [OF fold] initial_listing [OF d] h have
    "listing_inv st'" "length (command_args st') = length args" "output_dirs st' = set (map parse_path dirs)"
    by auto
  with st show ?thesis
    by (simp add: listing_inv_def uploads.run_all list_all_iff)
qed

section \<open>Archive names stay inside\<close>

lemma find_sub_occurs: "find_sub sub (a @ sub @ b) \<noteq> None"
  using find_sub_None [of sub "a @ sub @ b"] by (auto intro!: exI [of _ "length a"])

lemma part_in_posix: "x \<in> set ps \<Longrightarrow> \<exists>a b. joined [slash] ps = a @ x @ b"
proof (induction ps)
  case (Cons y ps)
  show ?case
  proof (cases "x = y")
    case True
    then show ?thesis by (cases ps) (auto intro: exI [of _ "[]"])
  next
    case False
    with Cons obtain a b where "joined [slash] ps = a @ x @ b" by auto
    moreover from Cons.prems False have "ps \<noteq> []" by auto
    ultimately have "joined [slash] (y # ps) = (y @ [slash] @ a) @ x @ b" by (simp add: joined_Cons)
    then show ?thesis by blast
  qed
qed simp

lemma no_dotdot_part: "\<not> use_absolute_path p \<Longrightarrow> dotdot \<notin> set (pparts p)"
proof
  assume "\<not> use_absolute_path p" and d: "dotdot \<in> set (pparts p)"
  then have rel: "proot p = ''''" and none: "find_sub ''..'' (as_posix p) = None"
    by (auto simp: use_absolute_path_def is_absolute_def contains_def)
  from part_in_posix [OF d] obtain a b where "joined [slash] (pparts p) = a @ dotdot @ b" by blast
  with rel d have "as_posix p = a @ ''..'' @ b" by (auto simp: as_posix_def dotdot_def)
  with none find_sub_occurs [of "''..''" a b] show False by simp
qed

lemma parse_after_root:
  assumes "list_all wf_part ps"
  shows "parse_path (drop 1 (as_posix (PPath ''/'' ps))) = PPath '''' ps"
proof -
  have "drop 1 (as_posix (PPath ''/'' ps)) = joined [slash] ps" by (simp add: as_posix_def)
  moreover have "parse_path (joined [slash] ps) = PPath '''' ps"
  proof (cases "ps = []")
    case True
    then show ?thesis by (simp add: parse_path_def root_of_def)
  next
    case False
    then have "joined [slash] ps = as_posix (PPath '''' ps)" by (simp add: as_posix_def)
    with assms show ?thesis by (simp add: wf_path_def)
  qed
  ultimately show ?thesis by simp
qed

lemma archive_name_inside:
  assumes h: "wf_host h" and p: "wf_path p" and a: "archive_name_for h p = (f, a)"
  shows "proot (parse_path a) = '''' \<and> dotdot \<notin> set (pparts (parse_path a))"
proof (cases "use_absolute_path p")
  case False
  with a p no_dotdot_part [OF False] show ?thesis
    by (auto simp: archive_name_for_def use_absolute_path_def is_absolute_def)
next
  case True
  let ?ps = "pparts (resolve h p)"
  have names: "list_all wf_name ?ps" by (rule wf_resolve_names [OF h p])
  then have parts: "list_all wf_part ?ps" by (auto simp: list_all_iff wf_name_def)
  have root: "resolve h p = PPath ''/'' ?ps" by (simp add: resolve_def)
  then have "prefix ''/'' (as_posix (resolve h p))" by (metis as_posix_def append_is_Nil_conv
        list.distinct(1) ppath.sel(1) prefixI)
  with a True have "a = drop 1 (as_posix (resolve h p))"
    by (auto simp: archive_name_for_def Let_def)
  moreover have "parse_path (drop 1 (as_posix (resolve h p))) = PPath '''' ?ps"
    using parse_after_root [OF parts] root by metis
  ultimately show ?thesis using names by (auto simp: list_all_iff wf_name_def)
qed

lemma archive_name_text:
  assumes "archive_name_for h p = (f, a)"
  shows "as_posix f = (if is_absolute f then slash # a else a)"
proof (cases "use_absolute_path p")
  case False
  with assms show ?thesis by (auto simp: archive_name_for_def use_absolute_path_def)
next
  case True
  let ?r = "resolve h p"
  have root: "?r = PPath ''/'' (pparts ?r)" by (simp add: resolve_def)
  then obtain t where "as_posix ?r = slash # t" by (metis as_posix_def append_Cons append_Nil list.distinct(1) ppath.sel(1) slash_def)
  with True assms root show ?thesis
    by (auto simp: archive_name_for_def Let_def is_absolute_def slash_def)
qed

lemma fold_dict_put_entries:
  "(k, v) \<in> set (fold (\<lambda>x d. case g x of (k, v) \<Rightarrow> dict_put k v d) xs d) \<Longrightarrow>
     (k, v) \<in> set d \<or> (\<exists>x \<in> set xs. g x = (k, v))"
proof (induction xs arbitrary: d)
  case (Cons x xs)
  have "(k, v) \<in> set (dict_put k' v' d) \<Longrightarrow> (k, v) \<in> set d \<or> (k, v) = (k', v')" for k' v' d
    by (induction d) (auto split: if_splits)
  with Cons show ?case by (fastforce split: prod.splits)
qed simp

lemma wf_existing_ancestor: "wf_path p \<Longrightarrow> wf_path (existing_ancestor h p)"
proof (induction h p rule: existing_ancestor.induct)
  case (1 h p)
  then show ?case by (subst existing_ancestor.simps) auto
qed

lemma fold_append_if:
  "set (fold (\<lambda>f res. let p = g f in if P p then res @ [p] else res) xs res) \<subseteq> set res \<union> g ` set xs"
proof (induction xs arbitrary: res)
  case (Cons x xs)
  show ?case
    using Cons.IH [of "let p = g x in if P p then res @ [p] else res"]
    by (auto simp: Let_def split: if_splits)
qed simp

lemma detect_upload_members:
  "set (detect_upload_files h st None) \<subseteq>
     {f \<in> set (host_files st). path_exists h f \<or> f \<in> output_dirs st} \<union>
     {existing_ancestor h (parent f) | f. f \<in> set (host_files st) \<and> \<not> path_exists h f}"
  unfolding detect_upload_files_def
  by (simp add: Let_def del: not_None_eq)
    (rule order_trans [OF fold_append_if [unfolded Let_def]], auto)

lemma wf_detected:
  "list_all wf_path (host_files st) \<Longrightarrow> f \<in> set (detect_upload_files h st None) \<Longrightarrow> wf_path f"
  using detect_upload_members [of h st] by (auto simp: list_all_iff wf_existing_ancestor)


section \<open>Properties\<close>

text \<open>A host the witnesses run on.\<close>

definition demo_host :: host where
  "demo_host =
     \<lparr>cwd = [''w''],
      tree = [([''w''], DirNode 0), ([''w'', ''a.txt''], FileNode [1] 0),
              ([''w'', ''in''], DirNode 0), ([''w'', ''in'', ''b.txt''], FileNode [2] 0),
              ([''w'', ''in'', ''sub''], DirNode 0), ([''w'', ''in'', ''sub'', ''c''], FileNode [3] 0)]\<rparr>"





text \<open>
  An argument that is a word followed by an apostrophe, and names no file, stops the program
  with a \<^verbatim>\<open>ValueError\<close> of the shell lexer before anything is run.
\<close>

theorem apostrophe_argument_raises:
  assumes "list_all lex_word w" and "w \<noteq> ''''" and "lex_quote d" and "d \<notin> set s"
    and "backslash \<notin> set s" and "CHR '' '' \<notin> set s"
    and "\<not> path_exists h (parse_path (w @ d # s))"
  shows "new_resolver n h [w @ d # s] [] True filters = Inl ValueError"
proof -
  have "\<not> lex_word (CHR '' '')" by code_simp
  with assms(1) have "CHR '' '' \<notin> set w" by (auto simp: list_all_iff)
  moreover from assms(3) have "d \<noteq> CHR '' ''" by (auto simp: lex_quote_def double_quote_def)
  ultimately have "CHR '' '' \<notin> set (w @ d # s)" using assms(6) by auto
  with assms(7) have "file_exists n h (w @ d # s) False st = Inr (None, st)" for st
    by (simp add: file_exists_def)
  moreover have "lex_tokens (w @ d # s) = Inl ValueError"
    using assms(1-5) by (rule lex_tokens_apostrophe)
  ultimately show ?thesis
    by (simp add: new_resolver_def analyze_def analyze_arg_def named_def)
qed

theorem apostrophe_argument_raises_witness:
  "new_resolver 5 demo_host [''it'' @ CHR 0x27 # ''s''] [] True [] = Inl ValueError"
  by (rule apostrophe_argument_raises; code_simp)

text \<open>
  C11: every file chosen for upload gets a relative archive name without \<open>..\<close>, so the archive cannot
  write outside the working directory of the container; the name is the path of the file on the
  host, less the slash that an absolute path begins with.  Each output directory is declared once.
\<close>

theorem archive_names_stay_inside:
  assumes "wf_host h" and "new_resolver n h args dirs do_resolve filters = Inr st"
    and "distinct (map parse_path dirs)"
  shows "list_all (\<lambda>(f, a). \<not> is_absolute (parse_path a) \<and> dotdot \<notin> set (pparts (parse_path a)) \<and>
      as_posix f = (if is_absolute f then slash # a else a))
    (snd (resolve_upload_files h st []))"
proof -
  let ?g = "archive_name_for h"
  let ?ups = "fold (\<lambda>x d. case ?g x of (k, v) \<Rightarrow> dict_put k v d) (detect_upload_files h st None) []"
  have wf: "wf_path f" if "f \<in> set (detect_upload_files h st None)" for f
    using new_resolver_wf [OF assms] wf_detected that by blast
  have "proot (parse_path a) = '''' \<and> dotdot \<notin> set (pparts (parse_path a)) \<and>
      as_posix f = (if is_absolute f then slash # a else a)"
    if "(f, a) \<in> set ?ups" for f a
  proof -
    from fold_dict_put_entries [OF that] obtain x where "x \<in> set (detect_upload_files h st None)"
      and g: "?g x = (f, a)" by auto
    with archive_name_inside [OF assms(1) wf g] archive_name_text [OF g] show ?thesis by simp
  qed
  then show ?thesis
    by (auto simp: resolve_upload_files_def list_all_iff is_absolute_def)
qed

theorem archive_names_stay_inside_witness:
  "\<exists>st. new_resolver 5 demo_host [''/w/a.txt'', ''in/../in''] [] True [] = Inr st \<and>
    list_all (\<lambda>(f, a). \<not> is_absolute (parse_path a) \<and> dotdot \<notin> set (pparts (parse_path a)) \<and>
        as_posix f = (if is_absolute f then slash # a else a))
      (snd (resolve_upload_files demo_host st []))"
proof -
  let ?r = "new_resolver 5 demo_host [''/w/a.txt'', ''in/../in''] [] True []"
  have w: "wf_host demo_host" and d: "distinct (map parse_path [])" by code_simp+
  have r: "?r = Inr (projr ?r)" by code_simp
  from archive_names_stay_inside [OF w r d] r show ?thesis by blast
qed

text \<open>
  Two files of the host can get the same archive name, one from an absolute argument and one from
  a relative one.
\<close>

definition twin_host :: host where
  "twin_host = \<lparr>cwd = [''h''], tree = [([''h''], DirNode 0), ([''h'', ''w''], DirNode 0),
     ([''h'', ''w'', ''f''], FileNode [1] 0), ([''w''], DirNode 0), ([''w'', ''f''], FileNode [2] 0)]\<rparr>"

theorem archive_names_collide:
  "\<exists>st. new_resolver 5 twin_host [''w/f'', ''/w/f''] [] True [] = Inr st \<and>
    set (snd (resolve_upload_files twin_host st [])) =
      {(PPath '''' [''w'', ''f''], ''w/f''), (PPath ''/'' [''w'', ''f''], ''w/f'')}"
proof -
  let ?r = "new_resolver 5 twin_host [''w/f'', ''/w/f''] [] True []"
  have "?r = Inr (projr ?r)" and "set (snd (resolve_upload_files twin_host (projr ?r) [])) =
      {(PPath '''' [''w'', ''f''], ''w/f''), (PPath ''/'' [''w'', ''f''], ''w/f'')}" by code_simp+
  then show ?thesis by blast
qed

text \<open>
  After the analysis the host files are well-formed paths without repetition, every original
  argument has become exactly one argument of the command, and the output directories are the
  ones given.
\<close>

theorem analysis_keeps_shape:
  assumes "wf_host h" and "new_resolver n h args dirs do_resolve filters = Inr st"
    and "distinct (map parse_path dirs)"
  shows "list_all wf_path (host_files st) \<and> distinct (host_files st) \<and>
    length (command_args st) = length args \<and> output_dirs st = set (map parse_path dirs)"
  using assms by (rule new_resolver_wf)

theorem analysis_keeps_shape_witness:
  "\<exists>st. new_resolver 5 demo_host [''-f'', ''in''] [''out''] True [] = Inr st \<and>
    list_all wf_path (host_files st) \<and> distinct (host_files st) \<and>
    length (command_args st) = length [''-f'', ''in''] \<and>
    output_dirs st = set (map parse_path [''out''])"
proof -
  let ?r = "new_resolver 5 demo_host [''-f'', ''in''] [''out''] True []"
  have w: "wf_host demo_host" and d: "distinct (map parse_path [''out''])" by code_simp+
  have r: "?r = Inr (projr ?r)" by code_simp
  from analysis_keeps_shape [OF w r d] r show ?thesis by blast
qed



text \<open>
  An argument made of word characters that neither exists nor lies below an existing
  directory reaches the tool unchanged, and nothing is uploaded for it.
\<close>

theorem unrelated_argument_unchanged:
  assumes "list_all lex_word arg" and "arg \<noteq> ''''"
    and "\<not> path_exists h (parse_path arg)"
    and "is_absolute (parse_path arg) \<or>
      \<not> parent_dir_found h (host_files st) (parent (parse_path arg))"
  shows "analyze_arg n h st arg = Inr (st\<lparr>command_args := command_args st @ [arg]\<rparr>)"
proof -
  have "file_exists n h arg pc st = Inr (None, st)" for pc
    using assms(3,4) by (auto simp: file_exists_def Let_def)
  with lex_tokens_word [OF assms(1,2)] show ?thesis
    by (simp add: analyze_arg_def analyze_part_def named_def push_arg_def)
qed

theorem unrelated_argument_unchanged_witness:
  "analyze_arg 5 demo_host
     \<lparr>host_files = [], command_args = [''ls''], output_dirs = {}, already_listed = {}\<rparr> ''-la'' =
   Inr (\<lparr>host_files = [], command_args = [''ls''], output_dirs = {}, already_listed = {}\<rparr>
     \<lparr>command_args :=
       command_args \<lparr>host_files = [], command_args = [''ls''], output_dirs = {}, already_listed = {}\<rparr> @ [''-la'']\<rparr>)"
  by (rule unrelated_argument_unchanged; code_simp)

text \<open>
  The root directory is recognised only when the argument is made of slashes; written with a
  dot it is taken for an ordinary directory, and every file of the host is listed for upload.
\<close>

theorem dotted_root_lists_host:
  assumes "wf_host h" and "depth h < n" and "PPath ''/'' [] \<notin> output_dirs st"
  shows "\<exists>a st'. file_exists n h ''/.'' parent_check st = Inr (Some a, st') \<and>
    {g. below h (PPath ''/'' []) g} \<subseteq> already_listed st'"
proof -
  let ?root = "PPath ''/'' []"
  have o: "parse_path ''/.'' = ?root" by code_simp
  have root: "find_node h ?root = Some (DirNode 0)"
    by (simp add: find_node_def locate_def base_of_def is_absolute_def)
  have ar: "archive_name_for h ?root = (?root, '''')"
    by (simp add: archive_name_for_def use_absolute_path_def is_absolute_def resolve_def base_of_def
        as_posix_def Let_def)
  obtain st' where sub: "include_sub_dirs n h (iterdir h ?root) (list_file ?root st) = Inr st'"
    using include_sub_dirs_no_overflow [OF assms(1)] assms(2) by (meson trans_less_add2)
  have "file_exists n h ''/.'' parent_check st = Inr (Some (''''
      @ replicate (trailing_slashes ''/.'') slash), st')"
    using root ar sub assms(3)
    by (simp add: file_exists_def o path_exists_def is_dir_def slash_def)
  moreover have "{g. below h ?root g} = insert ?root {g. \<exists>k \<in> set (iterdir h ?root). below h k g}"
    using root by (auto simp: below_iff [of h ?root] is_dir_def)
  ultimately show ?thesis using include_sub_dirs_exact [OF sub] by auto
qed

theorem dotted_root_lists_host_witness:
  "\<exists>a st'. file_exists 5 demo_host ''/.'' False
      \<lparr>host_files = [], command_args = [], output_dirs = {}, already_listed = {}\<rparr> = Inr (Some a, st') \<and>
    {g. below demo_host (PPath ''/'' []) g} \<subseteq> already_listed st'"
  by (rule dotted_root_lists_host; code_simp)

end
