(* ===== verification/Output_Filters.thy ===== *)
theory Output_Filters
  imports File_Matcher
begin

text \<open>
  Which of the files that changed in the container are downloaded: \<^verbatim>\<open>TarTool.__filter_files\<close> of
  \<^verbatim>\<open>cincan/tar_tool.py\<close>.  Directories that lead to other candidates are dropped, what is
  outside the working directory is dropped, the rest is sorted and goes through the filters the
  user gave or through those of the container's \<^verbatim>\<open>.cincanignore\<close>.  A filter list that is
  \<^verbatim>\<open>None\<close> in Python is the empty list here; the code never tells the two apart.
\<close>

definition IGNORE_FILENAME :: string where
  "IGNORE_FILENAME = ''.cincanignore''"

section \<open>Including and excluding filters\<close>

text \<open>
  \<^verbatim>\<open>[fs.pop(i) for i, f in enumerate(fs) if f.include]\<close>, where \<open>i\<close> is the place of the list
  iterator: removing an element moves the next one to the place that was just visited.
\<close>

function pop_included :: "nat \<Rightarrow> file_matcher list \<Rightarrow> file_matcher list \<times> file_matcher list" where
  "pop_included i fs =
     (if i < length fs then
        if inclusive (fs ! i)
        then (case pop_included (Suc i) (take i fs @ drop (Suc i) fs) of
                (popped, left_over) \<Rightarrow> (fs ! i # popped, left_over))
        else pop_included (Suc i) fs
      else ([], fs))"
  by pat_completeness auto
termination
  by (relation "measure (\<lambda>(i, fs). length fs - i)") auto

declare pop_included.simps [simp del]

section \<open>Candidates\<close>

text \<open>
  The loop over the parents of a candidate, \<^verbatim>\<open>while c_parent and c_parent.name\<close>, adds the text
  of every ancestor but the root to the set of names to skip.
\<close>

function ancestor_names :: "ppath \<Rightarrow> string list" where
  "ancestor_names p = (if pname p = '''' then [] else as_posix p # ancestor_names (parent p))"
  by pat_completeness auto
termination
  by (relation "measure (\<lambda>p. length (pparts p))") (auto simp: parent_def pname_def split: if_splits)

declare ancestor_names.simps [simp del]

fun drop_leading :: "string set \<Rightarrow> string list \<Rightarrow> string list" where
  "drop_leading skip [] = []"
| "drop_leading skip (c # cs) =
     (if c \<in> skip then drop_leading skip cs
      else c # drop_leading (skip \<union> set (ancestor_names (parent (parse_path c)))) cs)"

definition leaf_candidates :: "string list \<Rightarrow> string list" where
  "leaf_candidates candidates = filter (\<lambda>s. s \<noteq> '''') (drop_leading {} candidates)"

section \<open>Filters of the container\<close>

definition ignore_filters_of :: "string list \<Rightarrow> file_matcher list" where
  "ignore_filters_of ignore_paths =
     concat (map (\<lambda>file.
       if endswith file ''/'' then [new_matcher (file @ ''*'') False]
       else if \<not> endswith file ''*'' then [new_matcher file False, new_matcher (file @ ''/*'') False]
       else [new_matcher file False]) ignore_paths)"

text \<open>
  The merge of the excluding filters: the set starts with those of the user; an ignore filter is
  added until one of the user's filters has its pattern.  The set has no order; any order of its
  elements gives the same files (see below), here it is the order of insertion.
\<close>

fun merge_one :: "file_matcher \<Rightarrow> file_matcher list \<Rightarrow> file_matcher list \<Rightarrow> file_matcher list" where
  "merge_one i_f [] combined = combined"
| "merge_one i_f (o_f # o_fs) combined =
     (if match_string i_f = match_string o_f then combined
      else merge_one i_f o_fs (if i_f \<in> set combined then combined else combined @ [i_f]))"

definition merge_filters :: "file_matcher list \<Rightarrow> file_matcher list \<Rightarrow> file_matcher list" where
  "merge_filters to_exclude ignore_filters =
     (if to_exclude = [] then ignore_filters
      else fold (\<lambda>i_f combined. merge_one i_f to_exclude combined) ignore_filters to_exclude)"

section \<open>The selection\<close>

definition apply_filters :: "string \<Rightarrow> file_matcher list \<Rightarrow> string list \<Rightarrow> string list" where
  "apply_filters work_dir fs candidates = fold (\<lambda>f xs. filter_download_files f xs work_dir) fs candidates"

text \<open>
  \<open>filter_files work_dir config candidates filters no_defaults\<close>, where \<open>config\<close> is what
  \<^verbatim>\<open>__read_config_file\<close> returned for the container's ignore file.
\<close>

definition filter_files ::
  "string \<Rightarrow> string list \<Rightarrow> string list \<Rightarrow> file_matcher list \<Rightarrow> bool \<Rightarrow> string list" where
  "filter_files work_dir config candidates filters no_defaults =
     (case pop_included 0 filters of
        (to_include, to_exclude) \<Rightarrow>
          let ignore_paths = config @ [IGNORE_FILENAME];
              leaves = leaf_candidates candidates;
              inside = filter (\<lambda>s. startswith s work_dir) leaves;
              sorted_candidates = sort inside;
              ignore_filters = ignore_filters_of ignore_paths
          in if filters = [] \<and> ignore_paths \<noteq> [] \<and> \<not> no_defaults
             then apply_filters work_dir ignore_filters sorted_candidates
             else if filters \<noteq> [] \<and> ignore_paths \<noteq> [] then
               if no_defaults then apply_filters work_dir filters sorted_candidates
               else if to_include \<noteq> [] then apply_filters work_dir to_include sorted_candidates
               else apply_filters work_dir (merge_filters to_exclude ignore_filters) sorted_candidates
             else apply_filters work_dir filters sorted_candidates)"

section \<open>What the pieces do\<close>

lemma apply_filters_keeps:
  "apply_filters w fs xs = filter (\<lambda>x. list_all (\<lambda>f. keeps_download f w x) fs) xs"
  unfolding apply_filters_def by (simp add: downloads.run_all list_all_iff)

lemma apply_filters_set: "set fs = set gs \<Longrightarrow> apply_filters w fs xs = apply_filters w gs xs"
  by (simp add: apply_filters_keeps list_all_iff)

text \<open>Popping keeps all filters, and pops something whenever one of them includes.\<close>

lemma pop_included_partition:
  "pop_included i fs = (inc, ex) \<Longrightarrow> set inc \<union> set ex = set fs \<and> list_all inclusive inc"
proof (induction i fs arbitrary: inc ex rule: pop_included.induct)
  case (1 i fs)
  show ?case
  proof (cases "i < length fs \<and> inclusive (fs ! i)")
    case True
    let ?rest = "take i fs @ drop (Suc i) fs"
    obtain p l where p: "pop_included (Suc i) ?rest = (p, l)" by fastforce
    from "1.IH"(1) [OF _ _ p] True have IH: "set p \<union> set l = set ?rest" "list_all inclusive p" by auto
    from "1.prems" True p have r: "inc = fs ! i # p" "ex = l" by (simp_all add: pop_included.simps [of i fs])
    have "set fs = insert (fs ! i) (set ?rest)"
      using id_take_nth_drop [of i fs] True by (metis Un_insert_right list.simps(15) set_append)
    with IH True r show ?thesis by auto
  next
    case False
    show ?thesis
    proof (cases "i < length fs")
      case True
      with False "1.prems" have "pop_included (Suc i) fs = (inc, ex)"
        by (simp add: pop_included.simps [of i fs])
      with "1.IH"(2) True False show ?thesis by simp
    next
      case no: False
      with "1.prems" show ?thesis by (simp add: pop_included.simps [of i fs])
    qed
  qed
qed

lemma pop_included_none:
  "list_all (\<lambda>f. \<not> inclusive f) (drop i fs) \<Longrightarrow> pop_included i fs = ([], fs)"
proof (induction i fs rule: pop_included.induct)
  case (1 i fs)
  show ?case
  proof (cases "i < length fs")
    case True
    with "1.prems" have "\<not> inclusive (fs ! i)" "list_all (\<lambda>f. \<not> inclusive f) (drop (Suc i) fs)"
      by (simp_all add: Cons_nth_drop_Suc [symmetric])
    with "1.IH"(2) True show ?thesis by (simp add: pop_included.simps [of i fs])
  qed (simp add: pop_included.simps [of i fs])
qed

lemma pop_included_some:
  "\<not> list_all (\<lambda>f. \<not> inclusive f) (drop i fs) \<Longrightarrow> fst (pop_included i fs) \<noteq> []"
proof (induction i fs rule: pop_included.induct)
  case (1 i fs)
  have i: "i < length fs"
  proof (rule ccontr)
    assume "\<not> i < length fs"
    then have "drop i fs = []" by simp
    with "1.prems" show False by simp
  qed
  show ?case
  proof (cases "inclusive (fs ! i)")
    case True
    with i show ?thesis by (simp add: pop_included.simps [of i fs] split: prod.splits)
  next
    case False
    with i "1.prems" have "\<not> list_all (\<lambda>f. \<not> inclusive f) (drop (Suc i) fs)"
      by (simp add: Cons_nth_drop_Suc [symmetric])
    with "1.IH"(2) i False show ?thesis by (simp add: pop_included.simps [of i fs])
  qed
qed

lemma pop_included_head:
  "inclusive f \<Longrightarrow> pop_included 0 (f # g # fs) =
     (case pop_included 1 (g # fs) of (inc, ex) \<Rightarrow> (f # inc, ex))"
  by (simp add: pop_included.simps [of 0])

text \<open>The merge keeps every filter of the user and adds each ignore filter with a new pattern.\<close>

lemma merge_one_range:
  "set combined \<subseteq> set (merge_one i_f os combined) \<and>
   set (merge_one i_f os combined) \<subseteq> insert i_f (set combined)"
  by (induction i_f os combined rule: merge_one.induct) auto

lemma merge_one_present:
  "os \<noteq> [] \<Longrightarrow> match_string i_f \<noteq> match_string (hd os) \<Longrightarrow> i_f \<in> set (merge_one i_f os combined)"
proof (cases os)
  case (Cons o_f o_fs)
  moreover assume "match_string i_f \<noteq> match_string (hd os)"
  ultimately show ?thesis using merge_one_range by (auto simp: subset_iff)
qed simp

lemma merge_fold_range:
  "set combined \<subseteq> set (fold (\<lambda>i_f c. merge_one i_f os c) is combined) \<and>
   set (fold (\<lambda>i_f c. merge_one i_f os c) is combined) \<subseteq> set is \<union> set combined"
proof (induction "is" arbitrary: combined)
  case (Cons i_f "is")
  from Cons.IH [of "merge_one i_f os combined"] merge_one_range [of combined i_f os]
  show ?case by auto
qed simp

lemma merge_fold_present:
  "os \<noteq> [] \<Longrightarrow> i_f \<in> set is \<Longrightarrow> match_string i_f \<noteq> match_string (hd os) \<Longrightarrow>
     i_f \<in> set (fold (\<lambda>i_f c. merge_one i_f os c) is combined)"
proof (induction "is" arbitrary: combined)
  case (Cons j "is")
  then show ?case
    using merge_fold_range [of "merge_one j os combined" os "is"] merge_one_present [of os i_f combined]
    by auto
qed simp

section \<open>Leaves\<close>

lemma parent_prefixes:
  "(\<exists>k. 0 < k \<and> k \<le> length (pparts (parent p)) \<and>
        x = as_posix (PPath (proot (parent p)) (take k (pparts (parent p))))) \<longleftrightarrow>
   (\<exists>k. 0 < k \<and> k < length (pparts p) \<and> x = as_posix (PPath (proot p) (take k (pparts p))))"
proof (rule iff_exI)
  fix k
  show "0 < k \<and> k \<le> length (pparts (parent p)) \<and>
        x = as_posix (PPath (proot (parent p)) (take k (pparts (parent p)))) \<longleftrightarrow>
      0 < k \<and> k < length (pparts p) \<and> x = as_posix (PPath (proot p) (take k (pparts p)))"
    by (cases "0 < k \<and> k < length (pparts p)") (auto simp: parent_def take_butlast)
qed

lemma ancestor_names_iff:
  assumes "wf_path p"
  shows "x \<in> set (ancestor_names p) \<longleftrightarrow>
    (\<exists>k. 0 < k \<and> k \<le> length (pparts p) \<and> x = as_posix (PPath (proot p) (take k (pparts p))))"
  using assms
proof (induction p rule: ancestor_names.induct)
  case (1 p)
  show ?case
  proof (cases "pparts p = []")
    case True
    then show ?thesis by (simp add: ancestor_names.simps [of p] pname_def)
  next
    case False
    with "1.prems" have name: "pname p \<noteq> ''''"
      by (auto simp: pname_def wf_path_def list_all_iff wf_part_def)
    let ?n = "length (pparts p)"
    have upto: "(\<exists>k. 0 < k \<and> k \<le> ?n \<and> x = as_posix (PPath (proot p) (take k (pparts p)))) \<longleftrightarrow>
        x = as_posix p \<or> (\<exists>k. 0 < k \<and> k < ?n \<and> x = as_posix (PPath (proot p) (take k (pparts p))))"
      (is "?all \<longleftrightarrow> _ \<or> ?less")
    proof
      assume ?all
      then obtain k where k: "0 < k" "k \<le> ?n" "x = as_posix (PPath (proot p) (take k (pparts p)))" by blast
      show "x = as_posix p \<or> ?less"
        using k by (cases "k = ?n") auto
    next
      assume "x = as_posix p \<or> ?less"
      then show ?all
      proof
        assume "x = as_posix p"
        with False show ?all by (intro exI [of _ ?n]) simp
      qed force
    qed
    have "x \<in> set (ancestor_names (parent p)) \<longleftrightarrow>
        (\<exists>k. 0 < k \<and> k < ?n \<and> x = as_posix (PPath (proot p) (take k (pparts p))))"
      using "1.IH" [OF name] "1.prems" by (simp add: parent_prefixes)
    with name upto show ?thesis by (simp add: ancestor_names.simps [of p])
  qed
qed

text \<open>The names that a candidate makes the loop skip: its proper ancestors.\<close>

definition leads_to :: "string \<Rightarrow> string \<Rightarrow> bool" where
  "leads_to a c \<longleftrightarrow> a \<in> set (ancestor_names (parent (parse_path c)))"

lemma leads_to_iff:
  "leads_to a c \<longleftrightarrow>
     (\<exists>k. 0 < k \<and> k < length (pparts (parse_path c)) \<and>
          a = as_posix (PPath (proot (parse_path c)) (take k (pparts (parse_path c)))))"
  unfolding leads_to_def by (simp add: ancestor_names_iff parent_prefixes)

lemma wf_take: "wf_path (PPath r ps) \<Longrightarrow> wf_path (PPath r (take k ps))"
  by (auto simp: wf_path_def list_all_iff dest: in_set_takeD)

lemma leads_to_trans: "leads_to a b \<Longrightarrow> leads_to b c \<Longrightarrow> leads_to a c"
proof -
  assume "leads_to a b" and "leads_to b c"
  from \<open>leads_to b c\<close> obtain k where k: "0 < k" "k < length (pparts (parse_path c))"
    and b: "b = as_posix (PPath (proot (parse_path c)) (take k (pparts (parse_path c))))"
    unfolding leads_to_iff by blast
  have "wf_path (PPath (proot (parse_path c)) (take k (pparts (parse_path c))))"
    by (rule wf_take) (simp add: wf_parse_path)
  then have pb: "parse_path b = PPath (proot (parse_path c)) (take k (pparts (parse_path c)))"
    by (simp add: b)
  from \<open>leads_to a b\<close> obtain j where "0 < j" "j < k"
    "a = as_posix (PPath (proot (parse_path c)) (take j (pparts (parse_path c))))"
    unfolding leads_to_iff pb using k(2) by auto
  with k show ?thesis unfolding leads_to_iff by (intro exI [of _ j]) auto
qed

definition proper_ancestor :: "string \<Rightarrow> string \<Rightarrow> bool" where
  "proper_ancestor x y \<longleftrightarrow>
     proot (parse_path x) = proot (parse_path y) \<and> pparts (parse_path x) \<noteq> [] \<and>
     strict_prefix (pparts (parse_path x)) (pparts (parse_path y))"

lemma leads_to_ancestor:
  assumes "as_posix (parse_path x) = x"
  shows "leads_to x y \<longleftrightarrow> proper_ancestor x y"
proof
  let ?r = "proot (parse_path y)" and ?ps = "pparts (parse_path y)"
  assume "leads_to x y"
  then obtain k where k: "0 < k" "k < length ?ps" and x: "x = as_posix (PPath ?r (take k ?ps))"
    unfolding leads_to_iff by blast
  have "wf_path (PPath ?r (take k ?ps))" by (rule wf_take) (simp add: wf_parse_path)
  then have "parse_path x = PPath ?r (take k ?ps)" by (simp add: x)
  with k show "proper_ancestor x y" by (auto simp: proper_ancestor_def strict_prefix_def take_is_prefix)
next
  assume a: "proper_ancestor x y"
  then have "take (length (pparts (parse_path x))) (pparts (parse_path y)) = pparts (parse_path x)"
    and "length (pparts (parse_path x)) < length (pparts (parse_path y))"
    by (auto simp: proper_ancestor_def strict_prefix_def prefix_def)
  with a assms show "leads_to x y"
    unfolding leads_to_iff
    by (intro exI [of _ "length (pparts (parse_path x))"]) (metis (no_types) length_greater_0_conv ppath.collapse proper_ancestor_def)
qed

text \<open>A name that leads to a candidate is smaller, so it comes later in the reversed order.\<close>

lemma leads_to_less:
  assumes "leads_to a c" and "as_posix (parse_path c) = c"
  shows "a < c"
proof -
  let ?ps = "pparts (parse_path c)" and ?r = "proot (parse_path c)"
  from assms(1) obtain k where k: "0 < k" "k < length ?ps" and a: "a = as_posix (PPath ?r (take k ?ps))"
    unfolding leads_to_iff by blast
  then have ne: "take k ?ps \<noteq> []" "drop k ?ps \<noteq> []" by auto
  have "joined [slash] ?ps = joined [slash] (take k ?ps) @ [slash] @ joined [slash] (drop k ?ps)"
    using joined_append [OF ne, of "[slash]"] by simp
  with ne have "as_posix (parse_path c) = a @ [slash] @ joined [slash] (drop k ?ps)"
    unfolding as_posix_def a by auto
  with assms(2) have "c = a @ slash # joined [slash] (drop k ?ps)" by simp
  moreover have "a < a @ slash # joined [slash] (drop k ?ps)"
    unfolding list_less_def by (rule lexord_append_rightI) blast
  ultimately show ?thesis by metis
qed

lemma drop_leading_keeps:
  assumes "sorted (rev cs)" and "list_all (\<lambda>c. as_posix (parse_path c) = c) cs"
    and "\<forall>b \<in> skip. \<forall>a. leads_to a b \<longrightarrow> a \<in> skip"
  shows "drop_leading skip cs = filter (\<lambda>c. c \<notin> skip \<and> \<not> list_ex (leads_to c) cs) cs"
  using assms
proof (induction cs arbitrary: skip)
  case (Cons c cs)
  from Cons.prems have order: "\<forall>d \<in> set cs. d \<le> c" and tail: "sorted (rev cs)"
    and norm: "as_posix (parse_path c) = c" "list_all (\<lambda>c. as_posix (parse_path c) = c) cs"
    by (auto simp: sorted_append)
  have first: "\<not> leads_to c d" if "d \<in> set (c # cs)" for d
    using that order norm leads_to_less [of c d] by (fastforce simp: list_all_iff)
  show ?case
  proof (cases "c \<in> skip")
    case True
    have "drop_leading skip cs = filter (\<lambda>d. d \<notin> skip \<and> \<not> list_ex (leads_to d) cs) cs"
      by (rule Cons.IH [OF tail norm(2) Cons.prems(3)])
    also have "\<dots> = filter (\<lambda>d. d \<notin> skip \<and> \<not> list_ex (leads_to d) (c # cs)) cs"
      using True Cons.prems(3) by (intro filter_cong) auto
    finally show ?thesis using True by simp
  next
    case False
    let ?skip = "skip \<union> set (ancestor_names (parent (parse_path c)))"
    have closed: "\<forall>b \<in> ?skip. \<forall>a. leads_to a b \<longrightarrow> a \<in> ?skip"
    proof (intro ballI allI impI)
      fix b a
      assume b: "b \<in> ?skip" and a: "leads_to a b"
      show "a \<in> ?skip"
      proof (cases "b \<in> skip")
        case True
        with a Cons.prems(3) show ?thesis by blast
      next
        case no: False
        with b have "leads_to b c" by (simp add: leads_to_def)
        from leads_to_trans [OF a this] show ?thesis by (simp add: leads_to_def)
      qed
    qed
    have "drop_leading ?skip cs = filter (\<lambda>d. d \<notin> ?skip \<and> \<not> list_ex (leads_to d) cs) cs"
      by (rule Cons.IH [OF tail norm(2) closed])
    also have "\<dots> = filter (\<lambda>d. d \<notin> skip \<and> \<not> list_ex (leads_to d) (c # cs)) cs"
      by (intro filter_cong) (auto simp: leads_to_def)
    finally show ?thesis using False first by (auto simp: list_ex_iff)
  qed
qed simp

section \<open>Properties\<close>

text \<open>The filters that a candidate has to satisfy in the branches of the code.\<close>

definition applied_filters :: "string list \<Rightarrow> file_matcher list \<Rightarrow> bool \<Rightarrow> file_matcher list" where
  "applied_filters config filters no_defaults =
     (if no_defaults then filters
      else if list_ex inclusive filters then fst (pop_included 0 filters)
      else filters @ ignore_filters_of (config @ [IGNORE_FILENAME]))"

lemma ignore_filters_exclude:
  "f \<in> set (ignore_filters_of ignore_paths) \<Longrightarrow> wf_matcher f \<and> \<not> inclusive f"
  by (auto simp: ignore_filters_of_def new_matcher_def wf_matcher_def split: if_splits)

lemma merge_filters_keeps:
  assumes "list_all wf_matcher os" and "list_all (\<lambda>f. \<not> inclusive f) os"
  shows "list_all (\<lambda>f. keeps_download f w x) (merge_filters os (ignore_filters_of is)) \<longleftrightarrow>
    list_all (\<lambda>f. keeps_download f w x) (os @ ignore_filters_of is)"
proof (cases "os = []")
  case False
  let ?ig = "ignore_filters_of is"
  let ?m = "fold (\<lambda>i_f c. merge_one i_f os c) ?ig os"
  note range = merge_fold_range [of os os ?ig]
  have "keeps_download f w x" if kept: "list_all (\<lambda>f. keeps_download f w x) ?m" and f: "f \<in> set ?ig" for f
  proof (cases "match_string f = match_string (hd os)")
    case True
    from False have hd: "hd os \<in> set os" by simp
    with assms have "wf_matcher (hd os)" "\<not> inclusive (hd os)" by (auto simp: list_all_iff)
    with ignore_filters_exclude [OF f] True have "keeps_download f w = keeps_download (hd os) w"
      by (intro keeps_download_cong) auto
    with kept hd range show ?thesis by (auto simp: list_all_iff subset_iff)
  next
    case no: False
    from merge_fold_present [OF False f no] kept show ?thesis by (auto simp: list_all_iff)
  qed
  with False range show ?thesis by (auto simp: merge_filters_def list_all_iff subset_iff)
qed (simp add: merge_filters_def)

lemma filter_files_policy:
  assumes "list_all wf_matcher filters"
  shows "filter_files w config candidates filters no_defaults =
    filter (\<lambda>x. list_all (\<lambda>f. keeps_download f w x) (applied_filters config filters no_defaults))
      (sort (filter (\<lambda>s. startswith s w) (leaf_candidates candidates)))"
proof (cases "list_ex inclusive filters")
  case True
  have "fst (pop_included 0 filters) \<noteq> []"
    using True by (intro pop_included_some) (auto simp: list_ex_iff list_all_iff)
  moreover from True have "filters \<noteq> []" by auto
  ultimately show ?thesis
    using True by (auto simp: filter_files_def applied_filters_def apply_filters_keeps Let_def split: prod.split)
next
  case False
  then have none: "list_all (\<lambda>f. \<not> inclusive f) filters" by (auto simp: list_ex_iff list_all_iff)
  then have "pop_included 0 filters = ([], filters)" by (intro pop_included_none) simp
  with False show ?thesis
    using merge_filters_keeps [OF assms none]
    by (auto simp: filter_files_def applied_filters_def apply_filters_keeps Let_def cong: filter_cong)
qed

lemma wf_parsed: "list_all wf_matcher (parse_matchers ms)"
  by (auto simp: list_all_iff intro: wf_parse_matchers)

text \<open>
  When the candidates are normalised and sorted in reverse, as the caller sorts them, the
  leaves are exactly the candidates that are not directories on the way to another candidate.
\<close>

lemma leaf_candidates_exact:
  assumes "sorted (rev candidates)" and "list_all (\<lambda>c. as_posix (parse_path c) = c) candidates"
  shows "leaf_candidates candidates =
    filter (\<lambda>c. \<not> list_ex (leads_to c) candidates) candidates"
proof -
  have "c \<noteq> ''''" if "c \<in> set candidates" for c
  proof
    assume "c = ''''"
    with that assms(2) have "as_posix (parse_path '''') = ''''" by (auto simp: list_all_iff)
    then show False by code_simp
  qed
  then show ?thesis
    using drop_leading_keeps [OF assms, of "{}"]
    by (simp add: leaf_candidates_def) (auto intro!: filter_cong)
qed

theorem leaves_are_exact:
  assumes "sorted (rev candidates)" and "list_all (\<lambda>c. as_posix (parse_path c) = c) candidates"
  shows "leaf_candidates candidates =
    filter (\<lambda>c. \<not> list_ex (leads_to c) candidates) candidates"
  using assms by (rule leaf_candidates_exact)

theorem leaves_are_exact_witness:
  "leaf_candidates [''/w/d/x'', ''/w/d'', ''/w''] =
    filter (\<lambda>c. \<not> list_ex (leads_to c) [''/w/d/x'', ''/w/d'', ''/w'']) [''/w/d/x'', ''/w/d'', ''/w'']"
  by (rule leaves_are_exact; code_simp)

text \<open>
  Popping while enumerating finds the including filters only where no two of them follow each other.
\<close>

lemma pop_included_sparse:
  "successively (\<lambda>f g. \<not> (inclusive f \<and> inclusive g)) (drop i fs) \<Longrightarrow>
     fst (pop_included i fs) = filter inclusive (drop i fs)"
proof (induction i fs rule: pop_included.induct)
  case (1 i fs)
  show ?case
  proof (cases "i < length fs")
    case True
    then have d: "drop i fs = fs ! i # drop (Suc i) fs" by (simp add: Cons_nth_drop_Suc)
    have tail: "successively (\<lambda>f g. \<not> (inclusive f \<and> inclusive g)) (drop (Suc i) fs)"
      using "1.prems" unfolding d by (cases "drop (Suc i) fs") auto
    show ?thesis
    proof (cases "inclusive (fs ! i)")
      case False
      with "1.IH"(2) True tail d show ?thesis by (simp add: pop_included.simps [of i fs])
    next
      case inc: True
      let ?rest = "take i fs @ drop (Suc i) fs"
      have "drop (Suc i) ?rest = drop 1 (drop (Suc i) fs)" using True by simp
      then have rest: "drop (Suc i) ?rest = tl (drop (Suc i) fs)" by (simp only: drop_Suc [of 0] drop_0 One_nat_def)
      have "filter inclusive (drop (Suc i) fs) = filter inclusive (tl (drop (Suc i) fs))"
        using "1.prems" inc unfolding d by (cases "drop (Suc i) fs") auto
      moreover have "successively (\<lambda>f g. \<not> (inclusive f \<and> inclusive g)) (drop (Suc i) ?rest)"
        using tail unfolding rest by (cases "drop (Suc i) fs") (auto simp: successively_Cons)
      ultimately show ?thesis
        using "1.IH"(1) [OF True inc] True inc d rest
        by (cases "pop_included (Suc i) ?rest") (simp add: pop_included.simps [of i fs])
    qed
  qed (simp add: pop_included.simps [of i fs])
qed

lemma inclusive_parsed: "filter inclusive (parse_matchers ms) = parse_matchers (filter (\<lambda>m. \<not> startswith m ''^'') ms)"
  by (induction ms) (auto simp: parse_matchers_def new_matcher_def)

text \<open>
  C10: the files selected for download are, in sorted order, the changed files inside the working
  directory that are no directories on the way to another one and that every filter keeps which
  applies: with \<^verbatim>\<open>--no-defaults\<close> the user's filters; otherwise the user's including filters alone
  if there are any, and if not the user's filters and those of \<^verbatim>\<open>.cincanignore\<close>.  The changed
  files are named and sorted as the caller does, and no two including filters follow each other.
\<close>

theorem selection_implements_policy:
  fixes w :: string and config :: "string list" and no_defaults :: bool
  assumes "sorted (rev changed)" and "list_all (\<lambda>c. as_posix (parse_path c) = c) changed"
    and "successively (\<lambda>m m'. startswith m ''^'' \<or> startswith m' ''^'') ms"
  defines "including \<equiv> filter (\<lambda>m. \<not> startswith m ''^'') ms"
  defines "kept_by \<equiv> \<lambda>ms x. \<forall>f \<in> set (parse_matchers ms). keeps_download f w x"
  shows "filter_files w config changed (parse_matchers ms) no_defaults =
    sort (filter (\<lambda>x. startswith x w \<and> (\<forall>y \<in> set changed. \<not> proper_ancestor x y) \<and>
      (if no_defaults then kept_by ms x
       else if including \<noteq> [] then kept_by including x
       else kept_by ms x \<and> (\<forall>f \<in> set (ignore_filters_of (config @ [IGNORE_FILENAME])). keeps_download f w x))) changed)"
proof -
  have "successively (\<lambda>f g. \<not> (inclusive f \<and> inclusive g)) (parse_matchers ms)"
    using assms(3) by (auto simp: parse_matchers_def successively_map new_matcher_def elim!: successively_mono)
  then have "fst (pop_included 0 (parse_matchers ms)) = parse_matchers including"
    using pop_included_sparse [of 0 "parse_matchers ms"] by (simp add: inclusive_parsed including_def)
  moreover have "list_ex inclusive (parse_matchers ms) \<longleftrightarrow> including \<noteq> []"
  proof -
    have "list_ex inclusive (parse_matchers ms) \<longleftrightarrow> filter inclusive (parse_matchers ms) \<noteq> []"
      by (auto simp: list_ex_iff filter_empty_conv)
    also have "\<dots> \<longleftrightarrow> parse_matchers including \<noteq> []" by (simp add: inclusive_parsed including_def)
    also have "\<dots> \<longleftrightarrow> including \<noteq> []" by (simp add: parse_matchers_def)
    finally show ?thesis .
  qed
  ultimately have "list_all (\<lambda>f. keeps_download f w x) (applied_filters config (parse_matchers ms) no_defaults) \<longleftrightarrow>
      (if no_defaults then kept_by ms x
       else if including \<noteq> [] then kept_by including x
       else kept_by ms x \<and> (\<forall>f \<in> set (ignore_filters_of (config @ [IGNORE_FILENAME])). keeps_download f w x))" for x
    by (auto simp: applied_filters_def kept_by_def list_all_iff)
  then show ?thesis
    unfolding filter_files_policy [OF wf_parsed] leaf_candidates_exact [OF assms(1,2)] filter_sort filter_filter
    using assms(2) by (intro arg_cong [where f = sort] filter_cong refl) (auto simp: list_all_iff list_ex_iff leads_to_ancestor)
qed

theorem selection_implements_policy_witness:
  "filter_files ''/w/'' [''*.log''] [''/w/d/x'', ''/w/d'', ''/w/a.log'', ''/w'']
     (parse_matchers [''^*.tmp'']) False = [''/w/d/x'']"
proof -
  let ?changed = "[''/w/d/x'', ''/w/d'', ''/w/a.log'', ''/w'']" and ?ms = "[''^*.tmp'']"
  have a: "sorted (rev ?changed)" "list_all (\<lambda>c. as_posix (parse_path c) = c) ?changed"
    "successively (\<lambda>m m'. startswith m ''^'' \<or> startswith m' ''^'') ?ms" by code_simp+
  have "sort (filter (\<lambda>x. startswith x ''/w/'' \<and> (\<forall>y \<in> set ?changed. \<not> proper_ancestor x y) \<and>
      (if False then (\<forall>f \<in> set (parse_matchers ?ms). keeps_download f ''/w/'' x)
       else if filter (\<lambda>m. \<not> startswith m ''^'') ?ms \<noteq> []
       then (\<forall>f \<in> set (parse_matchers (filter (\<lambda>m. \<not> startswith m ''^'') ?ms)). keeps_download f ''/w/'' x)
       else (\<forall>f \<in> set (parse_matchers ?ms). keeps_download f ''/w/'' x) \<and>
         (\<forall>f \<in> set (ignore_filters_of ([''*.log''] @ [IGNORE_FILENAME])). keeps_download f ''/w/'' x))) ?changed) =
    [''/w/d/x'']" by code_simp
  with selection_implements_policy [OF a, of "''/w/''" "[''*.log'']" False] show ?thesis by metis
qed

text \<open>
  Of two including filters given one after the other only the first is applied: the list is
  popped while it is enumerated, so the second one is never looked at.
\<close>

theorem second_including_filter_ignored:
  assumes "inclusive f" and "inclusive g"
  shows "filter_files w config candidates [f, g] False = filter_files w config candidates [f] False"
proof -
  have "pop_included 0 [f, g] = ([f], [g])" "pop_included 0 [f] = ([f], [])"
    using assms by (simp_all add: pop_included.simps)
  then show ?thesis by (simp add: filter_files_def)
qed

theorem second_including_filter_ignored_witness:
  "filter_files ''/w/'' [] [''/w/b.txt'', ''/w/a.zip''] [new_matcher ''a*'' True, new_matcher ''b*'' True] False =
   filter_files ''/w/'' [] [''/w/b.txt'', ''/w/a.zip''] [new_matcher ''a*'' True] False"
  by (rule second_including_filter_ignored) (simp_all add: new_matcher_def)

text \<open>
  Unless the user gives an including filter or \<^verbatim>\<open>--no-defaults\<close>, no file is downloaded that
  \<^verbatim>\<open>.cincanignore\<close> names, nor anything in a directory that it names, nor the ignore file.
\<close>

theorem ignored_entry_not_downloaded:
  assumes "entry \<in> set (config @ [IGNORE_FILENAME])" and "star \<notin> set entry"
    and "\<not> startswith entry ''/''" and "\<not> endswith entry ''/''"
    and "list_all (\<lambda>m. startswith m ''^'') ms"
    and "x \<in> set (filter_files w config candidates (parse_matchers ms) False)"
    and "relative_to (parse_path x) (parse_path w) = Inr r"
  shows "as_posix r \<noteq> entry \<and> \<not> startswith (as_posix r) (entry @ ''/'')"
proof -
  let ?ig = "ignore_filters_of (config @ [IGNORE_FILENAME])"
  have "\<not> endswith entry ''*''"
    using assms(2) by (auto simp: star_def suffix_def)
  then have "new_matcher entry False \<in> set ?ig \<and> new_matcher (entry @ ''/*'') False \<in> set ?ig"
    using assms(1,4) by (force simp: ignore_filters_of_def)
  moreover have "\<not> list_ex inclusive (parse_matchers ms)"
    using assms(5) by (auto simp: parse_matchers_def list_ex_iff list_all_iff new_matcher_def split: if_splits)
  ultimately have keeps: "keeps_download (new_matcher entry False) w x"
    "keeps_download (new_matcher (entry @ ''/*'') False) w x"
    using assms(6) by (auto simp: filter_files_policy [OF wf_parsed] applied_filters_def list_all_iff)
  have abs: "\<not> absolute_path (new_matcher entry False)"
    "\<not> absolute_path (new_matcher (entry @ ''/*'') False) \<or> entry = ''''"
    using assms(3) by (cases entry; auto simp: new_matcher_def)+
  from keeps(1) assms(2,7) abs(1) have "as_posix r \<noteq> entry"
    by (auto simp: keeps_download_def match_value_def new_matcher_def)
  moreover have "\<not> startswith (as_posix r) (entry @ ''/'')"
  proof
    assume "startswith (as_posix r) (entry @ ''/'')"
    then obtain z where z: "as_posix r = (entry @ ''/'') @ z" by (auto simp: prefix_def)
    show False
    proof (cases "entry = ''''")
      case True
      have "r = PPath '''' (pparts r)" using assms(7) by (auto simp: relative_to_def split: if_splits)
      moreover from assms(7) have "wf_path r" by (rule wf_relative_to) simp
      ultimately have "\<not> startswith (as_posix r) [slash]"
        by (intro as_posix_relative) (auto simp: is_absolute_def, metis ppath.sel(1))
      with z True show False by (simp add: slash_def)
    next
      case False
      have pre: "star \<notin> set (entry @ ''/'')" using assms(2) by (simp add: star_def)
      have "glob [star] z" by (simp only: glob_Cons_star) simp
      with z have "glob ((entry @ ''/'') @ [star]) (as_posix r)"
        using glob_append [OF pre, of "[star]" "as_posix r"] by blast
      moreover have "(entry @ ''/'') @ [star] = entry @ ''/*''" by (simp add: star_def)
      ultimately have "glob (entry @ ''/*'') (as_posix r)" by metis
      moreover have "match_string (new_matcher (entry @ ''/*'') False) = entry @ ''/*''"
        by (simp add: new_matcher_def)
      moreover have "last (split_on star (entry @ ''/*'')) = []"
        by (rule last_split_on_star) (simp add: star_def suffix_def)
      ultimately have "match_value (new_matcher (entry @ ''/*'') False) (as_posix r)"
        by (intro match_value_complete) simp_all
      with keeps(2) abs(2) False assms(7) show False
        by (simp add: keeps_download_def new_matcher_def)
    qed
  qed
  ultimately show ?thesis by simp
qed

theorem ignored_entry_not_downloaded_witness:
  "as_posix (PPath '''' [''a.zip'']) \<noteq> ''out'' \<and> \<not> startswith (as_posix (PPath '''' [''a.zip''])) (''out'' @ ''/'')"
proof (rule ignored_entry_not_downloaded)
  show "''out'' \<in> set ([''out''] @ [IGNORE_FILENAME])" by simp
  show "''/w/a.zip'' \<in> set (filter_files ''/w/'' [''out''] [''/w/out/x'', ''/w/a.zip'', ''/w/.cincanignore'']
      (parse_matchers [''^*.txt'']) False)" by code_simp
  show "relative_to (parse_path ''/w/a.zip'') (parse_path ''/w/'') = Inr (PPath '''' [''a.zip''])" by code_simp
qed (simp_all add: star_def suffix_def)

text \<open>
  The files selected are candidates inside the working directory, sorted, and each once if
  the container reports each once.
\<close>

theorem selection_sorted_inside:
  assumes "distinct candidates"
  shows "sorted (filter_files w config candidates (parse_matchers ms) no_defaults) \<and>
    distinct (filter_files w config candidates (parse_matchers ms) no_defaults) \<and>
    list_all (\<lambda>x. x \<in> set candidates \<and> startswith x w)
      (filter_files w config candidates (parse_matchers ms) no_defaults)"
proof -
  have sub: "set (drop_leading skip cs) \<subseteq> set cs" "distinct cs \<Longrightarrow> distinct (drop_leading skip cs)" for skip cs
    by (induction skip cs rule: drop_leading.induct) auto
  have dist: "distinct (drop_leading skip cs)" if "distinct cs" for skip cs
    using that sub(2) by blast
  show ?thesis
    using sub(1) dist [OF assms]
    by (auto simp: filter_files_policy [OF wf_parsed] sorted_filter list_all_iff leaf_candidates_def
        intro: sorted_filter [where f = "\<lambda>x. x", simplified])
qed

theorem selection_sorted_inside_witness:
  "sorted (filter_files ''/w/'' [] [''/w/b'', ''/w/a'', ''/x''] (parse_matchers []) True) \<and>
    distinct (filter_files ''/w/'' [] [''/w/b'', ''/w/a'', ''/x''] (parse_matchers []) True) \<and>
    list_all (\<lambda>x. x \<in> set [''/w/b'', ''/w/a'', ''/x''] \<and> startswith x ''/w/'')
      (filter_files ''/w/'' [] [''/w/b'', ''/w/a'', ''/x''] (parse_matchers []) True)"
  by (rule selection_sorted_inside) simp

end
