(* ===== verification/Tar_Upload.thy ===== *)
theory Tar_Upload
  imports Command_Log
begin

text \<open>
  The upload half of \<^verbatim>\<open>TarTool\<close> (\<^verbatim>\<open>cincan/tar_tool.py\<close>): the archive of the host files that is
  put into the container, the statistics kept of every uploaded file, and the entries of the
  command log.  An archive is the list of its members; how \<^verbatim>\<open>tarfile\<close> lays it out in bytes is
  not modelled.  Times are in microseconds; \<open>now k\<close> is the \<open>k\<close>-th reading of the clock and
  \<open>local_time\<close> is \<^verbatim>\<open>datetime.fromtimestamp\<close>, which depends on the time zone of the host.
\<close>

section \<open>Archives\<close>

text \<open>A link has the name it leads to; what is neither file, directory nor link is a device.\<close>

datatype member_kind = RegularMember | DirMember | SymbolicLink string | HardLink string | OtherMember

record tar_member =
  member_name :: string
  member_kind :: member_kind
  member_size :: int
  member_mtime :: int
  member_mode :: int
  member_data :: bytes

definition is_regular :: "tar_member \<Rightarrow> bool" where
  "is_regular m = (member_kind m = RegularMember)"

text \<open>
  \<^verbatim>\<open>tar.extractfile(m).read\<close> of an archive that is read as a stream: there is no file object for
  a directory or a device, and a link cannot be followed in a stream.
\<close>

definition read_member :: "tar_member \<Rightarrow> bytes result" where
  "read_member m =
     (case member_kind m of
        RegularMember \<Rightarrow> Inr (member_data m)
      | DirMember \<Rightarrow> Inl AttributeError
      | SymbolicLink t \<Rightarrow> Inl StreamError
      | HardLink t \<Rightarrow> Inl StreamError
      | OtherMember \<Rightarrow> Inl AttributeError)"

section \<open>The state of an upload\<close>

type_synonym stat = "int \<times> int \<times> int"   \<comment> \<open>size, modification time, upload time\<close>

record upload_state =
  members :: "tar_member list"
  dirs :: "ppath set"
  upload_stats :: "(string, stat) dict"
  uploaded_files :: "file_log list"
  tick :: nat

definition new_directory :: "string \<Rightarrow> tar_member" where
  "new_directory name =
     \<lparr>member_name = name, member_kind = DirMember, member_size = 0, member_mtime = 0,
      member_mode = 511, member_data = []\<rparr>"

definition add_member :: "tar_member \<Rightarrow> upload_state \<Rightarrow> upload_state" where
  "add_member m st = st\<lparr>members := members st @ [m]\<rparr>"

text \<open>
  The loop over the directories that lead to a file, from the innermost outwards.  It ends at
  \<open>.\<close>, which an absolute name never reaches.
\<close>

function add_parents :: "ppath \<Rightarrow> upload_state \<Rightarrow> upload_state result" where
  "add_parents a_parent st =
     (if as_posix a_parent = ''.'' then Inr st
      else
        let st1 = (if a_parent \<notin> dirs st
                   then add_member (new_directory (as_posix a_parent)) (st\<lparr>dirs := insert a_parent (dirs st)\<rparr>)
                   else st)
        in if pparts a_parent = [] then Inl Diverges
           else add_parents (parent a_parent) st1)"
  by pat_completeness auto
termination
  by (relation "measure (\<lambda>(p, st). length (pparts p))") (auto simp: parent_def)

declare add_parents.simps [simp del]

section \<open>The archive\<close>

text \<open>\<^verbatim>\<open>tar.gettarinfo(host_file, arcname)\<close>: a directory has the size 0.\<close>

definition tar_info :: "node \<Rightarrow> string \<Rightarrow> tar_member" where
  "tar_info n name =
     (case n of
        FileNode d t \<Rightarrow>
          \<lparr>member_name = name, member_kind = RegularMember, member_size = int (length d),
           member_mtime = t, member_mode = 0, member_data = d\<rparr>
      | DirNode t \<Rightarrow>
          \<lparr>member_name = name, member_kind = DirMember, member_size = 0,
           member_mtime = t, member_mode = 0, member_data = []\<rparr>
      | OtherNode t \<Rightarrow>
          \<lparr>member_name = name, member_kind = OtherMember, member_size = 0,
           member_mtime = t, member_mode = 0, member_data = []\<rparr>)"

definition add_upload ::
  "(bytes \<Rightarrow> string) \<Rightarrow> (nat \<Rightarrow> int) \<Rightarrow> (int \<Rightarrow> datetime) \<Rightarrow> host \<Rightarrow>
   upload_state \<Rightarrow> ppath \<times> string \<Rightarrow> upload_state result" where
  "add_upload sha now local_time h st up =
     (case up of (host_file, arc_name) \<Rightarrow>
        bindr (add_parents (parent (parse_path arc_name)) st) (\<lambda>st1.
          case find_node h host_file of
            None \<Rightarrow> Inr (add_member (new_directory arc_name) st1)
          | Some n \<Rightarrow>
              let tar_file = (tar_info n arc_name)\<lparr>member_mode := 511\<rparr>;
                  st2 = st1\<lparr>upload_stats := dict_put arc_name
                             (member_size tar_file, member_mtime tar_file, now (tick st1)) (upload_stats st1),
                           tick := Suc (tick st1)\<rparr>
              in case n of
                   FileNode d t \<Rightarrow>
                     Inr ((add_member tar_file st2)
                       \<lparr>uploaded_files := uploaded_files st2 @
                          [new_file_log (resolve h host_file) (fst (hash_file sha d)) (Some (local_time t))]\<rparr>)
                 | DirNode t \<Rightarrow> Inr (add_member tar_file st2)
                 | OtherNode t \<Rightarrow>
                     Inl (PlainException (''Cannot upload file of unknown type '' @ arc_name))))"

text \<open>
  \<^verbatim>\<open>__create_tar\<close>; the statistics and the log are those of the caller, and are added to.
\<close>

definition create_tar ::
  "(bytes \<Rightarrow> string) \<Rightarrow> (nat \<Rightarrow> int) \<Rightarrow> (int \<Rightarrow> datetime) \<Rightarrow> host \<Rightarrow> (ppath, string) dict \<Rightarrow>
   upload_state \<Rightarrow> upload_state result" where
  "create_tar sha now local_time h upload_files st =
     foldm (add_upload sha now local_time h) (st\<lparr>members := [], dirs := {}\<rparr>) upload_files"

text \<open>\<^verbatim>\<open>__list_members\<close>: the statistics and the log entries of an archive that is given as it is.\<close>

definition list_member ::
  "(bytes \<Rightarrow> string) \<Rightarrow> (nat \<Rightarrow> int) \<Rightarrow> (int \<Rightarrow> datetime) \<Rightarrow> host \<Rightarrow>
   upload_state \<Rightarrow> tar_member \<Rightarrow> upload_state" where
  "list_member sha now local_time h st m =
     (let st1 = st\<lparr>upload_stats := dict_put (member_name m) (member_size m, member_mtime m, now (tick st))
                                    (upload_stats st),
                   tick := Suc (tick st)\<rparr>
      in if \<not> is_regular m then st1
         else st1\<lparr>uploaded_files := uploaded_files st1 @
                    [new_file_log (resolve h (parse_path (member_name m))) (fst (hash_file sha (member_data m)))
                       (Some (local_time (member_mtime m)))]\<rparr>)"

definition list_members ::
  "(bytes \<Rightarrow> string) \<Rightarrow> (nat \<Rightarrow> int) \<Rightarrow> (int \<Rightarrow> datetime) \<Rightarrow> host \<Rightarrow>
   tar_member list \<Rightarrow> upload_state \<Rightarrow> upload_state" where
  "list_members sha now local_time h ms st = fold (\<lambda>m st. list_member sha now local_time h st m) ms st"

text \<open>
  \<^verbatim>\<open>upload\<close>: the archive that \<^verbatim>\<open>put_archive\<close> sends, if any, and the state.  \<open>read_tar\<close> opens an
  archive given by name, \<open>-\<close> being the standard input.
\<close>

definition upload ::
  "(bytes \<Rightarrow> string) \<Rightarrow> (nat \<Rightarrow> int) \<Rightarrow> (int \<Rightarrow> datetime) \<Rightarrow> host \<Rightarrow> (string \<Rightarrow> tar_member list result) \<Rightarrow>
   string option \<Rightarrow> (ppath, string) dict \<Rightarrow> upload_state \<Rightarrow> (tar_member list option \<times> upload_state) result" where
  "upload sha now local_time h read_tar explicit_file upload_files st =
     (let explicit = (case explicit_file of None \<Rightarrow> '''' | Some f \<Rightarrow> f)
      in if explicit = '''' \<and> upload_files = [] then Inr (None, st)
         else if explicit \<noteq> '''' then
           bindr (read_tar explicit) (\<lambda>ms. Inr (Some ms, list_members sha now local_time h ms st))
         else
           bindr (create_tar sha now local_time h upload_files st) (\<lambda>st'. Inr (Some (members st'), st')))"

section \<open>Lemmas\<close>

lemma add_member_simps [simp]:
  "members (add_member m st) = members st @ [m]" "dirs (add_member m st) = dirs st"
  "upload_stats (add_member m st) = upload_stats st"
  "uploaded_files (add_member m st) = uploaded_files st" "tick (add_member m st) = tick st"
  by (simp_all add: add_member_def)

lemma relative_dot: "wf_path p \<Longrightarrow> proot p = '''' \<Longrightarrow> as_posix p = ''.'' \<longleftrightarrow> pparts p = []"
proof
  assume "wf_path p" "proot p = ''''" "as_posix p = ''.''"
  moreover have "parse_path ''.'' = PPath '''' []" by code_simp
  ultimately show "pparts p = []" by (metis parse_as_posix ppath.sel(2))
qed (simp add: as_posix_def)

text \<open>The directories on the way to a relative path, the path itself among them.\<close>

definition prefixes_of :: "ppath \<Rightarrow> ppath set" where
  "prefixes_of p = {PPath (proot p) (take k (pparts p)) | k. 0 < k \<and> k \<le> length (pparts p)}"

lemma prefixes_of_parent:
  assumes "pparts p \<noteq> []"
  shows "prefixes_of p = insert p (prefixes_of (parent p))"
proof
  show "prefixes_of p \<subseteq> insert p (prefixes_of (parent p))"
  proof
    fix q assume "q \<in> prefixes_of p"
    then obtain k where k: "0 < k" "k \<le> length (pparts p)" "q = PPath (proot p) (take k (pparts p))"
      by (auto simp: prefixes_of_def)
    show "q \<in> insert p (prefixes_of (parent p))"
    proof (cases "k = length (pparts p)")
      case False
      with k have "q = PPath (proot (parent p)) (take k (pparts (parent p)))" "k \<le> length (pparts (parent p))"
        by (auto simp: parent_def take_butlast)
      with k(1) show ?thesis by (auto simp: prefixes_of_def)
    qed (use k in simp)
  qed
  show "insert p (prefixes_of (parent p)) \<subseteq> prefixes_of p"
    using assms by (auto simp: prefixes_of_def parent_def butlast_conv_take min_absorb1
        intro: exI [of _ "length (pparts p)"])
qed

text \<open>What the loop over the parents adds: the missing directories, and nothing else.\<close>

definition adds_dirs :: "ppath set \<Rightarrow> upload_state \<Rightarrow> upload_state \<Rightarrow> bool" where
  "adds_dirs ds st st' \<longleftrightarrow>
     (\<exists>new. members st' = members st @ map (\<lambda>d. new_directory (as_posix d)) new \<and>
        set new = ds - dirs st \<and> distinct new) \<and>
     dirs st' = dirs st \<union> ds \<and> upload_stats st' = upload_stats st \<and>
     uploaded_files st' = uploaded_files st \<and> tick st' = tick st"

lemma prefixes_of_bound: "q \<in> prefixes_of p \<Longrightarrow> length (pparts q) \<le> length (pparts p)"
  by (auto simp: prefixes_of_def)

lemma add_parents_adds:
  "wf_path p \<Longrightarrow> proot p = '''' \<Longrightarrow> \<exists>st'. add_parents p st = Inr st' \<and> adds_dirs (prefixes_of p) st st'"
proof (induction p st rule: add_parents.induct)
  case (1 p st)
  note dot = relative_dot [OF "1.prems"]
  show ?case
  proof (cases "pparts p = []")
    case True
    with dot have "add_parents p st = Inr st" by (subst add_parents.simps) simp
    with True show ?thesis by (auto simp: adds_dirs_def prefixes_of_def)
  next
    case False
    let ?st1 = "if p \<notin> dirs st
       then add_member (new_directory (as_posix p)) (st\<lparr>dirs := insert p (dirs st)\<rparr>) else st"
    have "wf_path (parent p)" using "1.prems" by simp
    moreover have "proot (parent p) = ''''" using "1.prems" by (simp add: parent_def)
    moreover have "as_posix p \<noteq> ''.''" using False dot by simp
    ultimately obtain st' where r: "add_parents (parent p) ?st1 = Inr st'"
      and a: "adds_dirs (prefixes_of (parent p)) ?st1 st'"
      using "1.IH" [OF _ refl False] by blast
    from r False dot have "add_parents p st = Inr st'" by (subst add_parents.simps) (simp add: Let_def)
    moreover have "adds_dirs (prefixes_of p) st st'"
    proof -
      have away: "p \<notin> prefixes_of (parent p)"
      proof
        assume "p \<in> prefixes_of (parent p)"
        from prefixes_of_bound [OF this] have "length (pparts p) \<le> length (pparts p) - 1"
          by (simp only: parent_def ppath.sel length_butlast)
        moreover have "0 < length (pparts p)" using False by simp
        ultimately show False by linarith
      qed
      from a obtain new where new: "members st' = members ?st1 @ map (\<lambda>d. new_directory (as_posix d)) new"
        "set new = prefixes_of (parent p) - dirs ?st1" "distinct new" unfolding adds_dirs_def by blast
      let ?new = "(if p \<notin> dirs st then [p] else []) @ new"
      have "members st' = members st @ map (\<lambda>d. new_directory (as_posix d)) ?new"
        using new(1) by simp
      moreover have "set ?new = prefixes_of p - dirs st" "distinct ?new"
        using new(2,3) away prefixes_of_parent [OF False] by auto
      moreover have "dirs st' = dirs st \<union> prefixes_of p \<and> upload_stats st' = upload_stats st \<and>
          uploaded_files st' = uploaded_files st \<and> tick st' = tick st"
        using a prefixes_of_parent [OF False] unfolding adds_dirs_def by auto
      ultimately show ?thesis unfolding adds_dirs_def by blast
    qed
    ultimately show ?thesis by blast
  qed
qed

text \<open>One file added: its directories first, then its member.\<close>

definition upload_entry :: "host \<Rightarrow> ppath \<Rightarrow> string \<Rightarrow> tar_member \<Rightarrow> bool" where
  "upload_entry h f a m \<longleftrightarrow>
     member_name m = a \<and> member_mode m = 511 \<and>
     (case find_node h f of
        Some (FileNode d t) \<Rightarrow>
          member_kind m = RegularMember \<and> member_data m = d \<and> member_size m = int (length d) \<and>
          member_mtime m = t
      | _ \<Rightarrow> member_kind m = DirMember)"

definition upload_log :: "(bytes \<Rightarrow> string) \<Rightarrow> (int \<Rightarrow> datetime) \<Rightarrow> host \<Rightarrow> ppath \<Rightarrow> file_log list" where
  "upload_log sha local_time h f =
     (case find_node h f of
        Some (FileNode d t) \<Rightarrow> [new_file_log (resolve h f) (sha d) (Some (local_time t))]
      | _ \<Rightarrow> [])"

definition inside_name :: "string \<Rightarrow> bool" where
  "inside_name a \<longleftrightarrow> \<not> is_absolute (parse_path a)"

lemma add_upload_step:
  assumes r: "add_upload sha now local_time h st (f, a) = Inr st'" and a: "inside_name a"
  shows "\<exists>st1 m. adds_dirs (prefixes_of (parent (parse_path a))) st st1 \<and>
    members st' = members st1 @ [m] \<and> upload_entry h f a m \<and> dirs st' = dirs st1 \<and>
    uploaded_files st' = uploaded_files st @ upload_log sha local_time h f \<and>
    upload_stats st' =
      (case find_node h f of
         None \<Rightarrow> upload_stats st
       | Some n \<Rightarrow> dict_put a (member_size m, member_mtime m, now (tick st)) (upload_stats st))"
proof -
  have "proot (parent (parse_path a)) = ''''"
    using a by (simp add: inside_name_def is_absolute_def parent_def)
  then obtain st1 where st1: "add_parents (parent (parse_path a)) st = Inr st1"
    and d: "adds_dirs (prefixes_of (parent (parse_path a))) st st1"
    using add_parents_adds by blast
  have keep: "upload_stats st1 = upload_stats st" "uploaded_files st1 = uploaded_files st" "tick st1 = tick st"
    using d by (auto simp: adds_dirs_def)
  show ?thesis
  proof (cases "find_node h f")
    case None
    with r st1 have "st' = add_member (new_directory a) st1" by (simp add: add_upload_def)
    with None d keep show ?thesis
      by (intro exI [of _ st1] exI [of _ "new_directory a"])
        (simp add: upload_entry_def upload_log_def new_directory_def)
  next
    case (Some n)
    with r st1 d keep show ?thesis
      by (intro exI [of _ st1] exI [of _ "(tar_info n a)\<lparr>member_mode := 511\<rparr>"])
        (cases n; auto simp: add_upload_def Let_def tar_info_def upload_entry_def upload_log_def)
  qed
qed

text \<open>The invariant of the loop: the directories of the set are in the archive.\<close>

definition dirs_present :: "upload_state \<Rightarrow> bool" where
  "dirs_present st \<longleftrightarrow> (\<forall>d \<in> dirs st. new_directory (as_posix d) \<in> set (members st))"

lemma adds_dirs_present: "adds_dirs ds st st1 \<Longrightarrow> dirs_present st \<Longrightarrow> dirs_present st1"
  unfolding adds_dirs_def dirs_present_def by fastforce

lemma create_tar_state:
  assumes "foldm (add_upload sha now local_time h) st ups = Inr st'" and "list_all (\<lambda>(f, a). inside_name a) ups"
    and "dirs_present st"
  shows "(\<exists>more. members st' = members st @ more) \<and>
    uploaded_files st' = uploaded_files st @ concat (map (\<lambda>(f, a). upload_log sha local_time h f) ups) \<and>
    (\<forall>(f, a) \<in> set ups. \<exists>pre m post. members st' = pre @ m # post \<and> upload_entry h f a m \<and>
       (\<forall>d \<in> prefixes_of (parent (parse_path a)). new_directory (as_posix d) \<in> set pre))"
  using assms
proof (induction ups arbitrary: st)
  case (Cons up ups)
  obtain f a where up: "up = (f, a)" by (cases up)
  with Cons.prems obtain st2 where s: "add_upload sha now local_time h st (f, a) = Inr st2"
    and rest: "foldm (add_upload sha now local_time h) st2 ups = Inr st'"
    and a: "inside_name a" and ins: "list_all (\<lambda>(f, a). inside_name a) ups"
    by (auto elim!: bindrE)
  from add_upload_step [OF s a] obtain st1 m where d: "adds_dirs (prefixes_of (parent (parse_path a))) st st1"
    and m: "members st2 = members st1 @ [m]" "upload_entry h f a m" "dirs st2 = dirs st1"
    and log: "uploaded_files st2 = uploaded_files st @ upload_log sha local_time h f" by blast
  have p1: "dirs_present st1" by (rule adds_dirs_present [OF d Cons.prems(3)])
  then have p2: "dirs_present st2" using m by (auto simp: dirs_present_def)
  note IH = Cons.IH [OF rest ins p2]
  then obtain more where more: "members st' = members st2 @ more" by blast
  have "\<forall>d \<in> prefixes_of (parent (parse_path a)). new_directory (as_posix d) \<in> set (members st1)"
    using p1 d by (auto simp: dirs_present_def adds_dirs_def)
  then have own: "\<exists>pre m post. members st' = pre @ m # post \<and> upload_entry h f a m \<and>
       (\<forall>d \<in> prefixes_of (parent (parse_path a)). new_directory (as_posix d) \<in> set pre)"
    using more m by (intro exI [of _ "members st1"] exI [of _ m] exI [of _ more]) simp
  moreover have "\<exists>more. members st' = members st @ more" using more m(1) d by (auto simp: adds_dirs_def)
  ultimately show ?case using IH log up by auto
qed simp

text \<open>The statistics: one entry for every file that exists, under its archive name.\<close>

definition stat_recorded :: "(nat \<Rightarrow> int) \<Rightarrow> host \<Rightarrow> (string, stat) dict \<Rightarrow> (string, stat) dict \<Rightarrow> ppath \<Rightarrow> string \<Rightarrow> bool" where
  "stat_recorded now h before stats f a \<longleftrightarrow>
     (case find_node h f of
        None \<Rightarrow> dict_get stats a = dict_get before a
      | Some (FileNode d t) \<Rightarrow> \<exists>k. dict_get stats a = Some (int (length d), t, now k)
      | Some (DirNode t) \<Rightarrow> \<exists>k. dict_get stats a = Some (0, t, now k)
      | Some (OtherNode t) \<Rightarrow> False)"

lemma add_upload_stat:
  assumes "add_upload sha now local_time h st (f, a) = Inr st'" and "inside_name a"
  shows "stat_recorded now h (upload_stats st) (upload_stats st') f a"
    and "b \<noteq> a \<Longrightarrow> dict_get (upload_stats st') b = dict_get (upload_stats st) b"
proof -
  from add_upload_step [OF assms] obtain m where m: "upload_entry h f a m" and st': "upload_stats st' =
      (case find_node h f of
         None \<Rightarrow> upload_stats st
       | Some n \<Rightarrow> dict_put a (member_size m, member_mtime m, now (tick st)) (upload_stats st))" by blast
  show "b \<noteq> a \<Longrightarrow> dict_get (upload_stats st') b = dict_get (upload_stats st) b"
    by (simp add: st' dict_store.entry_put_other split: option.split)
  from assms(1) have "\<nexists>t. find_node h f = Some (OtherNode t)"
    by (auto simp: add_upload_def Let_def elim!: bindrE)
  moreover have "\<exists>k. dict_get (upload_stats st') a = Some (0, t, now k)" if "find_node h f = Some (DirNode t)" for t
  proof -
    from assms(1) that obtain st1 where "add_parents (parent (parse_path a)) st = Inr st1" and
      "upload_stats st' = dict_put a (0, t, now (tick st1)) (upload_stats st1)"
      by (auto simp: add_upload_def Let_def tar_info_def elim!: bindrE)
    then show ?thesis by (auto simp: dict_store.entry_put)
  qed
  ultimately show "stat_recorded now h (upload_stats st) (upload_stats st') f a"
    using m by (auto simp: stat_recorded_def upload_entry_def st' dict_store.entry_put
        split: option.split node.split)
qed

lemma create_tar_stats:
  assumes "foldm (add_upload sha now local_time h) st ups = Inr st'" and "list_all (\<lambda>(f, a). inside_name a) ups"
    and "distinct (map snd ups)"
  shows "(\<forall>b. b \<notin> snd ` set ups \<longrightarrow> dict_get (upload_stats st') b = dict_get (upload_stats st) b) \<and>
    (\<forall>(f, a) \<in> set ups. stat_recorded now h (upload_stats st) (upload_stats st') f a)"
  using assms
proof (induction ups arbitrary: st)
  case (Cons up ups)
  obtain f a where up: "up = (f, a)" by (cases up)
  with Cons.prems obtain st2 where s: "add_upload sha now local_time h st (f, a) = Inr st2"
    and rest: "foldm (add_upload sha now local_time h) st2 ups = Inr st'"
    and a: "inside_name a" and ins: "list_all (\<lambda>(f, a). inside_name a) ups"
    and d: "a \<notin> snd ` set ups" "distinct (map snd ups)"
    by (auto elim!: bindrE)
  note one = add_upload_stat [OF s a]
  note IH = Cons.IH [OF rest ins d(2)]
  from IH d(1) have "dict_get (upload_stats st') a = dict_get (upload_stats st2) a" by blast
  then have "stat_recorded now h (upload_stats st) (upload_stats st') f a"
    using one(1) by (simp add: stat_recorded_def cong: option.case_cong node.case_cong)
  moreover have "stat_recorded now h (upload_stats st) (upload_stats st') g b" if "(g, b) \<in> set ups" for g b
  proof -
    from that d(1) have "b \<noteq> a" by force
    from IH that have "stat_recorded now h (upload_stats st2) (upload_stats st') g b" by blast
    with one(2) [OF \<open>b \<noteq> a\<close>] show ?thesis
      by (simp add: stat_recorded_def cong: option.case_cong node.case_cong)
  qed
  moreover have "dict_get (upload_stats st') b = dict_get (upload_stats st) b" if "b \<notin> snd ` set (up # ups)" for b
    using that IH one(2) up by auto
  ultimately show ?case using up by auto
qed simp

lemma upload_collected:
  assumes "upload sha now local_time h read_tar None ups st = Inr (Some ms, st')"
  shows "foldm (add_upload sha now local_time h) (st\<lparr>members := [], dirs := {}\<rparr>) ups = Inr st'"
    and "members st' = ms"
  using assms by (auto simp: upload_def Let_def create_tar_def split: if_splits elim!: bindrE)

section \<open>Properties\<close>

text \<open>A host and a state for the witnesses.\<close>

definition upload_host :: host where
  "upload_host =
     \<lparr>cwd = [''w''], tree = [([''w''], DirNode 0), ([''w'', ''d''], DirNode 1), ([''w'', ''d'', ''f''], FileNode [7] 2)]\<rparr>"

definition no_uploads :: upload_state where
  "no_uploads = \<lparr>members = [], dirs = {}, upload_stats = [], uploaded_files = [], tick = 0\<rparr>"

abbreviation demo_uploads :: "(ppath, string) dict" where
  "demo_uploads \<equiv> [(PPath '''' [''d'', ''f''], ''d/f''), (PPath '''' [''out'', ''x''], ''out/x'')]"

definition demo_upload :: "(tar_member list option \<times> upload_state) result" where
  "demo_upload = upload (\<lambda>d. ''ff'') (\<lambda>k. 9) (\<lambda>t. DateTime 1 1 1 0 0 0 0) upload_host
     (\<lambda>f. Inl OSError) None demo_uploads no_uploads"

text \<open>
  C13: every file and directory chosen for upload is in the archive under its name, with its
  contents and open to everyone, and every directory that leads to it comes before it as a
  member of its own, so that none is created with the permissions of root.
\<close>

theorem archive_holds_uploads:
  assumes "upload sha now local_time h read_tar None ups st = Inr (Some ms, st')"
    and "list_all (\<lambda>(f, a). inside_name a) ups"
  shows "list_all (\<lambda>(f, a). \<exists>pre m post. ms = pre @ m # post \<and> upload_entry h f a m \<and>
    new_directory ` as_posix ` prefixes_of (parent (parse_path a)) \<subseteq> set pre) ups"
proof -
  have "dirs_present (st\<lparr>members := [], dirs := {}\<rparr>)" by (simp add: dirs_present_def)
  from create_tar_state [OF upload_collected(1) [OF assms(1)] assms(2) this]
  have "\<forall>(f, a) \<in> set ups. \<exists>pre m post. members st' = pre @ m # post \<and> upload_entry h f a m \<and>
     (\<forall>d \<in> prefixes_of (parent (parse_path a)). new_directory (as_posix d) \<in> set pre)" by blast
  then show ?thesis
    using upload_collected(2) [OF assms(1)] unfolding list_all_iff image_image by (fastforce simp: image_subset_iff)
qed

theorem archive_holds_uploads_witness:
  "\<exists>ms st'. demo_upload = Inr (Some ms, st') \<and>
    list_all (\<lambda>(f, a). \<exists>pre m post. ms = pre @ m # post \<and> upload_entry upload_host f a m \<and>
      new_directory ` as_posix ` prefixes_of (parent (parse_path a)) \<subseteq> set pre) demo_uploads"
proof -
  have "demo_upload = Inr (Some (the (fst (projr demo_upload))), snd (projr demo_upload))" by code_simp
  moreover have "list_all (\<lambda>(f, a). inside_name a) demo_uploads" by code_simp
  ultimately show ?thesis unfolding demo_upload_def using archive_holds_uploads by blast
qed

text \<open>
  The command log gets one entry for every regular file that was uploaded, in order, with the
  resolved path of the host file, the digest of its contents and its modification time.
\<close>

theorem upload_log_is_exact:
  assumes "upload sha now local_time h read_tar None ups st = Inr (Some ms, st')"
    and "list_all (\<lambda>(f, a). inside_name a) ups"
  shows "uploaded_files st' = uploaded_files st @ concat (map (\<lambda>(f, a). upload_log sha local_time h f) ups)"
proof -
  have "dirs_present (st\<lparr>members := [], dirs := {}\<rparr>)" by (simp add: dirs_present_def)
  from create_tar_state [OF upload_collected(1) [OF assms(1)] assms(2) this] show ?thesis by simp
qed

theorem upload_log_is_exact_witness:
  "\<exists>ms st'. demo_upload = Inr (Some ms, st') \<and>
    uploaded_files st' = uploaded_files no_uploads @
      concat (map (\<lambda>(f, a). upload_log (\<lambda>d. ''ff'') (\<lambda>t. DateTime 1 1 1 0 0 0 0) upload_host f) demo_uploads)"
proof -
  have "demo_upload = Inr (Some (the (fst (projr demo_upload))), snd (projr demo_upload))" by code_simp
  moreover have "list_all (\<lambda>(f, a). inside_name a) demo_uploads" by code_simp
  ultimately show ?thesis unfolding demo_upload_def using upload_log_is_exact by blast
qed

text \<open>
  After an upload the statistics of every uploaded file that exists are its size (0 for a
  directory), its modification time and a reading of the clock, under its archive name; the
  statistics of other names do not change.
\<close>

theorem upload_stats_recorded:
  assumes "upload sha now local_time h read_tar None ups st = Inr (Some ms, st')"
    and "list_all (\<lambda>(f, a). inside_name a) ups" and "distinct (map snd ups)"
  shows "list_all (\<lambda>(f, a). stat_recorded now h (upload_stats st) (upload_stats st') f a) ups \<and>
    (b \<in> set (map snd ups) \<or> dict_get (upload_stats st') b = dict_get (upload_stats st) b)"
  using create_tar_stats [OF upload_collected(1) [OF assms(1)] assms(2,3)]
  by (auto simp: list_all_iff)

theorem upload_stats_recorded_witness:
  "\<exists>ms st'. demo_upload = Inr (Some ms, st') \<and>
    list_all (\<lambda>(f, a). stat_recorded (\<lambda>k. 9) upload_host (upload_stats no_uploads) (upload_stats st') f a)
      demo_uploads \<and>
    (''b'' \<in> set (map snd demo_uploads) \<or>
     dict_get (upload_stats st') ''b'' = dict_get (upload_stats no_uploads) ''b'')"
proof -
  have "demo_upload = Inr (Some (the (fst (projr demo_upload))), snd (projr demo_upload))" by code_simp
  moreover have "list_all (\<lambda>(f, a). inside_name a) demo_uploads" by code_simp
  moreover have "distinct (map snd demo_uploads)" by code_simp
  ultimately show ?thesis unfolding demo_upload_def using upload_stats_recorded by blast
qed

text \<open>
  An archive given by the user is sent to the container member by member as it is, and every
  regular file in it is logged with the digest of its contents.
\<close>

theorem explicit_archive_sent_unchanged:
  assumes "f \<noteq> ''''" and "read_tar f = Inr ms"
  shows "\<exists>st'. upload sha now local_time h read_tar (Some f) ups st = Inr (Some ms, st') \<and>
    map digest (uploaded_files st') =
      map digest (uploaded_files st) @ map (\<lambda>m. sha (member_data m)) (filter is_regular ms)"
proof -
  have "map digest (uploaded_files (list_members sha now local_time h ms st)) =
      map digest (uploaded_files st) @ map (\<lambda>m. sha (member_data m)) (filter is_regular ms)"
    by (induction ms arbitrary: st) (simp_all add: list_members_def list_member_def new_file_log_def Let_def)
  with assms show ?thesis by (simp add: upload_def)
qed

theorem explicit_archive_sent_unchanged_witness:
  "\<exists>st'. upload (\<lambda>d. ''ff'') (\<lambda>k. 9) (\<lambda>t. demo_time) upload_host
      (\<lambda>f. Inr [new_directory ''d'']) (Some ''in.tar'') [] no_uploads = Inr (Some [new_directory ''d''], st') \<and>
    map digest (uploaded_files st') =
      map digest (uploaded_files no_uploads) @
      map (\<lambda>m. ''ff'') (filter is_regular [new_directory ''d''])"
  by (rule explicit_archive_sent_unchanged) simp_all

end
