(* ===== verification/Tar_Download.thy ===== *)
theory Tar_Download
  imports Output_Filters Tar_Upload Host_Places
begin

text \<open>
  The download half of \<^verbatim>\<open>TarTool\<close> (\<^verbatim>\<open>cincan/tar_tool.py\<close>): reading the container's ignore file,
  deciding whether a file was modified, and copying the selected files to the host or into an
  archive.  The container is a record of what the Docker daemon answers: the changed paths of
  \<^verbatim>\<open>diff\<close> and, for a path, the members of the archive that \<^verbatim>\<open>get_archive\<close> sends or the error it
  raises.  A download is an action (theory \<open>Py_Steps\<close>): when it raises, what it has copied so far stays.
\<close>

record container =
  diff_paths :: "string option list"
  get_archive :: "string \<Rightarrow> tar_member list result"
  working_dir :: "string option"

text \<open>\<^verbatim>\<open>attrs['Config'].get('WorkingDir', '.') or '/'\<close>, with a slash at the end.\<close>

definition work_dir_of :: "container \<Rightarrow> string" where
  "work_dir_of c =
     (let d = (case working_dir c of None \<Rightarrow> ''.'' | Some d \<Rightarrow> d);
          w = (if d = '''' then ''/'' else d)
      in if \<not> endswith w ''/'' then w @ ''/'' else w)"

section \<open>The ignore file\<close>

text \<open>\<^verbatim>\<open>bytes.splitlines\<close>: lines end at a newline, a carriage return, or both in a row.\<close>

fun split_lines :: "bool \<Rightarrow> string \<Rightarrow> string \<Rightarrow> string list" where
  "split_lines after_return line [] = (if line = [] then [] else [line])"
| "split_lines after_return line (c # cs) =
     (if c = CHR 0x0A then
        if after_return \<and> line = [] then split_lines False [] cs else line # split_lines False [] cs
      else if c = CHR 0x0D then line # split_lines True [] cs
      else split_lines False (line @ [c]) cs)"

definition comment_line :: "string \<Rightarrow> bool" where
  "comment_line line = startswith (dropWhile whitespace line) ''#''"

text \<open>\<^verbatim>\<open>os.path.dirname\<close> and \<^verbatim>\<open>os.path.normpath\<close>, the second over the parts of a path.\<close>

definition dirname :: "string \<Rightarrow> string" where
  "dirname s =
     (let head = rev (dropWhile (\<lambda>c. c \<noteq> slash) (rev s))
      in if list_all (\<lambda>c. c = slash) head then head else rev (dropWhile (\<lambda>c. c = slash) (rev head)))"

fun norm_parts :: "bool \<Rightarrow> string list \<Rightarrow> string list \<Rightarrow> string list" where
  "norm_parts rooted done [] = rev done"
| "norm_parts rooted done (p # ps) =
     (if p \<noteq> dotdot \<or> \<not> rooted \<and> done = [] \<or> done \<noteq> [] \<and> hd done = dotdot then norm_parts rooted (p # done) ps
      else norm_parts rooted (tl done) ps)"

definition normpath :: "string \<Rightarrow> string" where
  "normpath s =
     (let p = parse_path s in as_posix (PPath (proot p) (norm_parts (proot p \<noteq> '''') [] (pparts p))))"

text \<open>
  \<^verbatim>\<open>extractfile\<close> of an archive that is not a stream finds the last member of the name and follows links:
  a symbolic link from the directory of the link, to the last member whose normalised name it leads
  to, a hard link to such a member before it.  Links that lead round in a circle, which takes more
  steps than there are members, end with a \<^verbatim>\<open>RecursionError\<close>.
\<close>

definition last_member :: "(string \<Rightarrow> bool) \<Rightarrow> tar_member list \<Rightarrow> nat option" where
  "last_member P ms = find (\<lambda>i. P (member_name (ms ! i))) (rev [0..<length ms])"

primrec extract_at :: "nat \<Rightarrow> tar_member list \<Rightarrow> nat \<Rightarrow> bytes result" where
  "extract_at 0 ms i = Inl RecursionError"
| "extract_at (Suc n) ms i =
     (let follow = (\<lambda>linkname before. case last_member (\<lambda>x. normpath x = normpath linkname) before of
                      None \<Rightarrow> Inl KeyError | Some j \<Rightarrow> extract_at n ms j)
      in case member_kind (ms ! i) of
           SymbolicLink t \<Rightarrow>
             follow (joined [slash] (filter (\<lambda>s. s \<noteq> '''') [dirname (member_name (ms ! i)), t])) ms
         | HardLink t \<Rightarrow> follow t (take i ms)
         | _ \<Rightarrow> read_member (ms ! i))"

definition extract_named :: "tar_member list \<Rightarrow> string \<Rightarrow> bytes result" where
  "extract_named ms name =
     (case last_member (\<lambda>x. x = name) ms of
        None \<Rightarrow> Inl KeyError
      | Some i \<Rightarrow> extract_at (Suc (length ms)) ms i)"

definition read_config_file :: "container \<Rightarrow> ppath \<Rightarrow> bool \<Rightarrow> string list result" where
  "read_config_file c filepath skip_comment =
     (case get_archive c (as_posix filepath) of
        Inl e \<Rightarrow> if e \<in> {DockerNotFound, DockerImageNotFound} then Inr [] else Inl e
      | Inr ms \<Rightarrow>
          bindr (extract_named ms (pname filepath)) (\<lambda>d.
            let file_lines = split_lines False [] (decode_text d)
            in Inr (filter (\<lambda>l. l \<noteq> '''') (if skip_comment then filter (\<lambda>l. \<not> comment_line l) file_lines
                                     else file_lines))))"

section \<open>Modified or not\<close>

text \<open>\<^verbatim>\<open>__check_if_modified\<close>: surely modified, surely not modified.\<close>

definition check_if_modified :: "(string, stat) dict \<Rightarrow> ppath \<Rightarrow> tar_member \<Rightarrow> bool \<times> bool" where
  "check_if_modified stats host_file file_info =
     (case dict_get stats (as_posix host_file) of
        None \<Rightarrow> (True, False)
      | Some (orig_size, orig_time, up_time) \<Rightarrow>
          if orig_size \<noteq> member_size file_info then (True, False)
          else
            let down_time_s = trunc_seconds (member_mtime file_info);
                orig_time_s = trunc_seconds orig_time;
                up_time_s = trunc_seconds up_time
            in if orig_time_s \<noteq> down_time_s then (True, False)
               else if orig_time_s \<noteq> up_time_s then (False, True)
               else (False, False))"

section \<open>Copying one file\<close>

text \<open>
  \<open>wanted\<close> is the set \<^verbatim>\<open>files\<close> of the names still to find, \<open>written\<close> the archive \<^verbatim>\<open>write_to\<close>
  if there is one.
\<close>

record download_state =
  fs :: host
  wanted :: "string set"
  out_log :: "file_log list"
  written :: "tar_member list option"
  ticks :: nat

definition temp_name :: "ppath \<Rightarrow> ppath" where
  "temp_name file_in_host = parse_path (as_posix file_in_host @ ''_TEMP'')"

text \<open>A regular file copied into the host file system, with the digest that is logged.\<close>

definition copy_to_host ::
  "(bytes \<Rightarrow> string) \<Rightarrow> int \<Rightarrow> bool \<Rightarrow> ppath \<Rightarrow> bytes \<Rightarrow> (host, string) action" where
  "copy_to_host sha now modified file_in_host data h =
     (if \<not> path_exists h file_in_host then
        and_then (make_parents now (parent file_in_host)) (\<lambda>_.
        case hash_file sha data of (md, copied) \<Rightarrow>
        and_then (attempt (write_file now file_in_host copied)) (\<lambda>_. give md)) h
      else
        let temp_file = temp_name file_in_host;
            replace = and_then (attempt (unlink file_in_host)) (\<lambda>_. attempt (rename_file temp_file file_in_host))
        in and_then (make_parents now (parent file_in_host)) (\<lambda>_.
           case hash_file sha data of (md, copied) \<Rightarrow>
           and_then (attempt (write_file now temp_file copied)) (\<lambda>_.
           if modified then and_then replace (\<lambda>_. give md)
           else
             and_then (ask (\<lambda>h. read_file h file_in_host)) (\<lambda>d.
             if md = fst (hash_file sha d) then and_then (attempt (unlink temp_file)) (\<lambda>_. give md)
             else and_then replace (\<lambda>_. give md)))) h)"

text \<open>The place on the host, if the member has one.\<close>

definition host_place :: "string \<Rightarrow> string \<Rightarrow> ppath option" where
  "host_place work_dir cont_full_name =
     (let place = (if startswith cont_full_name work_dir
                   then Some (parse_path (drop (length work_dir) cont_full_name))
                   else if startswith cont_full_name ''/'' then Some (parse_path (drop 1 cont_full_name))
                   else None)
      in case place of None \<Rightarrow> None | Some p \<Rightarrow> if is_absolute p then None else Some p)"

definition node_mtime :: "node \<Rightarrow> int" where
  "node_mtime n = (case n of FileNode d t \<Rightarrow> t | DirNode t \<Rightarrow> t | OtherNode t \<Rightarrow> t)"

text \<open>The host inside the state, and one more entry of the log.\<close>

definition on_host :: "(host, 'a) action \<Rightarrow> (download_state, 'a) action" where
  "on_host m st = (case m (fs st) of (r, h) \<Rightarrow> (r, st\<lparr>fs := h\<rparr>))"

definition log_download :: "ppath \<Rightarrow> string \<Rightarrow> datetime \<Rightarrow> (download_state, unit) action" where
  "log_download file_in_host md t st =
     (Inr (), st\<lparr>out_log := out_log st @ [new_file_log (resolve (fs st) file_in_host) md (Some t)]\<rparr>)"

definition mtime_of :: "ppath \<Rightarrow> host \<Rightarrow> int result" where
  "mtime_of p h = (case find_node h p of None \<Rightarrow> Inl FileNotFoundError | Some n \<Rightarrow> Inr (node_mtime n))"

text \<open>One member of the archive: the body of the loop of \<^verbatim>\<open>__download_file_set\<close>.\<close>

definition add_to_archive ::
  "(bytes \<Rightarrow> string) \<Rightarrow> ppath \<Rightarrow> tar_member \<Rightarrow> tar_member list \<Rightarrow> (download_state, string) action" where
  "add_to_archive sha file_in_host tar_file ms st =
     (case read_member tar_file of
        Inl e \<Rightarrow> (Inl e, st)
      | Inr d \<Rightarrow>
          (case hash_file sha d of (md, copied) \<Rightarrow>
             let write_tf = \<lparr>member_name = as_posix file_in_host, member_kind = RegularMember,
                             member_size = int (length copied), member_mtime = member_mtime tar_file,
                             member_mode = member_mode tar_file, member_data = copied\<rparr>
             in (Inr md, st\<lparr>written := Some (ms @ [write_tf])\<rparr>)))"

definition store_member ::
  "(bytes \<Rightarrow> string) \<Rightarrow> int \<Rightarrow> (int \<Rightarrow> datetime) \<Rightarrow> (string, stat) dict \<Rightarrow>
   ppath \<Rightarrow> tar_member \<Rightarrow> (download_state, unit) action" where
  "store_member sha now local_time stats file_in_host tar_file st =
     (case check_if_modified stats file_in_host tar_file of
        (modified, unmodified) \<Rightarrow>
          if unmodified then give () st
          else
            case written st of
              Some ms \<Rightarrow>
                and_then (add_to_archive sha file_in_host tar_file ms)
                  (\<lambda>md. log_download file_in_host md (local_time now)) st
            | None \<Rightarrow>
                if is_regular tar_file then
                  and_then (on_host (copy_to_host sha now modified file_in_host (member_data tar_file)))
                    (\<lambda>md. log_download file_in_host md (local_time now)) st
                else if \<not> path_exists (fs st) file_in_host then
                  and_then (on_host (make_parents now file_in_host)) (\<lambda>_.
                  and_then (on_host (ask (mtime_of file_in_host))) (\<lambda>t.
                  log_download file_in_host '''' (local_time t))) st
                else log_download file_in_host '''' (local_time now) st)"

definition cont_name :: "string \<Rightarrow> tar_member \<Rightarrow> string" where
  "cont_name file_path tar_file =
     as_posix (join_path (parent (parse_path file_path)) (parse_path (member_name tar_file)))"

definition download_member ::
  "(bytes \<Rightarrow> string) \<Rightarrow> (nat \<Rightarrow> int) \<Rightarrow> (int \<Rightarrow> datetime) \<Rightarrow> (string, stat) dict \<Rightarrow> string \<Rightarrow> string \<Rightarrow>
   tar_member \<Rightarrow> (download_state, unit) action" where
  "download_member sha now local_time stats work_dir file_path tar_file st =
     (let cont_full_name = cont_name file_path tar_file
      in if cont_full_name \<notin> wanted st then give () st
         else
           let st1 = st\<lparr>wanted := wanted st - {cont_full_name}, ticks := Suc (ticks st)\<rparr>
           in case host_place work_dir cont_full_name of
                None \<Rightarrow> give () st1
              | Some p \<Rightarrow> store_member sha (now (ticks st)) local_time stats p tar_file st1)"

definition download_file_set ::
  "(bytes \<Rightarrow> string) \<Rightarrow> (nat \<Rightarrow> int) \<Rightarrow> (int \<Rightarrow> datetime) \<Rightarrow> (string, stat) dict \<Rightarrow> container \<Rightarrow> string \<Rightarrow>
   string \<Rightarrow> (download_state, unit) action" where
  "download_file_set sha now local_time stats c work_dir file_path =
     (case get_archive c file_path of
        Inl e \<Rightarrow> if e \<in> {DockerNotFound, DockerImageNotFound} then give () else raise e
      | Inr ms \<Rightarrow> for_each (download_member sha now local_time stats work_dir file_path) ms)"

section \<open>The download\<close>

text \<open>
  \<^verbatim>\<open>download_files\<close>.  The selection comes first, then the archive of \<^verbatim>\<open>--out\<close> is opened, if there is one;
  it is closed whatever happens in between.  \<open>file_paths\<close> is
  empty where Python passes \<^verbatim>\<open>None\<close>, and an element of it is \<open>None\<close> where the option was written without
  a value.  The result is the error, if there is one, and the state that is left:
  the host, the log and the archive with the members written until then.
\<close>

definition select_files :: "container \<Rightarrow> file_matcher list \<Rightarrow> bool \<Rightarrow> string list result" where
  "select_files c filters no_defaults =
     (let work_dir = work_dir_of c;
          candidates = rev (sort (map the (filter (\<lambda>p. p \<noteq> None) (diff_paths c))))
      in bindr (read_config_file c (join_path (parse_path work_dir) (parse_path IGNORE_FILENAME)) True) (\<lambda>config.
           Inr (filter_files work_dir config candidates filters no_defaults)))"

definition download_explicit ::
  "(bytes \<Rightarrow> string) \<Rightarrow> (nat \<Rightarrow> int) \<Rightarrow> (int \<Rightarrow> datetime) \<Rightarrow> (string, stat) dict \<Rightarrow> container \<Rightarrow> string \<Rightarrow>
   string option \<Rightarrow> (download_state, unit) action" where
  "download_explicit sha now local_time stats c work_dir fp st =
     (if wanted st = {} then give () st
      else case fp of
        None \<Rightarrow> raise TypeError st
      | Some p \<Rightarrow>
          download_file_set sha now local_time stats c work_dir
            (as_posix (join_path (parse_path work_dir) (parse_path p))) st)"

definition fetch_selected ::
  "(bytes \<Rightarrow> string) \<Rightarrow> (nat \<Rightarrow> int) \<Rightarrow> (int \<Rightarrow> datetime) \<Rightarrow> (string, stat) dict \<Rightarrow> container \<Rightarrow>
   string option list \<Rightarrow> bool \<Rightarrow> (download_state, unit) action" where
  "fetch_selected sha now local_time stats c file_paths implicit_output =
     (let work_dir = work_dir_of c;
          fetch = download_file_set sha now local_time stats c work_dir
      in and_then (if implicit_output \<and> work_dir \<noteq> ''/'' then fetch work_dir else give ()) (\<lambda>_.
         and_then (for_each (download_explicit sha now local_time stats c work_dir) file_paths) (\<lambda>_ st.
         if implicit_output \<and> wanted st \<noteq> {} then for_each fetch (sorted_list_of_set (wanted st)) st
         else give () st)))"

text \<open>
  The archive that \<open>explicit_file\<close> names: \<^verbatim>\<open>-\<close> is the standard output, the empty string no archive.
  \<open>tar_text\<close> is the layout of tar files, which is not modelled.
\<close>

definition given_file :: "string option \<Rightarrow> bool" where
  "given_file explicit_file \<longleftrightarrow> explicit_file \<noteq> None \<and> explicit_file \<noteq> Some ''''"

definition archive_file :: "string option \<Rightarrow> ppath option" where
  "archive_file explicit_file =
     (case explicit_file of
        None \<Rightarrow> None
      | Some f \<Rightarrow> if f = '''' \<or> f = ''-'' then None else Some (parse_path f))"

definition close_archive ::
  "(tar_member list \<Rightarrow> bytes) \<Rightarrow> (nat \<Rightarrow> int) \<Rightarrow> ppath \<Rightarrow> (download_state, unit) action" where
  "close_archive tar_text now f st =
     on_host (attempt (write_file (now (ticks st)) f
       (tar_text (case written st of None \<Rightarrow> [] | Some ms \<Rightarrow> ms)))) st"

definition in_archive ::
  "(tar_member list \<Rightarrow> bytes) \<Rightarrow> (nat \<Rightarrow> int) \<Rightarrow> string option \<Rightarrow> (download_state, unit) action \<Rightarrow>
   (download_state, unit) action" where
  "in_archive tar_text now explicit_file m =
     (case archive_file explicit_file of
        None \<Rightarrow> m
      | Some f \<Rightarrow>
          and_then (on_host (attempt (write_file (now 0) f [])))
            (\<lambda>_. finally_do m (close_archive tar_text now f)))"

definition begin_download :: "bool \<Rightarrow> host \<Rightarrow> string list \<Rightarrow> download_state" where
  "begin_download to_tar h candidates =
     \<lparr>fs = h, wanted = set candidates, out_log = [], written = (if to_tar then Some [] else None), ticks = 0\<rparr>"

definition download_files ::
  "(bytes \<Rightarrow> string) \<Rightarrow> (nat \<Rightarrow> int) \<Rightarrow> (int \<Rightarrow> datetime) \<Rightarrow> (string, stat) dict \<Rightarrow> container \<Rightarrow>
   (tar_member list \<Rightarrow> bytes) \<Rightarrow> file_matcher list \<Rightarrow> bool \<Rightarrow> string option list \<Rightarrow> bool \<Rightarrow> string option \<Rightarrow> host \<Rightarrow>
   unit result \<times> download_state" where
  "download_files sha now local_time stats c tar_text filters no_defaults file_paths implicit_output explicit_file h =
     (case select_files c filters no_defaults of
        Inl e \<Rightarrow> (Inl e, begin_download False h [])
      | Inr candidates \<Rightarrow>
          in_archive tar_text now explicit_file (fetch_selected sha now local_time stats c file_paths implicit_output)
            (begin_download (given_file explicit_file) h candidates))"

section \<open>The temporary file\<close>

lemma temp_name_parts:
  assumes "inside_path p"
  shows "temp_name p = PPath '''' (butlast (pparts p) @ [last (pparts p) @ ''_TEMP''])"
proof -
  let ?ps = "pparts p" and ?t = "PPath '''' (butlast (pparts p) @ [last (pparts p) @ ''_TEMP''])"
  from assms have ne: "?ps \<noteq> []" and root: "proot p = ''''" and parts: "list_all wf_part ?ps"
    by (auto simp: inside_path_def wf_path_def)
  have "wf_part (last ?ps @ ''_TEMP'')"
    using ne parts by (auto simp: list_all_iff wf_part_def slash_def dest!: last_in_set)
  with parts have wf: "wf_path ?t"
    by (auto simp: wf_path_def list_all_iff dest: in_set_butlastD)
  have "joined [slash] (butlast ?ps @ [last ?ps]) @ ''_TEMP'' =
      joined [slash] (butlast ?ps @ [last ?ps @ ''_TEMP''])"
    by (cases "butlast ?ps = []") (simp_all add: joined_append)
  with ne root have "as_posix p @ ''_TEMP'' = as_posix ?t"
    by (simp add: as_posix_def)
  with wf show ?thesis by (simp add: temp_name_def)
qed

lemma temp_inside:
  assumes "inside_path p"
  shows "inside_path (temp_name p)" and "place_of h (temp_name p) \<noteq> place_of h p"
proof -
  from assms have ne: "pparts p \<noteq> []" and parts: "list_all wf_part (pparts p)" and nd: "dotdot \<notin> set (pparts p)"
    by (auto simp: inside_path_def wf_path_def)
  have last: "last (pparts p) @ ''_TEMP'' \<noteq> dotdot" "last (pparts p) @ ''_TEMP'' \<noteq> last (pparts p)"
    by (auto simp: dotdot_def append_eq_Cons_conv)
  have "wf_part (last (pparts p) @ ''_TEMP'')"
    using ne parts by (auto simp: list_all_iff wf_part_def slash_def dest!: last_in_set)
  with parts nd last show "inside_path (temp_name p)"
    by (auto simp: temp_name_parts [OF assms] inside_path_def wf_path_def list_all_iff dest: in_set_butlastD)
  show "place_of h (temp_name p) \<noteq> place_of h p"
  proof
    assume "place_of h (temp_name p) = place_of h p"
    then have "last (pparts (temp_name p)) = last (pparts p)" by (simp add: place_of_def)
    with last show False by (simp add: temp_name_parts [OF assms])
  qed
qed

section \<open>Copying a file\<close>

text \<open>The three ways of a successful copy.\<close>

lemma copy_to_host_cases:
  assumes c: "copy_to_host sha now modified p data h = (Inr md, h')" and p: "inside_path p"
  obtains (fresh) h1 where "\<not> path_exists h p" and "md = sha data"
      and "makes_dirs (way_to h (parent p)) h h1" and "write_file now p data h1 = Inr h'"
  | (replaced) h1 h2 h3 where "path_exists h p" and "md = sha data"
      and "makes_dirs (way_to h (parent p)) h h1" and "write_file now (temp_name p) data h1 = Inr h2"
      and "unlink p h2 = Inr h3" and "rename_file (temp_name p) p h3 = Inr h'"
      and "modified \<or> (\<exists>d. read_file h2 p = Inr d \<and> sha d \<noteq> sha data)"
  | (identical) h1 h2 d where "path_exists h p" and "md = sha data" and "\<not> modified"
      and "makes_dirs (way_to h (parent p)) h h1" and "write_file now (temp_name p) data h1 = Inr h2"
      and "read_file h2 p = Inr d" and "sha d = sha data" and "unlink (temp_name p) h2 = Inr h'"
proof -
  have parent: "makes_dirs (way_to h (parent p)) h h1" if "make_parents now (parent p) h = (Inr u, h1)" for u h1
    using p make_parents_makes [of "parent p" h now] parent_plain [of p] that by (simp add: inside_path_def)
  show ?thesis
  proof (cases "path_exists h p")
    case False
    with c parent fresh show ?thesis by (auto simp: copy_to_host_def elim!: and_then_Inr)
  next
    case True
    let ?replace = "and_then (attempt (unlink p)) (\<lambda>_. attempt (rename_file (temp_name p) p))"
    from c True obtain h1 h2 where mk: "make_parents now (parent p) h = (Inr (), h1)"
      and wr: "write_file now (temp_name p) data h1 = Inr h2"
      and rest: "(if modified then and_then ?replace (\<lambda>_. give (sha data))
        else and_then (ask (\<lambda>h. read_file h p)) (\<lambda>d.
          if sha data = sha d then and_then (attempt (unlink (temp_name p))) (\<lambda>_. give (sha data))
          else and_then ?replace (\<lambda>_. give (sha data)))) h2 = (Inr md, h')"
      unfolding copy_to_host_def Let_def by (auto cong: if_cong elim!: and_then_Inr)
    note mk' = parent [OF mk]
    show ?thesis
    proof (cases modified)
      case mod: True
      with rest obtain h3 where "unlink p h2 = Inr h3" "rename_file (temp_name p) p h3 = Inr h'" "md = sha data"
        by (auto elim!: and_then_Inr)
      with replaced [OF True _ mk' wr] mod show ?thesis by blast
    next
      case unmod: False
      with rest obtain d where d: "read_file h2 p = Inr d"
        and tail: "(if sha data = sha d then and_then (attempt (unlink (temp_name p))) (\<lambda>_. give (sha data))
          else and_then ?replace (\<lambda>_. give (sha data))) h2 = (Inr md, h')"
        by (auto elim!: and_then_Inr [of "ask _"])
      show ?thesis
      proof (cases "sha data = sha d")
        case eq: True
        with tail have u: "md = sha data" "unlink (temp_name p) h2 = Inr h'" by (auto elim!: and_then_Inr)
        show ?thesis by (rule identical [OF True u(1) unmod mk' wr d eq [symmetric] u(2)])
      next
        case False
        with tail obtain h3 where h3: "md = sha data" "unlink p h2 = Inr h3"
          "rename_file (temp_name p) p h3 = Inr h'"
          by (auto elim!: and_then_Inr)
        from d False have "modified \<or> (\<exists>d. read_file h2 p = Inr d \<and> sha d \<noteq> sha data)" by auto
        with h3 show ?thesis by (intro replaced [OF True _ mk' wr])
      qed
    qed
  qed
qed

text \<open>What a copy leaves behind: its own file, no temporary file, and the rest as it was.\<close>

definition same_content :: "(bytes \<Rightarrow> string) \<Rightarrow> ppath \<Rightarrow> bytes \<Rightarrow> host \<Rightarrow> bool" where
  "same_content sha p data h \<longleftrightarrow> (case read_file h p of Inl e \<Rightarrow> False | Inr d \<Rightarrow> sha d = sha data)"

definition copied :: "(bytes \<Rightarrow> string) \<Rightarrow> int \<Rightarrow> bool \<Rightarrow> ppath \<Rightarrow> bytes \<Rightarrow> host \<Rightarrow> host \<Rightarrow> bool" where
  "copied sha now modified p data h h' \<longleftrightarrow>
     cwd h' = cwd h \<and>
     node_at h' (place_of h p) =
       (if \<not> modified \<and> same_content sha p data h then node_at h (place_of h p)
        else Some (FileNode data now)) \<and>
     (path_exists h p \<longrightarrow> node_at h' (place_of h (temp_name p)) = None) \<and>
     (\<forall>l. l \<noteq> place_of h p \<and> (path_exists h p \<longrightarrow> l \<noteq> place_of h (temp_name p)) \<longrightarrow>
        node_at h' l = node_at h l \<or>
        (l \<in> way_to h (parent p) \<and> node_at h l = None \<and> (\<exists>t. node_at h' l = Some (DirNode t))))"

lemma same_content_node:
  assumes "inside_path p" and "same_content sha p data h"
  shows "\<exists>d t. node_at h (place_of h p) = Some (FileNode d t) \<and> sha d = sha data"
  using assms by (auto simp: same_content_def split: sum.splits dest!: read_file_node node_of_place)

text \<open>Making the parents and the temporary file does not touch the old file.\<close>

lemma old_file_untouched:
  assumes p: "inside_path p" and ex: "path_exists h p" and mk: "makes_dirs (way_to h (parent p)) h h1"
    and w: "only_changes {place_of h (temp_name p)} h1 h2" and r: "read_file h2 p = Inr d"
  obtains t where "node_at h (place_of h p) = Some (FileNode d t)" and "node_at h1 (place_of h p) = Some (FileNode d t)"
    and "same_content sha p data h \<longleftrightarrow> sha d = sha data"
proof -
  have cwd: "cwd h2 = cwd h" using mk w by (simp add: makes_dirs_def only_changes_def)
  from read_file_node [OF r] obtain t where "find_node h2 p = Some (FileNode d t)" by blast
  from node_of_place [OF p this] place_of_cwd [OF cwd]
  have "node_at h2 (place_of h p) = Some (FileNode d t)" by simp
  with w temp_inside(2) [OF p, of h] have at1: "node_at h1 (place_of h p) = Some (FileNode d t)"
    by (simp add: only_changes_def)
  have "node_at h1 (place_of h p) = node_at h (place_of h p)"
    by (rule makes_dirs_existing [OF mk]) (rule exists_at_place [OF p ex])
  with at1 have at: "node_at h (place_of h p) = Some (FileNode d t)" by simp
  obtain n where n: "find_node h p = Some n" using ex by (auto simp: path_exists_def)
  with node_of_place [OF p n] at have "find_node h p = Some (FileNode d t)" by simp
  then have "read_file h p = Inr d" by (auto simp: find_node_def read_file_def split: sum.splits)
  with that at at1 show ?thesis by (simp add: same_content_def)
qed

lemma copy_to_host_copied:
  assumes c: "copy_to_host sha now modified p data h = (Inr md, h')" and p: "inside_path p"
  shows "md = sha data \<and> copied sha now modified p data h h'"
  using c p
proof (cases rule: copy_to_host_cases)
  case (fresh h1)
  then have cwd: "cwd h1 = cwd h" by (simp add: makes_dirs_def)
  from write_changes [OF fresh(4) p] place_of_cwd [OF cwd]
  have "only_changes {place_of h p} h1 h'" "node_at h' (place_of h p) = Some (FileNode data now)" by auto
  moreover have "\<not> same_content sha p data h"
    using fresh(1) by (auto simp: same_content_def path_exists_def dest: read_file_node split: sum.splits)
  ultimately show ?thesis using fresh cwd by (auto simp: copied_def only_changes_def makes_dirs_def)
next
  case (replaced h1 h2 h3)
  note t = temp_inside [OF p]
  have cwd1: "cwd h1 = cwd h" using replaced(3) by (simp add: makes_dirs_def)
  from write_changes [OF replaced(4) t(1)] place_of_cwd [OF cwd1]
  have w: "only_changes {place_of h (temp_name p)} h1 h2"
    "node_at h2 (place_of h (temp_name p)) = Some (FileNode data now)" by auto
  then have cwd2: "cwd h2 = cwd h" using cwd1 by (simp add: only_changes_def)
  from unlink_changes [OF replaced(5) p] place_of_cwd [OF cwd2]
  have u: "only_changes {place_of h p} h2 h3" "node_at h3 (place_of h p) = None" by auto
  then have cwd3: "cwd h3 = cwd h" using cwd2 by (simp add: only_changes_def)
  from rename_changes [OF replaced(6) t(1) p] t(2) place_of_cwd [OF cwd3]
  have r: "only_changes {place_of h (temp_name p), place_of h p} h3 h'"
    "node_at h' (place_of h (temp_name p)) = None"
    "node_at h' (place_of h p) = node_at h3 (place_of h (temp_name p))" by auto
  have "node_at h3 (place_of h (temp_name p)) = Some (FileNode data now)"
    using u(1) w(2) t(2) by (simp add: only_changes_def)
  moreover have "only_changes {place_of h (temp_name p), place_of h p} h1 h'"
    using only_changes_trans [OF only_changes_trans [OF w(1) u(1)] r(1)] by (simp add: insert_commute)
  moreover have "\<not> (\<not> modified \<and> same_content sha p data h)"
    using replaced(7) old_file_untouched [OF p replaced(1,3) w(1)] by metis
  ultimately show ?thesis
    using r(2,3) replaced(1,2,3) cwd1 by (auto simp: copied_def only_changes_def makes_dirs_def)
next
  case (identical h1 h2 d)
  note t = temp_inside [OF p]
  have cwd1: "cwd h1 = cwd h" using identical(4) by (simp add: makes_dirs_def)
  from write_changes [OF identical(5) t(1)] place_of_cwd [OF cwd1]
  have w: "only_changes {place_of h (temp_name p)} h1 h2" by auto
  then have cwd2: "cwd h2 = cwd h" using cwd1 by (simp add: only_changes_def)
  from unlink_changes [OF identical(8) t(1)] place_of_cwd [OF cwd2]
  have u: "only_changes {place_of h (temp_name p)} h2 h'" "node_at h' (place_of h (temp_name p)) = None" by auto
  have h1h': "only_changes {place_of h (temp_name p)} h1 h'" using only_changes_trans [OF w u(1)] by simp
  obtain tm where at: "node_at h (place_of h p) = Some (FileNode d tm)"
    and at1: "node_at h1 (place_of h p) = Some (FileNode d tm)" and "same_content sha p data h"
    using old_file_untouched [OF p identical(1,4) w identical(6), of sha data] identical(7) by blast
  moreover have "node_at h' (place_of h p) = Some (FileNode d tm)"
    using h1h' at1 t(2) [of h] by (simp add: only_changes_def)
  ultimately show ?thesis
    using u(2) h1h' identical(1,2,3,4) cwd1 by (auto simp: copied_def only_changes_def makes_dirs_def)
qed

section \<open>The loop\<close>

text \<open>Nothing outside the working directory changes, whether an operation raises or not.\<close>

definition keeps_outside :: "host \<Rightarrow> host \<Rightarrow> bool" where
  "keeps_outside h h' \<longleftrightarrow> cwd h' = cwd h \<and> (\<forall>l. \<not> prefix (cwd h) l \<longrightarrow> node_at h' l = node_at h l)"

lemma keeps_outside_refl [simp]: "keeps_outside h h"
  by (simp add: keeps_outside_def)

lemma keeps_outside_trans: "keeps_outside h h' \<Longrightarrow> keeps_outside h' h'' \<Longrightarrow> keeps_outside h h''"
  by (simp add: keeps_outside_def)

lemma only_changes_outside:
  assumes "only_changes S h h'" and "\<And>l. l \<in> S \<Longrightarrow> prefix (cwd h) l"
  shows "keeps_outside h h'"
  using assms unfolding only_changes_def keeps_outside_def by blast

lemma makes_dirs_outside: "makes_dirs (way_to h p) h h' \<Longrightarrow> keeps_outside h h'"
  unfolding makes_dirs_def keeps_outside_def way_to_def by auto

lemma keeps_outside_attempt:
  assumes "\<And>h h'. f h = Inr h' \<Longrightarrow> keeps_outside h h'"
  shows "keeps (keeps_outside h0) (attempt f)"
  using assms keeps_outside_trans by (intro keeps_attempt) blast

lemma write_outside: "inside_path p \<Longrightarrow> keeps (keeps_outside h) (attempt (write_file now p d))"
  by (rule keeps_outside_attempt) (auto intro!: only_changes_outside dest!: write_changes simp: place_of_def)

lemma unlink_outside: "inside_path p \<Longrightarrow> keeps (keeps_outside h) (attempt (unlink p))"
  by (rule keeps_outside_attempt) (auto intro!: only_changes_outside dest!: unlink_changes simp: place_of_def)

lemma rename_outside:
  assumes "inside_path p"
  shows "keeps (keeps_outside h) (attempt (rename_file (temp_name p) p))"
proof (rule keeps_outside_attempt)
  fix h h' assume "rename_file (temp_name p) p h = Inr h'"
  from rename_changes(1) [OF this temp_inside(1) [OF assms] assms temp_inside(2) [OF assms]]
  show "keeps_outside h h'" by (rule only_changes_outside) (auto simp: place_of_def)
qed

lemma make_parents_outside:
  "proot p = '''' \<and> dotdot \<notin> set (pparts p) \<Longrightarrow> keeps (keeps_outside h) (make_parents now p)"
  using makes_dirs_outside [OF make_parents_makes] keeps_outside_trans by (intro keepsI) blast

lemmas inside_keeps = write_outside unlink_outside rename_outside make_parents_outside keeps_ask keeps_simple

lemma inside_plain: "inside_path p \<Longrightarrow> proot p = '''' \<and> dotdot \<notin> set (pparts p)"
  by (simp add: inside_path_def)

text \<open>What the parts of a copy keep, the copy keeps, whether it raises or not.\<close>

lemma copy_to_host_keeps:
  assumes mk: "keeps P (make_parents now (parent p))"
    and wr: "\<And>d. keeps P (attempt (write_file now p d))" "\<And>d. keeps P (attempt (write_file now (temp_name p) d))"
    and un: "keeps P (attempt (unlink p))" "keeps P (attempt (unlink (temp_name p)))"
    and mv: "keeps P (attempt (rename_file (temp_name p) p))"
  shows "keeps P (copy_to_host sha now modified p data)"
proof -
  have replace: "keeps P (and_then (and_then (attempt (unlink p)) (\<lambda>_. attempt (rename_file (temp_name p) p))) (\<lambda>_. give md))"
    for md :: string
    by (intro keeps_and_then un mv keeps_simple)
  have fresh: "keeps P (and_then (make_parents now (parent p)) (\<lambda>_.
      case hash_file sha data of (md, d) \<Rightarrow> and_then (attempt (write_file now p d)) (\<lambda>_. give md)))"
    unfolding hash_file_eq prod.case by (simp add: keeps_and_then mk wr)
  have same: "keeps P (and_then (ask (\<lambda>h. read_file h p)) (\<lambda>d. if md = f d then and_then (attempt (unlink (temp_name p))) (\<lambda>_. give md)
      else and_then (and_then (attempt (unlink p)) (\<lambda>_. attempt (rename_file (temp_name p) p))) (\<lambda>_. give md)))"
    for md :: string and f
    by (simp add: keeps_and_then un replace)
  have "keeps P (and_then (make_parents now (parent p)) (\<lambda>_.
      case hash_file sha data of (md, d) \<Rightarrow> and_then (attempt (write_file now (temp_name p) d)) (\<lambda>_.
      if modified then and_then (and_then (attempt (unlink p)) (\<lambda>_. attempt (rename_file (temp_name p) p))) (\<lambda>_. give md)
      else and_then (ask (\<lambda>h. read_file h p)) (\<lambda>d.
        if md = fst (hash_file sha d) then and_then (attempt (unlink (temp_name p))) (\<lambda>_. give md)
        else and_then (and_then (attempt (unlink p)) (\<lambda>_. attempt (rename_file (temp_name p) p))) (\<lambda>_. give md)))))"
    unfolding hash_file_eq prod.case by (simp add: keeps_and_then mk wr replace same)
  with fresh show ?thesis unfolding copy_to_host_def Let_def keeps_def by simp
qed

lemma copy_to_host_outside:
  assumes p: "inside_path p"
  shows "keeps (keeps_outside h0) (copy_to_host sha now modified p data)"
  using p temp_inside(1) [OF p] parent_plain [OF inside_plain [OF p]]
  by (intro copy_to_host_keeps inside_keeps)

text \<open>The effect of storing one member, with or without an error.\<close>

definition member_effect :: "download_state \<Rightarrow> ppath \<Rightarrow> download_state \<Rightarrow> bool" where
  "member_effect st p st' \<longleftrightarrow>
     keeps_outside (fs st) (fs st') \<and> wanted st' = wanted st \<and> ticks st' = ticks st \<and>
     (written st \<noteq> None \<longrightarrow> fs st' = fs st) \<and> (written st' = None \<longleftrightarrow> written st = None) \<and>
     (out_log st' = out_log st \<or>
      (\<exists>md t. out_log st' = out_log st @ [new_file_log (resolve (fs st) p) md (Some t)]))"

lemma store_member_effect:
  assumes p: "inside_path p"
  shows "member_effect st p (snd (store_member sha now local_time stats p m st))"
proof -
  have log: "member_effect st p (snd (log_download p md t st'))"
    if "member_effect st p st'" "out_log st' = out_log st" for md t st'
  proof -
    from that(1) have "resolve (fs st') p = resolve (fs st) p"
      by (simp add: member_effect_def resolve_def base_of_def keeps_outside_def)
    with that show ?thesis by (auto simp: member_effect_def log_download_def)
  qed
  have host: "member_effect st p (snd (and_then (on_host a) f st))"
    if "keeps (keeps_outside (fs st)) a" "written st = None"
      "\<And>x st'. member_effect st p st' \<Longrightarrow> out_log st' = out_log st \<Longrightarrow> written st' = None \<Longrightarrow> member_effect st p (snd (f x st'))"
    for a :: "(host, 'b) action" and f :: "'b \<Rightarrow> (download_state, unit) action"
  proof -
    obtain r h where a: "a (fs st) = (r, h)" by fastforce
    from keeps_apply [OF that(1) keeps_outside_refl] a that(2)
    have "member_effect st p (st\<lparr>fs := h\<rparr>)" by (simp add: member_effect_def)
    with that(2,3) a show ?thesis by (cases r) (simp_all add: and_then_snd on_host_def)
  qed
  have same: "member_effect st p st" by (simp add: member_effect_def)
  obtain modified unmodified where chk: "check_if_modified stats p m = (modified, unmodified)" by fastforce
  show ?thesis
  proof (cases unmodified)
    case True
    with chk same show ?thesis by (simp add: store_member_def give_def)
  next
    case look: False
    show ?thesis
    proof (cases "written st")
      case (Some ms)
      with chk look have "store_member sha now local_time stats p m st =
          and_then (add_to_archive sha p m ms) (\<lambda>md. log_download p md (local_time now)) st"
        by (simp add: store_member_def)
      moreover have "member_effect st p (st\<lparr>written := Some ns\<rparr>)" for ns
        using Some by (simp add: member_effect_def)
      ultimately show ?thesis
        using same log by (cases "read_member m") (simp_all add: add_to_archive_def and_then_snd Let_def)
    next
      case None
      have regular: "member_effect st p (snd (and_then (on_host (copy_to_host sha now modified p d))
          (\<lambda>md. log_download p md (local_time now)) st))" for d
        by (rule host [OF copy_to_host_outside [OF p] None]) (rule log)
      have dir: "member_effect st p (snd (and_then (on_host (make_parents now p)) (\<lambda>_.
          and_then (on_host (ask (mtime_of p))) (\<lambda>t. log_download p '''' (local_time t))) st))"
      proof (rule host [OF make_parents_outside [OF inside_plain [OF p]] None])
        fix st' assume st': "member_effect st p st'" "out_log st' = out_log st"
        with log show "member_effect st p (snd (and_then (on_host (ask (mtime_of p)))
            (\<lambda>t. log_download p '''' (local_time t)) st'))"
          by (cases "mtime_of p (fs st')") (simp_all add: and_then_snd on_host_def ask_def)
      qed
      from chk look None regular dir log [OF same] show ?thesis by (simp add: store_member_def)
    qed
  qed
qed

text \<open>An invariant of the body of the loop is an invariant of the whole loop.\<close>

lemma fetch_selected_keeps:
  assumes step: "\<And>f m. keeps P (download_member sha now local_time stats (work_dir_of c) f m)"
  shows "keeps P (fetch_selected sha now local_time stats c paths implicit)"
proof -
  let ?fetch = "download_file_set sha now local_time stats c (work_dir_of c)"
  have set_keeps: "keeps P (?fetch f)" for f
    unfolding download_file_set_def by (auto intro!: keeps_for_each step split: sum.splits)
  have one: "keeps P (if implicit \<and> work_dir_of c \<noteq> ''/'' then ?fetch (work_dir_of c) else give ())"
    using set_keeps by simp
  have "keeps P (download_explicit sha now local_time stats c (work_dir_of c) fp)" for fp
    using set_keeps by (simp add: keeps_def download_explicit_def give_def raise_def split: option.split)
  then have two: "keeps P (for_each (download_explicit sha now local_time stats c (work_dir_of c)) paths)"
    by (rule keeps_for_each)
  have "keeps P (for_each ?fetch fs)" for fs
    using set_keeps by (rule keeps_for_each)
  then have three: "keeps P (\<lambda>st. if implicit \<and> wanted st \<noteq> {}
      then for_each ?fetch (sorted_list_of_set (wanted st)) st else give () st)"
    by (simp add: keeps_def give_def)
  show ?thesis
    using keeps_and_then [OF one keeps_and_then [OF two three]] by (simp add: fetch_selected_def Let_def)
qed

text \<open>
  What an archive changes on the host: the file of that name and nothing else.  \<open>stays\<close> is what a
  download as a whole changes.
\<close>

definition writes_only :: "ppath \<Rightarrow> host \<Rightarrow> host \<Rightarrow> bool" where
  "writes_only f h h' \<longleftrightarrow> cwd h' = cwd h \<and> dir_at h' = dir_at h \<and>
     (\<forall>l. locate h f \<noteq> Inr l \<longrightarrow> node_at h' l = node_at h l)"

definition stays :: "string option \<Rightarrow> host \<Rightarrow> host \<Rightarrow> bool" where
  "stays explicit_file h h' \<longleftrightarrow>
     (case archive_file explicit_file of None \<Rightarrow> keeps_outside h h' | Some f \<Rightarrow> writes_only f h h')"

lemma writes_only_locate: "writes_only f h h' \<Longrightarrow> locate h' p = Inr l \<longleftrightarrow> locate h p = Inr l"
  using walk_same_dirs [of h' h] by (simp add: writes_only_def locate_def base_of_def)

lemma writes_only_refl [simp]: "writes_only f h h"
  by (simp add: writes_only_def)

lemma writes_only_trans: "writes_only f h h' \<Longrightarrow> writes_only f h' h'' \<Longrightarrow> writes_only f h h''"
  using writes_only_locate [of f h h' f] unfolding writes_only_def by metis

lemma stays_refl [simp]: "stays x h h"
  by (simp add: stays_def split: option.split)

lemma stays_trans: "stays x h h' \<Longrightarrow> stays x h' h'' \<Longrightarrow> stays x h h''"
  using keeps_outside_trans writes_only_trans by (auto simp: stays_def split: option.splits)

lemma write_file_writes_only:
  assumes "write_file now f d h = Inr h'"
  shows "writes_only f h h'"
proof -
  from assms obtain l where l: "locate h f = Inr l" "\<not> dir_at h l" "h' = put_node l (FileNode d now) h"
    by (rule write_file_Inr)
  from l(2) have "l \<noteq> []" by auto
  have "dir_at h' m = dir_at h m" for m
    using l(2) \<open>l \<noteq> []\<close>
    by (cases "m = l") (simp_all add: l(3) dir_at_def node_at_put_same node_at_put_other)
  with l show ?thesis by (auto simp: writes_only_def node_at_put_other)
qed

text \<open>The names selected lie in the working directory of the container.\<close>

lemma drop_leading_subset: "set (drop_leading skip cs) \<subseteq> set cs"
  by (induction skip cs rule: drop_leading.induct) auto

lemma select_files_inside:
  assumes "select_files c (parse_matchers ms) nd = Inr candidates" and "x \<in> set candidates"
  shows "Some x \<in> set (diff_paths c) \<and> startswith x (work_dir_of c)"
proof -
  let ?cs = "rev (sort (map the (filter (\<lambda>p. p \<noteq> None) (diff_paths c))))"
  from assms(1) obtain config where
    "candidates = filter_files (work_dir_of c) config ?cs (parse_matchers ms) nd"
    by (auto simp: select_files_def Let_def elim!: bindrE)
  with assms(2) have "x \<in> set (leaf_candidates ?cs)" "startswith x (work_dir_of c)"
    by (auto simp: filter_files_policy [OF wf_parsed])
  then have "x \<in> set ?cs" using drop_leading_subset by (fastforce simp: leaf_candidates_def)
  then show ?thesis using \<open>startswith x (work_dir_of c)\<close> by auto
qed

text \<open>A name that stays below the working directory when it is taken over to the host.\<close>

definition safe_name :: "string \<Rightarrow> string \<Rightarrow> bool" where
  "safe_name w x \<longleftrightarrow>
     (let ps = pparts (parse_path (drop (length w) x)) in ps \<noteq> [] \<and> dotdot \<notin> set ps)"

lemma host_place_inside:
  assumes "startswith x w" and "safe_name w x" and "host_place w x = Some p"
  shows "inside_path p"
proof -
  from assms(1,3) have p: "p = parse_path (drop (length w) x)" "\<not> is_absolute p"
    by (auto simp: host_place_def Let_def split: if_splits)
  have "wf_path p" by (simp add: p(1))
  with p assms(2) show ?thesis
    unfolding inside_path_def safe_name_def Let_def is_absolute_def by (metis)
qed

definition safe_diff :: "container \<Rightarrow> bool" where
  "safe_diff c \<longleftrightarrow>
     list_all (\<lambda>x. case x of None \<Rightarrow> True
                 | Some p \<Rightarrow> if startswith p (work_dir_of c) then safe_name (work_dir_of c) p else True)
       (diff_paths c)"

definition places_of :: "string \<Rightarrow> string set \<Rightarrow> ppath set" where
  "places_of w S = {p. \<exists>x \<in> S. host_place w x = Some p}"

text \<open>The invariant of the download: \<open>W\<close> are the selected names.\<close>

definition download_inv :: "host \<Rightarrow> string \<Rightarrow> string set \<Rightarrow> bool \<Rightarrow> download_state \<Rightarrow> bool" where
  "download_inv h w W to_tar st \<longleftrightarrow>
     keeps_outside h (fs st) \<and> wanted st \<subseteq> W \<and> (written st = None \<longleftrightarrow> \<not> to_tar) \<and>
     (to_tar \<longrightarrow> fs st = h) \<and>
     length (out_log st) + card (wanted st) \<le> card W \<and>
     path ` set (out_log st) \<subseteq> resolve h ` places_of w (W - wanted st)"

lemma places_of_mono: "S \<subseteq> T \<Longrightarrow> places_of w S \<subseteq> places_of w T"
  by (auto simp: places_of_def)

lemma inv_after_member:
  assumes i: "download_inv h w W to_tar st" and e: "member_effect st p st'"
    and room: "length (out_log st) + card (wanted st) < card W"
    and p: "resolve h p \<in> resolve h ` places_of w (W - wanted st)"
  shows "download_inv h w W to_tar st'"
proof -
  have "resolve (fs st) p = resolve h p"
    using i by (simp add: download_inv_def keeps_outside_def resolve_def base_of_def)
  with e have log: "path ` set (out_log st') \<subseteq> insert (resolve h p) (path ` set (out_log st))"
    and len: "length (out_log st') \<le> Suc (length (out_log st))"
    by (auto simp: member_effect_def new_file_log_def)
  have same: "wanted st' = wanted st" using e by (simp add: member_effect_def)
  have own: "insert (resolve h p) (path ` set (out_log st)) \<subseteq> resolve h ` places_of w (W - wanted st)"
    using i p unfolding download_inv_def by blast
  have "path ` set (out_log st') \<subseteq> resolve h ` places_of w (W - wanted st')"
    unfolding same using log own by (rule order_trans)
  moreover have "keeps_outside h (fs st')"
    using e i keeps_outside_trans unfolding download_inv_def member_effect_def by blast
  moreover have "to_tar \<longrightarrow> fs st' = h" "written st' = None \<longleftrightarrow> \<not> to_tar"
    using e i by (auto simp: download_inv_def member_effect_def)
  ultimately show ?thesis
    using room len same i unfolding download_inv_def by simp
qed

lemma download_member_inv:
  assumes W: "finite W" "\<forall>x \<in> W. startswith x w \<and> safe_name w x"
  shows "keeps (download_inv h w W to_tar) (download_member sha now local_time stats w f m)"
proof (rule keepsI)
  fix st assume i: "download_inv h w W to_tar st"
  let ?x = "cont_name f m" and ?st' = "snd (download_member sha now local_time stats w f m st)"
  let ?st1 = "st\<lparr>wanted := wanted st - {?x}, ticks := Suc (ticks st)\<rparr>"
  show "download_inv h w W to_tar ?st'"
  proof (cases "?x \<in> wanted st")
    case False
    with i show ?thesis by (simp add: download_member_def give_def)
  next
    case True
    with i have xW: "?x \<in> W" and fin: "finite (wanted st)"
      using W(1) finite_subset by (auto simp: download_inv_def)
    have "Suc (card (wanted st - {?x})) = card (wanted st)"
      by (rule card_Suc_Diff1 [OF fin True])
    with i have room: "length (out_log ?st1) + card (wanted ?st1) < card W"
      by (auto simp: download_inv_def)
    have "path ` set (out_log st) \<subseteq> resolve h ` places_of w (W - wanted st)"
      using i by (simp add: download_inv_def)
    also have "\<dots> \<subseteq> resolve h ` places_of w (W - wanted ?st1)"
      by (intro image_mono places_of_mono) auto
    finally have "path ` set (out_log st) \<subseteq> resolve h ` places_of w (W - wanted ?st1)" .
    with i room have i1: "download_inv h w W to_tar ?st1"
      by (auto simp: download_inv_def)
    show ?thesis
    proof (cases "host_place w ?x")
      case None
      with True i1 show ?thesis by (simp add: download_member_def Let_def give_def)
    next
      case (Some p)
      with True have st': "?st' = snd (store_member sha (now (ticks st)) local_time stats p m ?st1)"
        by (simp add: download_member_def Let_def)
      have p: "inside_path p" using W(2) xW Some by (auto intro: host_place_inside)
      have "resolve h p \<in> resolve h ` places_of w (W - wanted ?st1)"
        using Some xW by (auto simp: places_of_def)
      from inv_after_member [OF i1 store_member_effect [OF p] room this] show ?thesis
        by (simp only: st')
    qed
  qed
qed

lemma fetch_selected_inv:
  assumes safe: "safe_diff c" and sel: "select_files c (parse_matchers ms) nd = Inr cands"
  shows "download_inv h (work_dir_of c) (set cands) to_tar
    (snd (fetch_selected sha now local_time stats c paths implicit (begin_download to_tar h cands)))"
proof (rule keeps_apply [OF fetch_selected_keeps [OF download_member_inv]])
  show "\<forall>x \<in> set cands. startswith x (work_dir_of c) \<and> safe_name (work_dir_of c) x"
    using select_files_inside [OF sel] safe
    by (fastforce simp: safe_diff_def list_all_iff split: if_splits)
qed (simp_all add: download_inv_def begin_download_def)

text \<open>A download whose selection raises has done nothing; the others, with and without an archive.\<close>

lemma download_files_unselected:
  "select_files c filters nd = Inl e \<Longrightarrow>
   download_files sha now local_time stats c tar_text filters nd paths implicit x h = (Inl e, begin_download False h [])"
  by (simp add: download_files_def)

lemma close_archive_same:
  "out_log (snd (close_archive tar_text now f st)) = out_log st"
  "wanted (snd (close_archive tar_text now f st)) = wanted st"
  "written (snd (close_archive tar_text now f st)) = written st"
  "ticks (snd (close_archive tar_text now f st)) = ticks st"
  by (simp_all add: close_archive_def on_host_def split: prod.splits)

lemma open_archive_begin:
  "on_host (attempt (write_file t f [])) (begin_download b h cs) =
     (case write_file t f [] h of Inl e \<Rightarrow> (Inl e, begin_download b h cs) | Inr h1 \<Rightarrow> (Inr (), begin_download b h1 cs))"
  by (simp add: on_host_def attempt_def begin_download_def split: sum.split)

lemma archive_given: "archive_file x = Some f \<Longrightarrow> given_file x"
  by (auto simp: archive_file_def given_file_def split: option.splits if_splits)

lemma download_files_cases:
  assumes "download_files sha now local_time stats c tar_text filters nd paths implicit x h = (r, st)"
    and "select_files c filters nd = Inr cands"
  obtains (plain) "archive_file x = None"
      and "fetch_selected sha now local_time stats c paths implicit (begin_download (given_file x) h cands) = (r, st)"
  | (refused) f e where "archive_file x = Some f" and "write_file (now 0) f [] h = Inl e"
      and "r = Inl e" and "st = begin_download True h cands"
  | (archived) f h1 where "archive_file x = Some f" and "write_file (now 0) f [] h = Inr h1"
      and "st = snd (close_archive tar_text now f
        (snd (fetch_selected sha now local_time stats c paths implicit (begin_download True h1 cands))))"
proof (cases "archive_file x")
  case None
  with assms plain show ?thesis by (simp add: download_files_def in_archive_def)
next
  case (Some f)
  note g = archive_given [OF Some]
  let ?m = "finally_do (fetch_selected sha now local_time stats c paths implicit) (close_archive tar_text now f)"
  from assms Some g have d: "and_then (on_host (attempt (write_file (now 0) f []))) (\<lambda>_. ?m)
      (begin_download True h cands) = (r, st)"
    by (simp add: download_files_def in_archive_def)
  show ?thesis
  proof (cases "write_file (now 0) f [] h")
    case (Inl e)
    with d have "r = Inl e" "st = begin_download True h cands"
      by (simp_all add: and_then_def open_archive_begin)
    with refused Some Inl show ?thesis by blast
  next
    case (Inr h1)
    with d have "?m (begin_download True h1 cands) = (r, st)" by (simp add: and_then_def open_archive_begin)
    then have "st = snd (?m (begin_download True h1 cands))" by simp
    then show ?thesis using archived [OF Some Inr] by (simp only: finally_do_snd)
  qed
qed

text \<open>What the log and the names still to find satisfy at the end.\<close>

definition log_bounded :: "host \<Rightarrow> string \<Rightarrow> string set \<Rightarrow> download_state \<Rightarrow> bool" where
  "log_bounded h w W st \<longleftrightarrow>
     wanted st \<subseteq> W \<and> length (out_log st) + card (wanted st) \<le> card W \<and>
     path ` set (out_log st) \<subseteq> resolve h ` places_of w (W - wanted st)"

lemma download_files_effect:
  assumes safe: "safe_diff c" and sel: "select_files c (parse_matchers ms) nd = Inr cands"
    and d: "download_files sha now local_time stats c tar_text (parse_matchers ms) nd paths implicit x h = (r, st)"
  shows "stays x h (fs st) \<and> log_bounded h (work_dir_of c) (set cands) st"
  using d sel
proof (cases rule: download_files_cases)
  case plain
  with fetch_selected_inv [OF safe sel, of h "given_file x" sha now local_time stats paths implicit]
  show ?thesis by (simp add: download_inv_def stays_def log_bounded_def)
next
  case (refused f e)
  then show ?thesis by (simp add: begin_download_def log_bounded_def)
next
  case (archived f h1)
  let ?st0 = "snd (fetch_selected sha now local_time stats c paths implicit (begin_download True h1 cands))"
  from fetch_selected_inv [OF safe sel, of h1 True]
  have inv: "fs ?st0 = h1" "log_bounded h1 (work_dir_of c) (set cands) ?st0"
    by (simp_all add: download_inv_def log_bounded_def)
  from archived(2) have open': "writes_only f h h1" by (rule write_file_writes_only)
  then have "resolve h1 = resolve h" by (auto simp: writes_only_def resolve_def base_of_def fun_eq_iff)
  with inv(2) have log: "log_bounded h (work_dir_of c) (set cands) st"
    unfolding log_bounded_def archived(3) close_archive_same by simp
  have "writes_only f h1 (fs st)"
    unfolding archived(3) using inv(1)
    by (auto simp: close_archive_def on_host_def attempt_def dest: write_file_writes_only split: sum.split prod.split)
  with open' have "writes_only f h (fs st)" by (rule writes_only_trans)
  with archived(1) log show ?thesis by (simp add: stays_def)
qed

lemma download_files_stays:
  assumes "safe_diff c"
  shows "stays x h (fs (snd (download_files sha now local_time stats c tar_text (parse_matchers ms) nd paths implicit x h)))"
proof (cases "select_files c (parse_matchers ms) nd")
  case (Inl e)
  then show ?thesis by (simp add: download_files_unselected begin_download_def)
next
  case (Inr cands)
  from download_files_effect [OF assms this prod.collapse [symmetric]] show ?thesis by simp
qed

section \<open>Properties\<close>

text \<open>A container and a host for the witnesses.\<close>

definition demo_container :: container where
  "demo_container =
     \<lparr>diff_paths = [Some ''/w/d/f'', None, Some ''/w/d''],
      get_archive = (\<lambda>p. if p = ''/w/''
        then Inr [\<lparr>member_name = ''w/d'', member_kind = DirMember, member_size = 0, member_mtime = 3,
                   member_mode = 511, member_data = []\<rparr>,
                  \<lparr>member_name = ''w/d/f'', member_kind = RegularMember, member_size = 1, member_mtime = 3,
                   member_mode = 511, member_data = [5]\<rparr>]
        else Inl DockerNotFound),
      working_dir = Some ''/w''\<rparr>"

definition download_host :: host where
  "download_host =
     \<lparr>cwd = [''h''], tree = [([''h''], DirNode 0), ([''h'', ''d''], DirNode 0),
        ([''h'', ''d'', ''f''], FileNode [4] 0), ([''h'', ''d'', ''f_TEMP''], FileNode [6] 0)]\<rparr>"

definition temp_host :: host where
  "temp_host = \<lparr>cwd = [''h''], tree = [([''h''], DirNode 0), ([''h'', ''d''], DirNode 0), ([''h'', ''d'', ''e''], DirNode 0)]\<rparr>"

definition demo_text :: "tar_member list \<Rightarrow> bytes" where
  "demo_text ms = concat (map (\<lambda>m. encode_text (member_name m) @ [0] @ member_data m) ms)"

definition demo_download :: "string option \<Rightarrow> unit result \<times> download_state" where
  "demo_download x =
     download_files decode_text (\<lambda>k. 9) (\<lambda>t. DateTime 1 1 1 0 0 0 0) [] demo_container demo_text
       (parse_matchers [''^*.tmp'']) False [] True x download_host"

text \<open>
  A download never changes anything outside the current directory of the host, whatever the
  archives hold that the container sends and wherever an error stops it, if the paths it reports as
  changed have no \<open>..\<close> below its working directory.  With \<^verbatim>\<open>--out\<close> it changes one file, the archive.
\<close>

theorem download_stays_inside:
  assumes "download_files sha now local_time stats c tar_text (parse_matchers ms) nd paths implicit x h = (r, st)"
    and "safe_diff c"
  shows "cwd (fs st) = cwd h \<and>
    (case archive_file x of
       None \<Rightarrow> prefix (cwd h) l \<or> node_at (fs st) l = node_at h l
     | Some f \<Rightarrow> locate h f = Inr l \<or> node_at (fs st) l = node_at h l)"
proof -
  from download_files_stays [OF assms(2), of x h] assms(1) have "stays x h (fs st)" by (metis snd_conv)
  then show ?thesis by (auto simp: stays_def keeps_outside_def writes_only_def split: option.splits)
qed

theorem download_stays_inside_witness:
  "cwd (fs (snd (demo_download None))) = cwd download_host \<and>
    (prefix (cwd download_host) [''etc''] \<or>
     node_at (fs (snd (demo_download None))) [''etc''] = node_at download_host [''etc''])"
proof -
  have "safe_diff demo_container" by code_simp
  note inside = download_stays_inside [OF prod.collapse [symmetric] this, where x = None]
  show ?thesis unfolding demo_download_def by (rule inside [unfolded archive_file_def option.case])
qed

text \<open>
  C14: only the selected files are downloaded, each at most once, also when an error ends the
  download: every entry of the log is the place on the host of a selected file that was found, and the
  entries and the files not found are together no more than the files selected.
\<close>

theorem download_logs_selected_once:
  assumes "download_files sha now local_time stats c tar_text (parse_matchers ms) nd paths implicit x h = (r, st)"
    and "safe_diff c" and "select_files c (parse_matchers ms) nd = Inr cands"
  shows "wanted st \<subseteq> set cands \<and> length (out_log st) + card (wanted st) \<le> card (set cands) \<and>
    path ` set (out_log st) \<subseteq> resolve h ` places_of (work_dir_of c) (set cands - wanted st)"
  using download_files_effect [OF assms(2,3,1)] unfolding log_bounded_def by blast

theorem download_logs_selected_once_witness:
  "wanted (snd (demo_download None)) \<subseteq> {''/w/d/f''} \<and>
    length (out_log (snd (demo_download None))) + card (wanted (snd (demo_download None))) \<le> 1"
proof -
  have "select_files demo_container (parse_matchers [''^*.tmp'']) False = Inr [''/w/d/f'']" by code_simp
  moreover have "safe_diff demo_container" by code_simp
  ultimately show ?thesis
    using download_logs_selected_once [OF prod.collapse [symmetric], of demo_container "[''^*.tmp'']" False "[''/w/d/f'']"]
    by (simp add: demo_download_def)
qed

text \<open>
  C36: With \<^verbatim>\<open>--out\<close> the archive is complete however the download ends: once it was opened, its file holds the
  text of the members written, and no other file has changed.
\<close>

theorem archive_is_complete:
  assumes "download_files sha now local_time stats c tar_text (parse_matchers ms) nd paths implicit x h = (r, st)"
    and "safe_diff c" and "select_files c (parse_matchers ms) nd = Inr cands"
    and "archive_file x = Some f" and "write_file (now 0) f [] h = Inr h1" and "locate h f = Inr l"
  shows "\<exists>members. written st = Some members \<and>
    node_at (fs st) = (node_at h)(l \<mapsto> FileNode (tar_text members) (now (ticks st)))"
  using assms(1,3)
proof (cases rule: download_files_cases)
  case (archived f' h1')
  let ?st0 = "snd (fetch_selected sha now local_time stats c paths implicit (begin_download True h1 cands))"
  from archived assms(4,5) have st: "st = snd (close_archive tar_text now f ?st0)" by simp
  from fetch_selected_inv [OF assms(2,3), of h1 True] have inv: "fs ?st0 = h1" "written ?st0 \<noteq> None"
    by (simp_all add: download_inv_def)
  then obtain members where members: "written ?st0 = Some members" by blast
  from assms(5,6) have h1: "h1 = put_node l (FileNode [] (now 0)) h" and l: "\<not> dir_at h l"
    by (auto elim!: write_file_Inr)
  from l have "l \<noteq> []" by auto
  then have at_l: "node_at h1 l = Some (FileNode [] (now 0))" by (simp add: h1 node_at_put_same)
  have "locate h1 f = Inr l" using writes_only_locate [OF write_file_writes_only [OF assms(5)]] assms(6) by simp
  with at_l have "write_file (now (ticks ?st0)) f (tar_text members) h1 =
      Inr (put_node l (FileNode (tar_text members) (now (ticks ?st0))) h1)"
    by (simp add: write_file_def)
  then have "fs st = put_node l (FileNode (tar_text members) (now (ticks ?st0))) h1"
    using inv(1) members by (simp add: st close_archive_def on_host_def attempt_def)
  moreover have "written st = Some members" "ticks st = ticks ?st0"
    unfolding st close_archive_same by (simp_all add: members)
  ultimately show ?thesis
    using \<open>l \<noteq> []\<close> by (auto simp: h1 fun_eq_iff node_at_put_same node_at_put_other)
qed (use assms(4,5) in auto)

theorem archive_is_complete_witness:
  "\<exists>members. written (snd (demo_download (Some ''out.tar''))) = Some members \<and>
    node_at (fs (snd (demo_download (Some ''out.tar'')))) =
      (node_at download_host)([''h'', ''out.tar''] \<mapsto>
        FileNode (demo_text members) 9)"
proof -
  have sel: "select_files demo_container (parse_matchers [''^*.tmp'']) False = Inr [''/w/d/f'']" by code_simp
  have safe: "safe_diff demo_container" by code_simp
  have at: "locate download_host (parse_path ''out.tar'') = Inr [''h'', ''out.tar'']" by code_simp
  obtain h1 where op: "write_file 9 (parse_path ''out.tar'') [] download_host = Inr h1"
    using at by (auto simp: write_file_def node_at_def entry_at_def download_host_def)
  have f: "archive_file (Some ''out.tar'') = Some (parse_path ''out.tar'')" by (simp add: archive_file_def)
  show ?thesis
    unfolding demo_download_def
    by (rule archive_is_complete [OF prod.collapse [symmetric] safe sel f op at])
qed

text \<open>
  C7: a file copied to the host is a new file with the contents it has in the container; only where the
  file is not known to be modified and the host has a file with the same digest there, that file
  stays what it was.  The digest logged is that of the container's contents; no temporary file is
  left, and apart from the file, its temporary file and new directories on the way nothing changes.
\<close>

theorem copy_to_host_is_correct:
  assumes "copy_to_host sha now modified p data h = (Inr md, h')" and "inside_path p"
  shows "md = sha data \<and> copied sha now modified p data h h'"
  using assms by (rule copy_to_host_copied)

theorem copy_to_host_is_correct_witness:
  "decode_text [7] = decode_text [7] \<and>
   copied decode_text 9 True (PPath '''' [''d'', ''f'']) [7] download_host
     (snd (copy_to_host decode_text 9 True (PPath '''' [''d'', ''f'']) [7] download_host))"
proof (rule copy_to_host_is_correct)
  show "copy_to_host decode_text 9 True (PPath '''' [''d'', ''f'']) [7] download_host =
    (Inr (decode_text [7]), snd (copy_to_host decode_text 9 True (PPath '''' [''d'', ''f'']) [7] download_host))"
    by code_simp
  show "inside_path (PPath '''' [''d'', ''f''])" by code_simp
qed

text \<open>
  Replacing an existing file goes through a file of the same name with \<open>_TEMP\<close> appended, and
  a file of the user with that name is gone afterwards.
\<close>

theorem copy_destroys_temp_file:
  assumes "copy_to_host sha now modified p data h = (Inr md, h')" and "inside_path p" and "path_exists h p"
  shows "node_at h' (place_of h (PPath '''' (butlast (pparts p) @ [last (pparts p) @ ''_TEMP'']))) = None"
  using copy_to_host_copied [OF assms(1,2)] assms(3) temp_name_parts [OF assms(2)]
  by (simp add: copied_def)

theorem copy_destroys_temp_file_witness:
  "node_at download_host [''h'', ''d'', ''f_TEMP''] = Some (FileNode [6] 0) \<and>
   node_at (snd (copy_to_host decode_text 9 True (PPath '''' [''d'', ''f'']) [7] download_host))
     (place_of download_host (PPath '''' (butlast [''d'', ''f''] @ [last [''d'', ''f''] @ ''_TEMP'']))) = None"
proof
  show "node_at download_host [''h'', ''d'', ''f_TEMP''] = Some (FileNode [6] 0)" by code_simp
  have "copy_to_host decode_text 9 True (PPath '''' [''d'', ''f'']) [7] download_host =
    (Inr (projr (fst (copy_to_host decode_text 9 True (PPath '''' [''d'', ''f'']) [7] download_host))), snd (copy_to_host decode_text 9 True (PPath '''' [''d'', ''f'']) [7] download_host))"
    by code_simp
  moreover have "inside_path (PPath '''' [''d'', ''f''])" by code_simp
  moreover have "path_exists download_host (PPath '''' [''d'', ''f''])" by code_simp
  ultimately show "node_at (snd (copy_to_host decode_text 9 True (PPath '''' [''d'', ''f'']) [7] download_host))
     (place_of download_host (PPath '''' (butlast [''d'', ''f''] @ [last [''d'', ''f''] @ ''_TEMP'']))) = None"
    using copy_destroys_temp_file by fastforce
qed

text \<open>
  Where the host has a directory and the container a file of the same name, the copy raises, and the
  temporary file with the contents of the container stays on the host.
\<close>

theorem failed_copy_leaves_temp_file:
  assumes "inside_path p" and "is_dir h p" and "\<not> path_exists h (temp_name p)"
  shows "copy_to_host sha now modified p data h =
    (Inl IsADirectoryError, put_node (place_of h (temp_name p)) (FileNode data now) h)"
proof -
  let ?t = "temp_name p" and ?h = "put_node (place_of h (temp_name p)) (FileNode data now) h"
  note t = temp_inside [OF assms(1)]
  obtain m where m: "find_node h p = Some (DirNode m)"
    using assms(2) by (auto simp: is_dir_def split: option.splits node.splits)
  then obtain l where "locate h p = Inr l" by (auto simp: find_node_def split: sum.splits)
  with m locate_inside [OF assms(1) this] have p: "locate h p = Inr (place_of h p)"
    "node_at h (place_of h p) = Some (DirNode m)" by (simp_all add: find_node_def)
  have par: "make_parents now (parent p) h = (Inr (), h)"
    by (rule make_parents_existing [OF parent_of_located [OF assms(1) p(1)]])
  have "parent ?t = parent p"
    using assms(1) by (simp add: temp_name_parts [OF assms(1)] parent_def inside_path_def butlast_append)
  then have loc: "locate h ?t = Inr (place_of h ?t)" by (rule locate_sibling [OF assms(1) p(1) t(1)])
  then have none: "node_at h (place_of h ?t) = None"
    using assms(3) by (simp add: path_exists_def find_node_def)
  then have w: "write_file now ?t data h = Inr ?h" using loc by (simp add: write_file_def)
  have loc': "locate ?h p = Inr (place_of h p)" by (rule locate_more [OF p(1) none])
  have node': "node_at ?h (place_of h p) = Some (DirNode m)"
    using p(2) t(2) [of h] by (simp add: node_at_put_other)
  have w': "attempt (write_file now ?t data) h = (Inr (), ?h)" using w by simp
  have u: "attempt (unlink p) ?h = (Inl IsADirectoryError, ?h)" and r: "read_file ?h p = Inl IsADirectoryError"
    by (simp_all add: attempt_def unlink_def read_file_def loc' node' bindr_def)
  show ?thesis
    unfolding copy_to_host_def Let_def hash_file_eq prod.case
    by (simp add: is_dir_exists [OF assms(2)] and_then_run(1) [of "make_parents now (parent p)", OF par]
        and_then_run(1) [of "attempt (write_file now ?t data)", OF w']
        and_then_run(2) [of "attempt (unlink p)", OF u] and_then_assoc ask_def and_then_def [of "ask _"] r)
qed

theorem failed_copy_leaves_temp_file_witness:
  "copy_to_host decode_text 9 True (PPath '''' [''d'', ''e'']) [7] temp_host =
     (Inl IsADirectoryError, put_node [''h'', ''d'', ''e_TEMP''] (FileNode [7] 9) temp_host)"
proof -
  have "inside_path (PPath '''' [''d'', ''e''])" "is_dir temp_host (PPath '''' [''d'', ''e''])"
    "\<not> path_exists temp_host (temp_name (PPath '''' [''d'', ''e'']))" by code_simp+
  note failed = failed_copy_leaves_temp_file [OF this]
  have "place_of temp_host (temp_name (PPath '''' [''d'', ''e''])) = [''h'', ''d'', ''e_TEMP'']" by code_simp
  with failed show ?thesis by (simp only:)
qed

text \<open>
  A file is taken for unmodified exactly when it was uploaded, has its size and its
  modification time to the second, and that second is not the second of the upload; and it is
  never taken for modified and unmodified at once.
\<close>

theorem unmodified_exactly_when:
  "(snd (check_if_modified stats p m) \<longleftrightarrow>
     (\<exists>t u. dict_get stats (as_posix p) = Some (member_size m, t, u) \<and>
        trunc_seconds t = trunc_seconds (member_mtime m) \<and> trunc_seconds t \<noteq> trunc_seconds u)) \<and>
   \<not> (fst (check_if_modified stats p m) \<and> snd (check_if_modified stats p m))"
  by (auto simp: check_if_modified_def Let_def split: option.splits)



text \<open>
  Fetching a path takes every member of the archive off the list of files to find, whether it
  is copied, skipped or already there, and nothing else.
\<close>

theorem fetch_takes_members_off:
  assumes "download_file_set sha now local_time stats c w f st = (Inr u, st')"
    and "get_archive c f = Inr ms"
    and "list_all (\<lambda>x. \<not> startswith x w \<or> safe_name w x) (map (cont_name f) ms)"
    and "list_all (\<lambda>m. startswith (cont_name f m) w) ms"
  shows "wanted st' = wanted st - set (map (cont_name f) ms)"
proof -
  let ?m = "download_member sha now local_time stats w f"
  have one: "wanted (snd (?m m s)) = wanted s - {cont_name f m}" if "m \<in> set ms" for s m
  proof -
    from assms(3,4) that have safe: "startswith (cont_name f m) w" "safe_name w (cont_name f m)"
      by (auto simp: list_all_iff)
    show ?thesis
    proof (cases "cont_name f m \<in> wanted s")
      case True
      then show ?thesis
        using store_member_effect [OF host_place_inside [OF safe]]
        by (auto simp: download_member_def Let_def give_def member_effect_def split: option.split)
    next
      case False
      then show ?thesis by (simp add: download_member_def give_def)
    qed
  qed
  have "wanted s' = wanted s - set (map (cont_name f) ns)"
    if "for_each ?m ns s = (Inr v, s')" "set ns \<subseteq> set ms" for ns s v s'
    using that
  proof (induction ns arbitrary: s)
    case (Cons n ns)
    then obtain s1 u where s1: "?m n s = (Inr u, s1)" and rest: "for_each ?m ns s1 = (Inr v, s')"
      by (auto elim!: and_then_Inr)
    from Cons.IH [OF rest] one [of n s] s1 Cons.prems(2) show ?case by auto
  qed simp
  with assms(1,2) show ?thesis by (simp add: download_file_set_def)
qed

theorem fetch_takes_members_off_witness:
  "wanted (snd (download_file_set decode_text (\<lambda>k. 9) (\<lambda>t. DateTime 1 1 1 0 0 0 0) [] demo_container ''/w/'' ''/w/''
     \<lparr>fs = download_host, wanted = {''/w/d/f'', ''/w/g''}, out_log = [], written = None, ticks = 0\<rparr>)) =
   {''/w/d/f'', ''/w/g''} - set (map (cont_name ''/w/'') (projr (get_archive demo_container ''/w/'')))"
proof -
  let ?st = "\<lparr>fs = download_host, wanted = {''/w/d/f'', ''/w/g''}, out_log = [], written = None, ticks = 0\<rparr>"
  let ?r = "download_file_set decode_text (\<lambda>k. 9) (\<lambda>t. DateTime 1 1 1 0 0 0 0) [] demo_container ''/w/'' ''/w/'' ?st"
  have "wanted (snd ?r) = wanted ?st -
      set (map (cont_name ''/w/'') (projr (get_archive demo_container ''/w/'')))"
  proof (rule fetch_takes_members_off)
    show "?r = (Inr (), snd ?r)" by code_simp
    show "get_archive demo_container ''/w/'' = Inr (projr (get_archive demo_container ''/w/''))" by code_simp
    show "list_all (\<lambda>x. \<not> startswith x ''/w/'' \<or> safe_name ''/w/'' x)
      (map (cont_name ''/w/'') (projr (get_archive demo_container ''/w/'')))" by code_simp
    show "list_all (\<lambda>m. startswith (cont_name ''/w/'' m) ''/w/'') (projr (get_archive demo_container ''/w/''))"
      by code_simp
  qed
  then show ?thesis by simp
qed

text \<open>
  Downloading into an archive fails with an \<^verbatim>\<open>AttributeError\<close> as soon as a selected member is a
  directory that was not uploaded: an empty new directory in the container is enough.
\<close>

theorem archive_download_of_directory_raises:
  assumes "cont_name f m \<in> wanted st" and "host_place w (cont_name f m) = Some p"
    and "written st = Some ms" and "member_kind m = DirMember" and "dict_get stats (as_posix p) = None"
  shows "fst (download_member sha now local_time stats w f m st) = Inl AttributeError"
  using assms
  by (simp add: download_member_def store_member_def check_if_modified_def read_member_def add_to_archive_def
      and_then_def)

theorem archive_download_of_directory_raises_witness:
  "fst (download_member decode_text (\<lambda>k. 9) (\<lambda>t. demo_time) [] ''/w/'' ''/w/'' (new_directory ''w/e'')
    \<lparr>fs = download_host, wanted = {''/w/e''}, out_log = [], written = Some [], ticks = 0\<rparr>) = Inl AttributeError"
  by (rule archive_download_of_directory_raises [where p = "PPath '''' [''e'']" and ms = "[]"]; code_simp)

text \<open>
  An ignore file that is a symbolic link to somewhere else cannot be read: the archive of the link
  holds nothing but the link, and looking for its target raises a \<^verbatim>\<open>KeyError\<close>.
\<close>

theorem linked_ignore_file_raises:
  assumes "get_archive c (as_posix p) = Inr [m]" and "member_name m = pname p" and "member_kind m = SymbolicLink t"
    and "normpath (joined [slash] (filter (\<lambda>s. s \<noteq> '''') [dirname (pname p), t])) \<noteq> normpath (pname p)"
  shows "read_config_file c p skip_comment = Inl KeyError"
  using assms by (simp add: read_config_file_def extract_named_def last_member_def)

theorem linked_ignore_file_raises_witness:
  "read_config_file (demo_container\<lparr>get_archive := (\<lambda>f. Inr [\<lparr>member_name = ''.cincanignore'',
      member_kind = SymbolicLink ''etc/ignore'', member_size = 0, member_mtime = 3, member_mode = 511,
      member_data = []\<rparr>])\<rparr>) (PPath ''/'' [''w'', ''.cincanignore'']) True = Inl KeyError"
proof -
  have n: "pname (PPath ''/'' [''w'', ''.cincanignore'']) = ''.cincanignore''" by code_simp
  have t: "normpath (joined [slash] (filter (\<lambda>s. s \<noteq> '''') [dirname (pname (PPath ''/'' [''w'', ''.cincanignore''])), ''etc/ignore''])) \<noteq>
      normpath (pname (PPath ''/'' [''w'', ''.cincanignore'']))" by code_simp
  let ?m = "\<lparr>member_name = ''.cincanignore'', member_kind = SymbolicLink ''etc/ignore'', member_size = 0,
    member_mtime = 3, member_mode = 511, member_data = []\<rparr>"
  have "get_archive (demo_container\<lparr>get_archive := (\<lambda>f. Inr [?m])\<rparr>) f = Inr [?m]" for f by simp
  moreover have "member_name ?m = ''.cincanignore''" "member_kind ?m = SymbolicLink ''etc/ignore''" by simp_all
  ultimately show ?thesis using linked_ignore_file_raises [OF _ _ _ t] n by metis
qed

theorem linked_ignore_file_followed:
  "extract_named [\<lparr>member_name = ''w/ignore'', member_kind = RegularMember, member_size = 1, member_mtime = 3,
       member_mode = 511, member_data = [120]\<rparr>,
     \<lparr>member_name = ''w/link'', member_kind = SymbolicLink ''./sub/../ignore'', member_size = 0, member_mtime = 3,
       member_mode = 511, member_data = []\<rparr>] ''w/link'' = Inr [120]"
  by code_simp

text \<open>
  A link that a tool made in the container (a symbolic link, or a second name of a file) is not
  copied: where the host has nothing of that name, it gets an empty directory instead, and the log
  says so without a digest.
\<close>

theorem link_becomes_directory:
  assumes "store_member sha now local_time stats p m st = (Inr u, st')" and "inside_path p"
    and "member_kind m \<in> {SymbolicLink target, HardLink target}" and "written st = None" and "\<not> path_exists (fs st) p"
    and "dict_get stats (as_posix p) = None"
  shows "(\<exists>t. node_at (fs st') (place_of (fs st) p) = Some (DirNode t)) \<and>
    digest (last (out_log st')) = ''''"
proof -
  from assms obtain h n where mk: "mkdir_parents now p (fs st) = Inr h" and n: "find_node h p = Some n"
    and st': "st' = snd (log_download p '''' (local_time (node_mtime n)) (st\<lparr>fs := h\<rparr>))"
    by (auto simp: store_member_def check_if_modified_def is_regular_def on_host_def mtime_of_def log_download_def
        make_parents_Inr elim!: and_then_Inr split: option.splits prod.splits)
  have "is_dir h p" using mk assms(5)
  proof (cases rule: mkdir_parents_Inr)
    case 1
    then obtain l where l: "locate (fs st) p = Inr l" "h = put_node l (DirNode now) (fs st)"
      by (auto elim: os_mkdir_Inr)
    then have "l = place_of (fs st) p" using assms(2) by (auto dest: locate_inside)
    moreover have "node_at h (place_of h p) = Some n" by (rule node_of_place [OF assms(2) n])
    ultimately have "n = DirNode now"
      using l place_not_root [OF assms(2)] by (simp add: place_of_def node_at_put_same)
    with n show ?thesis by (simp add: is_dir_def)
  next
    case (2 h1)
    from mkdir_ok_Inr [OF 2(4)] show ?thesis
    proof (elim disjE conjE)
      assume "os_mkdir now p h1 = Inr h"
      then obtain l where l: "locate h1 p = Inr l" "h = put_node l (DirNode now) h1"
        by (auto elim: os_mkdir_Inr)
      then have "l = place_of h1 p" using assms(2) by (auto dest: locate_inside)
      moreover have "node_at h (place_of h p) = Some n" by (rule node_of_place [OF assms(2) n])
      ultimately have "n = DirNode now"
        using l place_not_root [OF assms(2)] by (simp add: place_of_def node_at_put_same)
      with n show ?thesis by (simp add: is_dir_def)
    qed simp
  next
    case 3
    with assms(5) show ?thesis by (auto simp: is_dir_def path_exists_def)
  qed
  with n obtain t where "n = DirNode t" by (auto simp: is_dir_def split: node.splits)
  moreover have "cwd h = cwd (fs st)" using mkdir_parents_frame [OF mk] by blast
  ultimately show ?thesis
    using node_of_place [OF assms(2) n] st' by (auto simp: log_download_def new_file_log_def place_of_def)
qed

theorem link_becomes_directory_witness:
  "\<exists>st'. store_member decode_text 9 (\<lambda>t. DateTime 1 1 1 0 0 0 0) [] (PPath '''' [''lib'', ''so''])
      \<lparr>member_name = ''w/lib/so'', member_kind = SymbolicLink ''so.1'', member_size = 0, member_mtime = 3, member_mode = 511,
       member_data = []\<rparr>
      \<lparr>fs = download_host, wanted = {}, out_log = [], written = None, ticks = 0\<rparr> = (Inr (), st') \<and>
    (\<exists>t. node_at (fs st') (place_of download_host (PPath '''' [''lib'', ''so''])) = Some (DirNode t)) \<and>
    digest (last (out_log st')) = ''''"
proof -
  let ?st = "\<lparr>fs = download_host, wanted = {}, out_log = [], written = None, ticks = 0\<rparr>"
  let ?m = "\<lparr>member_name = ''w/lib/so'', member_kind = SymbolicLink ''so.1'', member_size = 0, member_mtime = 3,
    member_mode = 511, member_data = []\<rparr>"
  let ?r = "store_member decode_text 9 (\<lambda>t. DateTime 1 1 1 0 0 0 0) [] (PPath '''' [''lib'', ''so'']) ?m ?st"
  have r: "?r = (Inr (), snd ?r)" by code_simp
  have p: "inside_path (PPath '''' [''lib'', ''so''])" by code_simp
  have e: "\<not> path_exists (fs ?st) (PPath '''' [''lib'', ''so''])" by code_simp
  from link_becomes_directory [OF r p _ _ e] r show ?thesis by auto
qed

end
