(* ===== verification/Container_Stream.thy ===== *)
theory Container_Stream
  imports Command_Log
begin

unbundle bit_operations_syntax

text \<open>
  Running a command in the container: \<^verbatim>\<open>ToolStream\<close>, \<^verbatim>\<open>__unpack_container_stream\<close> and
  \<^verbatim>\<open>__container_exec\<close> of \<^verbatim>\<open>cincan/frontend.py\<close>.  The socket attached to the container is a
  reader of \<^verbatim>\<open>Byte_Source\<close>; what \<^verbatim>\<open>select\<close> reports, what the standard input yields, and the
  answers of the Docker client are explicit inputs; the settings of the terminal are a state, which
  \<^verbatim>\<open>setraw\<close> and \<^verbatim>\<open>tcsetattr\<close> change.  SHA-256 is the parameter \<open>sha\<close>.
\<close>

section \<open>Streams\<close>

text \<open>
  The hash object is the bytes it was given; \<open>shown\<close> is what was written to the stream itself.
\<close>

record tool_stream =
  data_length :: nat
  hashed :: bytes
  raw :: bytes
  shown :: bytes

definition new_stream :: tool_stream where
  "new_stream = \<lparr>data_length = 0, hashed = [], raw = [], shown = []\<rparr>"

definition update_stream :: "bytes \<Rightarrow> tool_stream \<Rightarrow> tool_stream" where
  "update_stream d s = s\<lparr>data_length := data_length s + length d, hashed := hashed s @ d\<rparr>"

section \<open>Frames\<close>

text \<open>
  \<^verbatim>\<open>while len(buf) < n: r = read(n - len(buf))\<close>: all \<open>n\<close> bytes, or nothing when the stream ends.
\<close>

function read_exactly :: "(nat \<Rightarrow> 's \<Rightarrow> bytes \<times> 's) \<Rightarrow> nat \<Rightarrow> bytes \<Rightarrow> 's \<Rightarrow> bytes option \<times> 's" where
  "read_exactly rd n buf s =
     (if length buf < n then
        case rd (n - length buf) s of (r, s') \<Rightarrow>
          if r = [] then (None, s') else read_exactly rd n (buf @ r) s'
      else (Some buf, s))"
  by pat_completeness auto
termination
  by (relation "measure (\<lambda>(rd, n, buf, s). n - length buf)")
    (auto intro!: diff_less_mono2 simp: length_greater_0_conv [symmetric] simp del: length_greater_0_conv)

declare read_exactly.simps [simp del]

text \<open>\<^verbatim>\<open>struct.unpack('>Q', buf)[0]\<close>, the type in the first byte, the size in the other seven.\<close>

definition big_endian :: "bytes \<Rightarrow> 64 word" where
  "big_endian bs = fold (\<lambda>b w. push_bit 8 w OR ucast b) bs 0"

definition frame_type :: "64 word \<Rightarrow> nat" where
  "frame_type w = unat (drop_bit 56 w)"

definition frame_length :: "64 word \<Rightarrow> nat" where
  "frame_length w = unat (w AND 0xffffffffffffff)"

definition BUFFER_SIZE :: nat where
  "BUFFER_SIZE = 1024 * 1024"

definition unpack_stream ::
  "(nat \<Rightarrow> 's \<Rightarrow> bytes \<times> 's) \<Rightarrow> bool \<Rightarrow> 's \<Rightarrow> ((nat \<times> bytes) \<times> 's) result" where
  "unpack_stream rd is_tty s =
     (if is_tty then
        case rd BUFFER_SIZE s of (r, s') \<Rightarrow> if r = [] then Inr ((0, []), s') else Inr ((1, r), s')
      else
        case read_exactly rd 8 [] s of
          (None, s') \<Rightarrow> Inr ((0, []), s')
        | (Some header, s') \<Rightarrow>
            let w = big_endian header in
            (case read_exactly rd (frame_length w) [] s' of
               (None, s'') \<Rightarrow> Inl (ExitsWith ''Failed to read all data from the container'')
             | (Some d, s'') \<Rightarrow> Inr ((frame_type w, d), s'')))"

section \<open>The loop between the terminal and the container\<close>

text \<open>
  What one call of \<^verbatim>\<open>select\<close> reports: the streams that are ready (for the standard input with
  the bytes that \<^verbatim>\<open>os.read\<close> will return), an input that cannot be selected, or Ctrl+C.
\<close>

datatype ready = StdinReady bytes | SocketReady
datatype poll = Ready "ready list" | Unsupported | Interrupt

record 's exec_state =
  socket :: 's
  socket_open :: bool
  stdin_active :: bool
  stdin_s :: tool_stream
  stdout_s :: "tool_stream option"
  stderr_s :: tool_stream
  sent :: bytes
  write_shut :: bool

text \<open>
  The loop around \<^verbatim>\<open>send\<close>, which takes some of the bytes it is given; \<open>None\<close> if it never takes
  them all.
\<close>

partial_function (option) send_loop :: "(bytes \<Rightarrow> nat) \<Rightarrow> bytes \<Rightarrow> nat \<Rightarrow> bytes \<Rightarrow> bytes option" where
  "send_loop accepts d out_off out =
     (if out_off < length d
      then let rest = drop out_off d; k = accepts rest
           in send_loop accepts d (out_off + k) (out @ take k rest)
      else Some out)"

declare send_loop.simps [code]

definition emit :: "bool \<Rightarrow> bytes \<Rightarrow> tool_stream \<Rightarrow> tool_stream" where
  "emit buffer_output d s =
     (let s1 = update_stream d s
      in if buffer_output then s1\<lparr>raw := raw s1 @ d\<rparr> else s1\<lparr>shown := shown s1 @ d\<rparr>)"

definition handle_ready ::
  "(nat \<Rightarrow> 's \<Rightarrow> bytes \<times> 's) \<Rightarrow> (bytes \<Rightarrow> nat) \<Rightarrow> bool \<Rightarrow> bool \<Rightarrow> 's exec_state \<Rightarrow> ready \<Rightarrow> 's exec_state result" where
  "handle_ready rd accepts is_tty buffer_output st sel =
     (case sel of
        StdinReady s_data \<Rightarrow>
          if s_data = [] then Inr (st\<lparr>stdin_active := False, write_shut := True\<rparr>)
          else (case send_loop accepts s_data 0 (sent st) of
                  None \<Rightarrow> Inl Diverges
                | Some out \<Rightarrow> Inr (st\<lparr>stdin_s := update_stream s_data (stdin_s st), sent := out\<rparr>))
      | SocketReady \<Rightarrow>
          bindr (unpack_stream rd is_tty (socket st)) (\<lambda>((s_type, s_data), s').
            let st1 = st\<lparr>socket := s'\<rparr>
            in if s_data = [] then Inr (st1\<lparr>socket_open := False\<rparr>)
               else if s_type = 1 then Inr (st1\<lparr>stdout_s := map_option (emit buffer_output s_data) (stdout_s st1)\<rparr>)
               else if s_type = 2 then Inr (st1\<lparr>stderr_s := emit buffer_output s_data (stderr_s st1)\<rparr>)
               else Inr st1))"

definition handle_poll ::
  "(nat \<Rightarrow> 's \<Rightarrow> bytes \<times> 's) \<Rightarrow> (bytes \<Rightarrow> nat) \<Rightarrow> bool \<Rightarrow> bool \<Rightarrow> 's exec_state \<Rightarrow> poll \<Rightarrow> 's exec_state result" where
  "handle_poll rd accepts is_tty buffer_output st p =
     (case p of
        Ready rs \<Rightarrow> foldm (handle_ready rd accepts is_tty buffer_output) st rs
      | Unsupported \<Rightarrow> if stdin_active st then Inr (st\<lparr>stdin_active := False\<rparr>) else Inl OSError
      | Interrupt \<Rightarrow> Inl KeyboardInterrupt)"

text \<open>
  \<^verbatim>\<open>while c_socket_open\<close>, over the answers of \<^verbatim>\<open>select\<close>; with no answer left the loop waits for
  ever.
\<close>

fun io_loop ::
  "(nat \<Rightarrow> 's \<Rightarrow> bytes \<times> 's) \<Rightarrow> (bytes \<Rightarrow> nat) \<Rightarrow> bool \<Rightarrow> bool \<Rightarrow> poll list \<Rightarrow> 's exec_state \<Rightarrow> 's exec_state result" where
  "io_loop rd accepts is_tty buffer_output polls st =
     (if \<not> socket_open st then Inr st
      else case polls of
             [] \<Rightarrow> Inl Diverges
           | p # ps \<Rightarrow>
               bindr (handle_poll rd accepts is_tty buffer_output st p)
                 (io_loop rd accepts is_tty buffer_output ps))"

declare io_loop.simps [simp del]

section \<open>Executing\<close>

text \<open>
  The answer of \<^verbatim>\<open>container.wait\<close>: the status code, if there is one, and the field \<^verbatim>\<open>Error\<close>, which
  may be missing, null, or an object with a message.
\<close>

datatype wait_error = ErrorMissing | ErrorNull | ErrorObject "string option"

record wait_result =
  status_code :: "int option"
  wait_error :: wait_error

definition exit_code_of :: "wait_result \<Rightarrow> int" where
  "exit_code_of r = (case status_code r of None \<Rightarrow> 0 | Some k \<Rightarrow> k)"

text \<open>\<^verbatim>\<open>error_status.get("Message", "")\<close>: only an object has a method \<^verbatim>\<open>get\<close>.\<close>

definition error_message :: "wait_result \<Rightarrow> bytes result" where
  "error_message r =
     (case wait_error r of
        ErrorObject m \<Rightarrow> Inr (encode_text (case m of None \<Rightarrow> '''' | Some s \<Rightarrow> s))
      | _ \<Rightarrow> Inl AttributeError)"

text \<open>The entry of a stream in the log: only when something went through it.\<close>

definition stream_entry :: "(bytes \<Rightarrow> string) \<Rightarrow> string \<Rightarrow> tool_stream \<Rightarrow> file_log list" where
  "stream_entry sha name s =
     (if data_length s \<noteq> 0 then [new_file_log (parse_path name) (sha (hashed s)) None] else [])"

definition optional_entry :: "(bytes \<Rightarrow> string) \<Rightarrow> string \<Rightarrow> tool_stream option \<Rightarrow> file_log list" where
  "optional_entry sha name s = (case s of None \<Rightarrow> [] | Some t \<Rightarrow> stream_entry sha name t)"

definition finish_log ::
  "(bytes \<Rightarrow> string) \<Rightarrow> bool \<Rightarrow> bool \<Rightarrow> wait_result \<Rightarrow> 's exec_state \<Rightarrow> command_log \<Rightarrow> command_log" where
  "finish_log sha read_stdin buffer_output result st log =
     (let log1 = log\<lparr>exit_code := exit_code_of result\<rparr>;
          log2 = (if buffer_output
                  then log1\<lparr>log_stdin := (if read_stdin then raw (stdin_s st) else []),
                            log_stdout := (case stdout_s st of None \<Rightarrow> [] | Some s \<Rightarrow> raw s),
                            log_stderr := raw (stderr_s st)\<rparr>
                  else log1)
      in if exit_code log2 = 0
         then log2\<lparr>in_files := in_files log2 @
                     (if read_stdin then stream_entry sha ''/dev/stdin'' (stdin_s st) else []),
                   out_files := out_files log2 @ optional_entry sha ''/dev/stdout'' (stdout_s st) @
                     stream_entry sha ''/dev/stderr'' (stderr_s st)\<rparr>
         else log2)"

definition start_state :: "bool \<Rightarrow> bool \<Rightarrow> 's \<Rightarrow> 's exec_state" where
  "start_state read_stdin write_stdout sock =
     \<lparr>socket = sock, socket_open = True, stdin_active = read_stdin, stdin_s = new_stream,
      stdout_s = (if write_stdout then Some new_stream else None), stderr_s = new_stream,
      sent = [], write_shut = False\<rparr>"

text \<open>
  The settings of a terminal, the flags and the control characters that \<^verbatim>\<open>tty.setraw\<close> changes:
  no translation of input or output, no echo, no lines, no signals, eight bits, single characters.
  A second call changes nothing more.
\<close>

record termios =
  iflag :: "32 word"
  oflag :: "32 word"
  cflag :: "32 word"
  lflag :: "32 word"
  cc_min :: nat
  cc_time :: nat

definition set_raw :: "termios \<Rightarrow> termios" where
  "set_raw t = t\<lparr>iflag := iflag t AND NOT 0x532, oflag := oflag t AND NOT 0x1,
     cflag := (cflag t AND NOT 0x130) OR 0x30, lflag := lflag t AND NOT 0x800B, cc_min := 1, cc_time := 0\<rparr>"

text \<open>
  Before the container is attached: the settings to go back to, if there are any, and the terminal
  as it is then.  \<open>tty_ok\<close> says whether the standard input is a terminal; if it is not, the first
  question about its settings raises.
\<close>

definition enter_raw :: "bool \<Rightarrow> bool \<Rightarrow> bool \<Rightarrow> termios \<Rightarrow> termios option result \<times> termios" where
  "enter_raw is_tty read_stdin tty_ok t =
     (if is_tty \<and> read_stdin
      then if tty_ok then (Inr (Some t), set_raw t)
           else (Inl (PlainException ''The input device is not a TTY. Did you pipe input when -it enabled?''), t)
      else (Inr None, t))"

text \<open>The \<^verbatim>\<open>finally\<close> of the loop.\<close>

definition restore_terminal :: "termios option \<Rightarrow> termios \<Rightarrow> termios" where
  "restore_terminal old_settings t = (case old_settings of None \<Rightarrow> t | Some old \<Rightarrow> old)"

text \<open>What becomes of a container that does not start.\<close>

definition start_failed :: "py_error \<Rightarrow> wait_result result \<Rightarrow> command_log \<Rightarrow> command_log result" where
  "start_failed e result log =
     (if e \<in> {DockerAPIError, DockerNotFound, DockerImageNotFound}
      then bindr result (\<lambda>r. bindr (error_message r) (\<lambda>m.
             Inr (log\<lparr>exit_code := exit_code_of r, log_stderr := m\<rparr>)))
      else Inl e)"

text \<open>
  \<^verbatim>\<open>__container_exec\<close>: the log or the error, with the streams where the loop was reached, and the
  terminal as it is left.  \<open>attached\<close> is the socket that \<^verbatim>\<open>attach_socket\<close> returns, or what it raises,
  \<open>started\<close> what \<^verbatim>\<open>container.start\<close> answers, \<open>result\<close> what \<^verbatim>\<open>container.wait\<close> does.
\<close>

definition container_exec ::
  "(bytes \<Rightarrow> string) \<Rightarrow> (nat \<Rightarrow> 's \<Rightarrow> bytes \<times> 's) \<Rightarrow> (bytes \<Rightarrow> nat) \<Rightarrow> bool \<Rightarrow> bool \<Rightarrow> bool \<Rightarrow> bool \<Rightarrow>
   bool \<Rightarrow> 's result \<Rightarrow> unit result \<Rightarrow> wait_result result \<Rightarrow> poll list \<Rightarrow> command_log \<Rightarrow> termios \<Rightarrow>
   (command_log \<times> 's exec_state option) result \<times> termios" where
  "container_exec sha rd accepts is_tty read_stdin buffer_output write_stdout tty_ok attached started result polls log t =
     (case enter_raw is_tty read_stdin tty_ok t of
        (Inl e, t1) \<Rightarrow> (Inl e, t1)
      | (Inr old_settings, t1) \<Rightarrow>
          case attached of
            Inl e \<Rightarrow> (Inl e, t1)
          | Inr sock \<Rightarrow>
              case started of
                Inl e \<Rightarrow> (bindr (start_failed e result log) (\<lambda>l. Inr (l, None)), t1)
              | Inr _ \<Rightarrow>
                  (bindr (io_loop rd accepts is_tty buffer_output polls (start_state read_stdin write_stdout sock)) (\<lambda>st.
                     bindr result (\<lambda>r. Inr (finish_log sha read_stdin buffer_output r st log, Some st))),
                   restore_terminal old_settings t1))"

section \<open>Reading frames\<close>

context byte_reader
begin

lemma read_exactly_enough:
  "length buf \<le> n \<Longrightarrow> n - length buf \<le> length (rest s) \<Longrightarrow>
     \<exists>s'. read_exactly rd n buf s = (Some (buf @ take (n - length buf) (rest s)), s') \<and>
          rest s' = drop (n - length buf) (rest s)"
proof (induction "n - length buf" arbitrary: buf s rule: less_induct)
  case less
  show ?case
  proof (cases "length buf < n")
    case False
    with less.prems show ?thesis by (subst read_exactly.simps) simp
  next
    case True
    obtain r s1 where r: "rd (n - length buf) s = (r, s1)" by fastforce
    note split = read_prefix [OF r] and bound = read_bound [OF r]
    have ne: "r \<noteq> []" using read_end [OF r] True less.prems(2) by auto
    then have "n - length (buf @ r) < n - length buf" using True by (cases r) auto
    moreover have "length (buf @ r) \<le> n" using bound True by simp
    moreover have "n - length (buf @ r) \<le> length (rest s1)" using less.prems(2) split by simp
    ultimately obtain s2 where
      "read_exactly rd n (buf @ r) s1 = (Some ((buf @ r) @ take (n - length (buf @ r)) (rest s1)), s2)"
      "rest s2 = drop (n - length (buf @ r)) (rest s1)"
      using less.hyps by blast
    then show ?thesis
      using True r ne split bound by (subst read_exactly.simps) simp
  qed
qed

lemma read_exactly_short:
  "length (rest s) < n - length buf \<Longrightarrow> \<exists>s'. read_exactly rd n buf s = (None, s')"
proof (induction "n - length buf" arbitrary: buf s rule: less_induct)
  case less
  obtain r s1 where r: "rd (n - length buf) s = (r, s1)" by fastforce
  have n: "length buf < n" using less.prems by simp
  show ?case
  proof (cases "r = []")
    case True
    with r n show ?thesis by (subst read_exactly.simps) simp
  next
    case False
    note split = read_prefix [OF r]
    have "n - length (buf @ r) < n - length buf" using n False by (cases r) auto
    moreover have "length (rest s1) < n - length (buf @ r)" using less.prems split by simp
    ultimately obtain s2 where "read_exactly rd n (buf @ r) s1 = (None, s2)" using less.hyps by blast
    with r n False show ?thesis by (subst read_exactly.simps) simp
  qed
qed

end

text \<open>A frame as the Docker daemon sends it: the header with type and size, then the data.\<close>

definition frame_word :: "nat \<Rightarrow> nat \<Rightarrow> 64 word" where
  "frame_word t n = push_bit 56 (of_nat t) OR of_nat n"

definition word_bytes :: "64 word \<Rightarrow> bytes" where
  "word_bytes w = map (\<lambda>k. ucast (drop_bit (8 * k) w)) [7, 6, 5, 4, 3, 2, 1, 0]"

definition frame :: "nat \<Rightarrow> bytes \<Rightarrow> bytes" where
  "frame t d = word_bytes (frame_word t (length d)) @ d"

lemma length_word_bytes [simp]: "length (word_bytes w) = 8"
  by (simp add: word_bytes_def)

lemma low_bytes:
  "push_bit (8 * m) (ucast (ucast (drop_bit (8 * m) w) :: byte)) OR take_bit (8 * m) w = take_bit (8 * Suc m) w"
  for w :: "64 word"
  by (rule bit_word_eqI) (auto simp: bit_simps)

lemma big_endian_low_bytes:
  "fold (\<lambda>b w. push_bit 8 w OR ucast b) (map (\<lambda>k. ucast (drop_bit (8 * k) w) :: byte) (rev [0..<m])) x =
     push_bit (8 * m) x OR take_bit (8 * m) w" for w x :: "64 word"
proof (induction m arbitrary: x)
  case (Suc m)
  have "push_bit (8 * m) (push_bit 8 x OR y) OR z = push_bit (8 * Suc m) x OR (push_bit (8 * m) y OR z)"
    for y z :: "64 word"
    by (simp add: or.assoc push_bit_or add.commute)
  with Suc low_bytes [of m w] show ?case by simp
qed simp

lemma big_endian_word_bytes [simp]: "big_endian (word_bytes w) = w"
proof -
  have "[7, 6, 5, 4, 3, 2, 1, 0] = rev [0..<8]" by (simp add: upt_rec)
  then have "big_endian (word_bytes w) = push_bit (8 * 8) 0 OR take_bit (8 * 8) w"
    unfolding big_endian_def word_bytes_def using big_endian_low_bytes by metis
  then show ?thesis by (simp add: take_bit_word_eq_self)
qed

lemma frame_length_word:
  assumes "n < 2 ^ 56"
  shows "frame_length (frame_word t n) = n"
proof -
  have "frame_word t n AND 0xffffffffffffff = of_nat n"
  proof (rule bit_word_eqI)
    fix k assume "k < LENGTH(64)"
    have "\<not> bit n k" if "56 \<le> k"
      using assms that by (metis bit_take_bit_iff not_less take_bit_nat_eq_self)
    moreover have "bit (0xffffffffffffff :: 64 word) k \<longleftrightarrow> k < 56"
    proof -
      have m: "(0xffffffffffffff :: 64 word) = mask 56" by (simp add: mask_eq_exp_minus_1)
      show ?thesis unfolding m bit_mask_iff using \<open>k < LENGTH(64)\<close> by auto
    qed
    ultimately show "bit (frame_word t n AND 0xffffffffffffff) k \<longleftrightarrow> bit (of_nat n :: 64 word) k"
      using \<open>k < LENGTH(64)\<close> by (auto simp: frame_word_def bit_simps)
  qed
  moreover have "unat (of_nat n :: 64 word) = n"
    using assms by (simp add: unat_of_nat take_bit_nat_eq_self_iff)
  ultimately show ?thesis by (simp add: frame_length_def)
qed

lemma frame_type_word:
  assumes "n < 2 ^ 56" and "t < 256"
  shows "frame_type (frame_word t n) = t"
proof -
  have "drop_bit 56 (frame_word t n) = (of_nat t :: 64 word)"
  proof (rule bit_word_eqI)
    fix k assume k: "k < LENGTH(64)"
    have "\<not> bit n (56 + k)"
      using assms(1) by (metis bit_take_bit_iff le_add1 not_less take_bit_nat_eq_self)
    moreover have "k < 8" if "bit t k"
    proof -
      have "t < 2 ^ 8" using assms(2) by simp
      with that show ?thesis by (metis bit_take_bit_iff take_bit_nat_eq_self)
    qed
    ultimately show "bit (drop_bit 56 (frame_word t n)) k \<longleftrightarrow> bit (of_nat t :: 64 word) k"
      using k by (auto simp: frame_word_def bit_simps not_le)
  qed
  moreover have "unat (of_nat t :: 64 word) = t"
    using assms(2) by (simp add: unat_of_nat take_bit_nat_eq_self_iff)
  ultimately show ?thesis by (simp add: frame_type_def)
qed

context byte_reader
begin

lemma unpack_frame:
  assumes "rest s = frame t d @ further" and "t < 256" and "length d < 2 ^ 56"
  shows "\<exists>s'. unpack_stream rd False s = Inr ((t, d), s') \<and> rest s' = further"
proof -
  let ?w = "frame_word t (length d)"
  have size: "frame_length ?w = length d" and kind: "frame_type ?w = t"
    using assms(2,3) by (simp_all add: frame_length_word frame_type_word)
  from read_exactly_enough [of "[]" 8 s] assms(1) obtain s1 where
    h: "read_exactly rd 8 [] s = (Some (word_bytes ?w), s1)" and s1: "rest s1 = d @ further"
    by (auto simp: frame_def)
  from read_exactly_enough [of "[]" "length d" s1] s1 obtain s2 where
    "read_exactly rd (length d) [] s1 = (Some d, s2)" and "rest s2 = further" by auto
  with h size kind show ?thesis by (simp add: unpack_stream_def)
qed

lemma unpack_end:
  assumes "rest s = []"
  shows "\<exists>s'. unpack_stream rd False s = Inr ((0, []), s') \<and> rest s' = []"
proof -
  obtain r s1 where r: "rd 8 s = (r, s1)" by fastforce
  from read_prefix [OF r] assms have "r = []" and "rest s1 = []" by auto
  with r show ?thesis by (simp add: unpack_stream_def read_exactly.simps)
qed

lemma unpack_truncated:
  assumes "rest s = word_bytes (frame_word t n) @ d" and "n < 2 ^ 56" and "length d < n"
  shows "unpack_stream rd False s = Inl (ExitsWith ''Failed to read all data from the container'')"
proof -
  from read_exactly_enough [of "[]" 8 s] assms(1) obtain s1 where
    h: "read_exactly rd 8 [] s = (Some (word_bytes (frame_word t n)), s1)" and s1: "rest s1 = d"
    by auto
  from read_exactly_short [of s1 n "[]"] s1 assms(3) obtain s2 where "read_exactly rd n [] s1 = (None, s2)" by auto
  with h frame_length_word [OF assms(2)] show ?thesis by (simp add: unpack_stream_def)
qed

end

section \<open>The streams of a run\<close>

text \<open>The data of the frames of one type, in order.\<close>

definition payload :: "nat \<Rightarrow> (nat \<times> bytes) list \<Rightarrow> bytes" where
  "payload t fs = concat (map snd (filter (\<lambda>f. fst f = t) fs))"

definition wf_frames :: "(nat \<times> bytes) list \<Rightarrow> bool" where
  "wf_frames fs \<longleftrightarrow> list_all (\<lambda>(t, d). t < 256 \<and> d \<noteq> [] \<and> length d < 2 ^ 56) fs"

lemma update_stream_append: "update_stream b (update_stream a s) = update_stream (a @ b) s"
  by (simp add: update_stream_def)

lemma emit_append: "emit bo b (emit bo a s) = emit bo (a @ b) s"
  by (simp add: emit_def Let_def update_stream_def)

lemma emit_nothing [simp]: "emit bo [] s = s"
  by (simp add: emit_def Let_def update_stream_def)

context byte_reader
begin

lemma io_loop_frames:
  "wf_frames fs \<Longrightarrow> rest (socket st) = concat (map (\<lambda>(t, d). frame t d) fs) \<Longrightarrow> socket_open st \<Longrightarrow>
     \<exists>s'. io_loop rd accepts False bo (replicate (Suc (length fs)) (Ready [SocketReady])) st =
       Inr (st\<lparr>socket := s', socket_open := False,
               stdout_s := map_option (emit bo (payload 1 fs)) (stdout_s st),
               stderr_s := emit bo (payload 2 fs) (stderr_s st)\<rparr>)"
proof (induction fs arbitrary: st)
  case Nil
  then obtain s' where "unpack_stream rd False (socket st) = Inr ((0, []), s')" using unpack_end by fastforce
  with Nil show ?case
    by (subst io_loop.simps)
      (simp add: handle_poll_def handle_ready_def io_loop.simps payload_def option.map_ident_strong, blast)
next
  case (Cons f fs)
  obtain t d where f: "f = (t, d)" by (cases f)
  with Cons.prems have d: "t < 256" "d \<noteq> []" "length d < 2 ^ 56" "wf_frames fs" by (auto simp: wf_frames_def)
  from unpack_frame [of "socket st" t d] Cons.prems(2) d f obtain s1 where
    u: "unpack_stream rd False (socket st) = Inr ((t, d), s1)"
    and s1: "rest s1 = concat (map (\<lambda>(t, d). frame t d) fs)" by auto
  let ?st1 = "st\<lparr>socket := s1,
      stdout_s := (if t = 1 then map_option (emit bo d) (stdout_s st) else stdout_s st),
      stderr_s := (if t = 2 then emit bo d (stderr_s st) else stderr_s st)\<rparr>"
  have step: "handle_poll rd accepts False bo st (Ready [SocketReady]) = Inr ?st1"
    using u d by (simp add: handle_poll_def handle_ready_def)
  from Cons.IH [OF d(4), of ?st1] s1 Cons.prems(3) obtain s' where
    "io_loop rd accepts False bo (replicate (Suc (length fs)) (Ready [SocketReady])) ?st1 =
       Inr (?st1\<lparr>socket := s', socket_open := False,
               stdout_s := map_option (emit bo (payload 1 fs)) (stdout_s ?st1),
               stderr_s := emit bo (payload 2 fs) (stderr_s ?st1)\<rparr>)" by auto
  moreover have "io_loop rd accepts False bo (replicate (Suc (length (f # fs))) (Ready [SocketReady])) st =
      io_loop rd accepts False bo (replicate (Suc (length fs)) (Ready [SocketReady])) ?st1"
    using step Cons.prems(3) by (subst io_loop.simps) simp
  ultimately show ?case
    using f by (auto simp: payload_def emit_append option.map_comp o_def)
qed

end

text \<open>What \<^verbatim>\<open>send\<close> takes is sent; a loop that ends has sent everything, in order.\<close>

lemma send_loop_all:
  assumes "send_loop accepts d k out = Some out'"
  shows "out' = out @ drop k d"
proof (rule send_loop.raw_induct [OF _ assms, where P = "\<lambda>accepts d k out out'. out' = out @ drop k d"])
  fix rec accepts d k out out'
  assume IH: "\<And>accepts d k out out'. rec accepts d k out = Some out' \<Longrightarrow> out' = out @ drop k d"
    and r: "(if k < length d then let rest = drop k d; n = accepts rest
             in rec accepts d (k + n) (out @ take n rest) else Some out) = Some out'"
  show "out' = out @ drop k d"
  proof (cases "k < length d")
    case True
    let ?n = "accepts (drop k d)"
    from r True have "rec accepts d (k + ?n) (out @ take ?n (drop k d)) = Some out'" by (simp add: Let_def)
    from IH [OF this] have "out' = out @ take ?n (drop k d) @ drop (k + ?n) d" by simp
    also have "take ?n (drop k d) @ drop (k + ?n) d = drop k d"
      by (metis add.commute append_take_drop_id drop_drop)
    finally show ?thesis by simp
  next
    case False
    with r show ?thesis by simp
  qed
qed

lemma send_loop_returns:
  "(\<And>xs. xs \<noteq> [] \<Longrightarrow> 0 < accepts xs) \<Longrightarrow> \<exists>out'. send_loop accepts d k out = Some out'"
proof (induction "length d - k" arbitrary: k out rule: less_induct)
  case less
  show ?case
  proof (cases "k < length d")
    case True
    then have "0 < accepts (drop k d)" using less.prems by simp
    with True have "length d - (k + accepts (drop k d)) < length d - k" by simp
    with less.hyps less.prems True show ?thesis by (subst send_loop.simps) (simp add: Let_def)
  next
    case False
    then show ?thesis by (subst send_loop.simps) simp
  qed
qed

text \<open>
  What the standard input gave in a series of answers of \<^verbatim>\<open>select\<close>, and the part of the series up to
  the answer that reports the socket once more than \<open>n\<close> times: where the output of the container
  ends, if it has sent \<open>n\<close> frames.
\<close>

definition typed_in :: "ready list \<Rightarrow> bytes" where
  "typed_in rs = concat (map (\<lambda>r. case r of StdinReady d \<Rightarrow> d | SocketReady \<Rightarrow> []) rs)"

definition reported :: "poll \<Rightarrow> ready list" where
  "reported p = (case p of Ready rs \<Rightarrow> rs | _ \<Rightarrow> [])"

definition typed_keys :: "poll list \<Rightarrow> bytes" where
  "typed_keys ps = concat (map (\<lambda>p. typed_in (reported p)) ps)"

definition socket_reports :: "poll \<Rightarrow> nat" where
  "socket_reports p = count_list (reported p) SocketReady"

fun until_eof :: "nat \<Rightarrow> poll list \<Rightarrow> poll list" where
  "until_eof n [] = []"
| "until_eof n (p # ps) = p # (if n < socket_reports p then [] else until_eof (n - socket_reports p) ps)"

lemma typed_simps [simp]:
  "typed_in [] = []" "typed_in (StdinReady d # rs) = d @ typed_in rs" "typed_in (SocketReady # rs) = typed_in rs"
  "typed_keys [] = []" "typed_keys (p # ps) = typed_in (reported p) @ typed_keys ps"
  by (simp_all add: typed_in_def typed_keys_def)

lemma reported_simps [simp]: "reported (Ready rs) = rs" "reported Unsupported = []" "reported Interrupt = []"
  by (simp_all add: reported_def)

text \<open>The state after \<open>k\<close> frames of the container and some bytes of the terminal.\<close>

definition advanced :: "bool \<Rightarrow> (nat \<times> bytes) list \<Rightarrow> bytes \<Rightarrow> 's exec_state \<Rightarrow> 's exec_state \<Rightarrow> bool" where
  "advanced bo fs keys st st' \<longleftrightarrow>
     sent st' = sent st @ keys \<and> stdin_s st' = update_stream keys (stdin_s st) \<and>
     stdout_s st' = map_option (emit bo (payload 1 fs)) (stdout_s st) \<and>
     stderr_s st' = emit bo (payload 2 fs) (stderr_s st)"

lemma update_nothing [simp]: "update_stream [] s = s"
  by (simp add: update_stream_def)

lemma payload_append: "payload t (fs @ gs) = payload t fs @ payload t gs"
  by (simp add: payload_def)

lemma advanced_refl [simp]: "advanced bo [] [] st st"
  by (simp add: advanced_def payload_def option.map_ident_strong)

lemma advanced_trans:
  "advanced bo fs d st st1 \<Longrightarrow> advanced bo gs e st1 st2 \<Longrightarrow> advanced bo (fs @ gs) (d @ e) st st2"
  by (simp add: advanced_def update_stream_append emit_append payload_append option.map_comp o_def)

lemma stdin_advances:
  assumes "handle_ready rd accepts tty bo st (StdinReady d) = Inr st'"
  shows "advanced bo [] d st st' \<and> socket st' = socket st \<and> socket_open st' = socket_open st"
  using assms
  by (auto simp: handle_ready_def advanced_def payload_def option.map_ident_strong dest!: send_loop_all
      split: if_splits option.splits)

context byte_reader
begin

text \<open>What is left of the frames stands in the socket; without any the loop ends.\<close>

definition awaits :: "(nat \<times> bytes) list \<Rightarrow> 's exec_state \<Rightarrow> bool" where
  "awaits fs st \<longleftrightarrow> wf_frames fs \<and> rest (socket st) = concat (map (\<lambda>(t, d). frame t d) fs)"

lemma socket_advances:
  assumes "handle_ready rd accepts False bo st SocketReady = Inr st'" and "awaits fs st"
  shows "advanced bo (take 1 fs) [] st st' \<and> awaits (drop 1 fs) st' \<and> socket_open st' = (socket_open st \<and> fs \<noteq> [])"
proof (cases fs)
  case Nil
  with assms(2) obtain s1 where "unpack_stream rd False (socket st) = Inr ((0, []), s1)" and "rest s1 = []"
    using unpack_end by (fastforce simp: awaits_def)
  with assms Nil show ?thesis
    by (auto simp: handle_ready_def awaits_def advanced_def payload_def option.map_ident_strong)
next
  case (Cons f gs)
  obtain t d where f: "f = (t, d)" by fastforce
  with assms(2) Cons have d: "t < 256" "d \<noteq> []" "length d < 2 ^ 56" "wf_frames gs"
    and r: "rest (socket st) = frame t d @ concat (map (\<lambda>(t, d). frame t d) gs)"
    by (auto simp: awaits_def wf_frames_def)
  from unpack_frame [OF r d(1,3)] obtain s1 where
    "unpack_stream rd False (socket st) = Inr ((t, d), s1)" and "rest s1 = concat (map (\<lambda>(t, d). frame t d) gs)" by blast
  with assms(1) Cons f d show ?thesis
    by (auto simp: handle_ready_def awaits_def advanced_def payload_def option.map_ident_strong split: if_splits)
qed

lemma reports_advance:
  "foldm (handle_ready rd accepts False bo) st rs = Inr st' \<Longrightarrow> awaits fs st \<Longrightarrow>
     advanced bo (take (count_list rs SocketReady) fs) (typed_in rs) st st' \<and>
     awaits (drop (count_list rs SocketReady) fs) st' \<and>
     socket_open st' = (socket_open st \<and> count_list rs SocketReady \<le> length fs)"
proof (induction rs arbitrary: st fs)
  case (Cons r rs)
  from Cons.prems(1) obtain st1 where s: "handle_ready rd accepts False bo st r = Inr st1"
    and f: "foldm (handle_ready rd accepts False bo) st1 rs = Inr st'" by (auto simp: bindr_eq_Inr)
  show ?case
  proof (cases r)
    case (StdinReady d)
    with stdin_advances [of rd accepts False bo st d st1] s Cons.prems(2) have
      a: "advanced bo [] d st st1" and w: "awaits fs st1" and "socket_open st1 = socket_open st"
      by (auto simp: awaits_def)
    with Cons.IH [OF f w] advanced_trans [OF a] StdinReady show ?thesis by fastforce
  next
    case SocketReady
    from socket_advances [OF s [unfolded SocketReady] Cons.prems(2)] have
      a: "advanced bo (take 1 fs) [] st st1" and w: "awaits (drop 1 fs) st1"
      and o: "socket_open st1 = (socket_open st \<and> fs \<noteq> [])" by auto
    let ?n = "count_list rs SocketReady"
    have "take 1 fs @ take ?n (drop 1 fs) = take (Suc ?n) fs" by (cases fs) auto
    moreover have "drop ?n (drop 1 fs) = drop (Suc ?n) fs" by (cases fs) auto
    moreover have "(fs \<noteq> [] \<and> ?n \<le> length (drop 1 fs)) = (Suc ?n \<le> length fs)" by (cases fs) auto
    ultimately show ?thesis
      using Cons.IH [OF f w] advanced_trans [OF a, of "take ?n (drop 1 fs)" "typed_in rs" st'] o SocketReady by auto
  qed
qed simp

lemma io_loop_advances:
  "io_loop rd accepts False bo polls st = Inr st' \<Longrightarrow> awaits fs st \<Longrightarrow> socket_open st \<Longrightarrow>
     advanced bo fs (typed_keys (until_eof (length fs) polls)) st st'"
proof (induction polls arbitrary: st fs)
  case Nil
  then show ?case by (subst (asm) io_loop.simps) simp
next
  case (Cons p ps)
  from Cons.prems(1,3) obtain st1 where s: "handle_poll rd accepts False bo st p = Inr st1"
    and l: "io_loop rd accepts False bo ps st1 = Inr st'"
    by (subst (asm) io_loop.simps) (auto elim!: bindrE)
  let ?n = "socket_reports p"
  have step: "advanced bo (take ?n fs) (typed_in (reported p)) st st1 \<and> awaits (drop ?n fs) st1 \<and>
      socket_open st1 = (?n \<le> length fs)"
  proof (cases p)
    case (Ready rs)
    with s have "foldm (handle_ready rd accepts False bo) st rs = Inr st1" by (simp add: handle_poll_def)
    from reports_advance [OF this Cons.prems(2)] Cons.prems(3) Ready show ?thesis by (simp add: socket_reports_def)
  qed (use s Cons.prems in \<open>auto simp: handle_poll_def socket_reports_def awaits_def advanced_def payload_def
      option.map_ident_strong split: if_splits\<close>)
  show ?case
  proof (cases "length fs < ?n")
    case True
    with step l have "st' = st1" by (subst (asm) io_loop.simps) simp
    with step True show ?thesis by simp
  next
    case False
    with Cons.IH [OF l, of "drop ?n fs"] step have
      "advanced bo (drop ?n fs) (typed_keys (until_eof (length fs - ?n) ps)) st1 st'" by simp
    with advanced_trans [of bo "take ?n fs" _ st st1 "drop ?n fs"] step False show ?thesis by simp
  qed
qed

lemma io_loop_accounts:
  assumes "io_loop rd accepts False bo polls st = Inr st'" and "wf_frames fs"
    and "rest (socket st) = concat (map (\<lambda>(t, d). frame t d) fs)" and "socket_open st"
  shows "advanced bo fs (typed_keys (until_eof (length fs) polls)) st st'"
  using io_loop_advances [OF assms(1)] assms(2-4) by (simp add: awaits_def)

end

text \<open>A successful run, taken apart.\<close>

lemma container_exec_ran:
  assumes "container_exec sha rd accepts tty rs bo ws tty_ok attached started result polls log t = (Inr (log', Some st), t')"
  obtains r sock where "attached = Inr sock" and "result = Inr r" and "t' = t"
    and "io_loop rd accepts tty bo polls (start_state rs ws sock) = Inr st"
    and "log' = finish_log sha rs bo r st log"
  using assms
  by (auto simp: container_exec_def enter_raw_def restore_terminal_def bindr_eq_Inr split: if_splits sum.splits)

text \<open>The terminal after the command: raw only where the loop was not reached.\<close>

lemma container_exec_terminal:
  "snd (container_exec sha rd accepts tty rs bo ws tty_ok attached started result polls log t) =
     (if tty \<and> rs \<and> tty_ok \<and> (isl attached \<or> isl started) then set_raw t else t)"
  by (auto simp: container_exec_def enter_raw_def restore_terminal_def split: sum.splits)

definition demo_terminal :: termios where
  "demo_terminal = \<lparr>iflag = 0x500, oflag = 0x5, cflag = 0xBF, lflag = 0x8A3B, cc_min = 1, cc_time = 0\<rparr>"

section \<open>Properties\<close>

text \<open>
  C8: in whatever pieces the socket delivers them, the frames of the container are read back one
  by one, and every byte reaches the stream of its frame's type in order: standard output gets the
  data of type 1, standard error that of type 2, everything else is dropped.
\<close>

theorem frames_reach_their_streams:
  assumes "wf_frames fs" and "concat chunks = concat (map (\<lambda>(t, d). frame t d) fs)"
  shows "\<exists>st. io_loop socket_read accepts False bo (replicate (Suc (length fs)) (Ready [SocketReady]))
        (start_state rs True chunks) = Inr st \<and> \<not> socket_open st \<and>
      stdout_s st = Some (emit bo (payload 1 fs) new_stream) \<and>
      stderr_s st = emit bo (payload 2 fs) new_stream"
  using sockets.io_loop_frames [OF assms(1), of "start_state rs True chunks" accepts bo] assms(2)
  by (auto simp: start_state_def)

definition demo_frames :: "(nat \<times> bytes) list" where
  "demo_frames = [(1, [104, 105]), (2, [33])]"

theorem frames_reach_their_streams_witness:
  "\<exists>st. io_loop socket_read (\<lambda>d. 1) False True (replicate (Suc (length demo_frames)) (Ready [SocketReady]))
        (start_state False True [take 3 (frame 1 [104, 105]), drop 3 (frame 1 [104, 105]) @ frame 2 [33]]) = Inr st \<and>
      \<not> socket_open st \<and>
      stdout_s st = Some (emit True (payload 1 demo_frames) new_stream) \<and>
      stderr_s st = emit True (payload 2 demo_frames) new_stream"
  by (rule frames_reach_their_streams)
    (simp_all add: demo_frames_def wf_frames_def append_assoc [symmetric] del: append_assoc)

text \<open>
  C24: the header that precedes the data carries any type below 256 and any size below \<open>2 ^ 56\<close>: a
  frame is unpacked to its type and its data, and the bytes behind it are left in the socket.
\<close>

theorem frame_round_trip:
  assumes "t < 256" and "length d < 2 ^ 56" and "concat chunks = frame t d @ further"
  shows "\<exists>left. unpack_stream socket_read False chunks = Inr ((t, d), left) \<and> concat left = further"
  using sockets.unpack_frame [OF assms(3,1,2)] .

theorem frame_round_trip_witness:
  "\<exists>left. unpack_stream socket_read False [frame 2 [7], [9, 9]] = Inr ((2, [7]), left) \<and> concat left = [9, 9]"
  by (rule frame_round_trip) simp_all

text \<open>
  A frame that ends before its announced size stops the program with the message that not all
  data could be read; it is never passed on in part.
\<close>

theorem truncated_frame_exits:
  assumes "concat chunks = word_bytes (frame_word t n) @ d" and "n < 2 ^ 56" and "length d < n"
  shows "unpack_stream socket_read False chunks =
    Inl (ExitsWith ''Failed to read all data from the container'')"
  using assms by (rule sockets.unpack_truncated)

theorem truncated_frame_exits_witness:
  "unpack_stream socket_read False [word_bytes (frame_word 1 3), [5]] =
    Inl (ExitsWith ''Failed to read all data from the container'')"
  by (rule truncated_frame_exits [where t = 1 and n = 3 and d = "[5]"]) simp_all

text \<open>
  A frame without data is taken for the end of the stream: the loop stops, and the frames that
  follow it are never read.
\<close>

theorem empty_frame_ends_loop:
  assumes "t < 256" and "concat chunks = frame t [] @ further"
  shows "\<exists>left. io_loop socket_read accepts False bo [Ready [SocketReady]] (start_state rs ws chunks) =
      Inr ((start_state rs ws chunks)\<lparr>socket := left, socket_open := False\<rparr>) \<and> concat left = further"
proof -
  from sockets.unpack_frame [OF assms(2,1)] obtain left where
    "unpack_stream socket_read False chunks = Inr ((t, []), left)" "concat left = further" by auto
  then show ?thesis
    by (subst io_loop.simps)
      (simp add: handle_poll_def handle_ready_def start_state_def io_loop.simps [of _ _ _ _ "[]"])
qed

theorem empty_frame_ends_loop_witness:
  "\<exists>left. io_loop socket_read (\<lambda>d. 1) False False [Ready [SocketReady]]
        (start_state False True [frame 1 [], frame 1 [65]]) =
      Inr ((start_state False True [frame 1 [], frame 1 [65]])\<lparr>socket := left, socket_open := False\<rparr>) \<and>
    concat left = frame 1 [65]"
  by (rule empty_frame_ends_loop) simp_all

text \<open>
  C33: a run without a terminal in the container (without \<^verbatim>\<open>-t\<close>) that copes with the frames the
  container sends, and with what is typed meanwhile, accounts for every byte of both: the container has been sent all that was typed until its output
  ended; what is shown on the terminal, or kept in the log when the output is buffered, is the data
  of the frames of type 1 and of type 2; and if the exit code is 0 the log gains an input
  \<^verbatim>\<open>/dev/stdin\<close> and outputs \<^verbatim>\<open>/dev/stdout\<close> and \<^verbatim>\<open>/dev/stderr\<close>, each with the digest of all its bytes,
  for the streams that the run has and that carried something, and none otherwise.
\<close>

theorem run_log_accounts_for_streams:
  assumes "container_exec sha socket_read accepts False rs bo ws tty_ok (Inr chunks) started result polls log t =
      (Inr (log', Some st), t')"
    and "wf_frames fs" and "concat chunks = concat (map (\<lambda>(t, d). frame t d) fs)"
  defines "keys \<equiv> typed_keys (until_eof (length fs) polls)"
  shows "sent st = keys \<and>
    (\<forall>s. stdout_s st = Some s \<longrightarrow> (if bo then log_stdout log' else shown s) = payload 1 fs) \<and>
    (if bo then log_stderr log' else shown (stderr_s st)) = payload 2 fs \<and>
    in_files log' = in_files log @
      (if exit_code log' = 0 \<and> rs \<and> keys \<noteq> []
       then [new_file_log (parse_path ''/dev/stdin'') (sha keys) None] else []) \<and>
    out_files log' = out_files log @
      (if exit_code log' = 0 \<and> ws \<and> payload 1 fs \<noteq> []
       then [new_file_log (parse_path ''/dev/stdout'') (sha (payload 1 fs)) None] else []) @
      (if exit_code log' = 0 \<and> payload 2 fs \<noteq> []
       then [new_file_log (parse_path ''/dev/stderr'') (sha (payload 2 fs)) None] else [])"
proof -
  from assms(1) obtain r where l: "io_loop socket_read accepts False bo polls (start_state rs ws chunks) = Inr st"
    and log': "log' = finish_log sha rs bo r st log" by (rule container_exec_ran) blast
  from sockets.io_loop_accounts [OF l assms(2)] assms(3) have
    "sent st = keys" "stdin_s st = update_stream keys new_stream"
    "stdout_s st = (if ws then Some (emit bo (payload 1 fs) new_stream) else None)"
    "stderr_s st = emit bo (payload 2 fs) new_stream"
    by (simp_all add: start_state_def keys_def advanced_def)
  with log' show ?thesis
    by (simp add: finish_log_def Let_def optional_entry_def stream_entry_def emit_def update_stream_def new_stream_def)
qed

theorem run_log_accounts_for_streams_witness:
  "\<exists>log' st t'. container_exec decode_text socket_read length False True False True False (Inr [frame 2 [104]]) (Inr ())
      (Inr \<lparr>status_code = Some 0, wait_error = ErrorNull\<rparr>)
      [Ready [StdinReady [65, 66], SocketReady], Ready [SocketReady]]
      (new_command_log [''cat''] demo_time) demo_terminal = (Inr (log', Some st), t') \<and>
    sent st = [65, 66] \<and> shown (stderr_s st) = [104] \<and>
    in_files log' = [new_file_log (parse_path ''/dev/stdin'') ''AB'' None] \<and>
    out_files log' = [new_file_log (parse_path ''/dev/stderr'') ''h'' None]"
proof -
  let ?polls = "[Ready [StdinReady [65, 66], SocketReady], Ready [SocketReady]]"
  have send: "send_loop length [65, 66] 0 [] = Some [65, 66]"
    by (simp add: send_loop.simps)
  obtain s1 where u: "unpack_stream socket_read False [frame 2 [104]] = Inr ((2, [104]), s1)" and s1: "concat s1 = []"
    using sockets.unpack_frame [of "[frame 2 [104]]" 2 "[104]" "[]"] by auto
  obtain s2 where e: "unpack_stream socket_read False s1 = Inr ((0, []), s2)"
    using sockets.unpack_end [OF s1] by blast
  obtain log' st t' where run: "container_exec decode_text socket_read length False True False True False
      (Inr [frame 2 [104]]) (Inr ()) (Inr \<lparr>status_code = Some 0, wait_error = ErrorNull\<rparr>) ?polls
      (new_command_log [''cat''] demo_time) demo_terminal = (Inr (log', Some st), t')" and code: "exit_code log' = 0"
    by (simp add: container_exec_def enter_raw_def io_loop.simps handle_poll_def handle_ready_def start_state_def send u e
        finish_log_def Let_def exit_code_of_def)
  have "wf_frames [(2, [104])]" by (simp add: wf_frames_def)
  moreover have "in_files (new_command_log c d) = []" "out_files (new_command_log c d) = []" for c d
    by (simp_all add: new_command_log_def)
  moreover have "decode_text [65, 66] = ''AB''" "decode_text [104] = ''h''" by code_simp+
  ultimately show ?thesis
    using run run_log_accounts_for_streams [OF run, of "[(2, [104])]"] code
    by (simp add: typed_keys_def typed_in_def payload_def)
qed

text \<open>
  When the container cannot be started and the daemon gives no error object, as it does for a
  container that never ran, reading the message raises an \<^verbatim>\<open>AttributeError\<close> in place of the report.
\<close>

theorem failed_start_raises:
  assumes "started = Inl DockerAPIError" and "result = Inr r"
    and "wait_error r = ErrorMissing \<or> wait_error r = ErrorNull" and "tty_ok"
  shows "fst (container_exec sha rd accepts tty rs bo ws tty_ok (Inr sock) started result polls log t) = Inl AttributeError"
  using assms by (auto simp: container_exec_def enter_raw_def start_failed_def error_message_def)

theorem failed_start_raises_witness:
  "fst (container_exec decode_text socket_read length True True False True True (Inr []) (Inl DockerAPIError)
     (Inr \<lparr>status_code = Some 127, wait_error = ErrorNull\<rparr>) [] demo_log demo_terminal) = Inl AttributeError"
  by (rule failed_start_raises [OF refl refl]) simp_all

text \<open>
  C32: forwarding the terminal's input ends and sends every byte once and in order, as long as every
  call of \<^verbatim>\<open>send\<close> takes at least one byte.
\<close>

theorem input_forwarded_completely:
  assumes "\<And>xs. xs \<noteq> [] \<Longrightarrow> 0 < accepts xs" and "d \<noteq> []"
  shows "\<exists>st'. handle_ready rd accepts tty bo st (StdinReady d) = Inr st' \<and> sent st' = sent st @ d \<and>
    hashed (stdin_s st') = hashed (stdin_s st) @ d"
proof -
  have "\<exists>out. send_loop accepts d 0 (sent st) = Some out"
    by (rule send_loop_returns) (rule assms(1))
  then obtain out where out: "send_loop accepts d 0 (sent st) = Some out" by blast
  have "out = sent st @ d" using send_loop_all [OF out] by simp
  then have "handle_ready rd accepts tty bo st (StdinReady d) =
      Inr (st\<lparr>stdin_s := update_stream d (stdin_s st), sent := sent st @ d\<rparr>)"
    using assms(2) out by (simp add: handle_ready_def)
  then show ?thesis by (simp add: update_stream_def)
qed

theorem input_forwarded_completely_witness:
  "\<exists>st'. handle_ready socket_read (\<lambda>xs. 1) False False (start_state True True ([] :: bytes list)) (StdinReady [1, 2, 3]) = Inr st' \<and>
    sent st' = sent (start_state True True ([] :: bytes list)) @ [1, 2, 3] \<and>
    hashed (stdin_s st') = hashed (stdin_s (start_state True True ([] :: bytes list))) @ [1, 2, 3]"
  by (rule input_forwarded_completely) simp_all

end
