(* ===== verification/Tool_Image.thy ===== *)
theory Tool_Image
  imports Py_Steps File_Resolver Tar_Download Container_Stream
begin

text \<open>
  Running a tool: \<^verbatim>\<open>_detect_shell\<close>, \<^verbatim>\<open>__create_container\<close>, \<^verbatim>\<open>__download_results\<close> and \<^verbatim>\<open>__run\<close> of
  \<^verbatim>\<open>cincan/frontend.py\<close>, composed of the file resolver, the upload, the execution and the
  download.  The state holds the attributes of the tool, the host file system, the settings of the
  terminal, and the calls to the Docker client that had an effect; the answers of the client are in the environment.  Debug
  messages are not modelled.
\<close>

section \<open>The environment and the state\<close>

record request =
  req_command :: "string list"
  req_entrypoint :: "string list"
  req_network :: "string option"
  req_tty :: bool
  req_stdin :: bool
  req_user :: "string option"
  req_cap_add :: "string option list option"
  req_cap_drop :: "string option list option"
  req_runtime :: "string option"

datatype docker_call =
    ProbeCreate | ProbeRead string | ProbeRemove
  | Create request | PutArchive "tar_member list" | Kill | Commit | Remove | RemoveImage

text \<open>
  \<open>stack_depth\<close> bounds the stack of the resolver, \<open>tar_text\<close> is the layout of tar files.  A field that starts with \<open>a_\<close> is an answer of the
  Docker client: \<open>a_probe\<close> what \<^verbatim>\<open>get_archive\<close> says for the path of a shell, \<open>a_container\<close> the
  container after the run, \<open>a_attach\<close> and \<open>a_polls\<close> its attached socket and what \<^verbatim>\<open>select\<close> reports.
  \<open>image_created\<close> is the attribute \<^verbatim>\<open>Created\<close> of the image; \<open>parse_file_time\<close> and \<open>format_time\<close> are functions
  of the package of the registry.
\<close>

record 's environment =
  stack_depth :: nat
  sha :: "bytes \<Rightarrow> string"
  clock :: "nat \<Rightarrow> int"
  zone :: "int \<Rightarrow> datetime"
  read_tar :: "string \<Rightarrow> tar_member list result"
  tar_text :: "tar_member list \<Rightarrow> bytes"
  import_time :: datetime
  recv :: "nat \<Rightarrow> 's \<Rightarrow> bytes \<times> 's"
  accepts :: "bytes \<Rightarrow> nat"
  tty_ok :: bool
  a_probe_create :: "unit result"
  a_probe :: "string \<Rightarrow> unit result"
  a_probe_remove :: "unit result"
  a_create :: "request \<Rightarrow> unit result"
  a_put :: "unit result"
  a_start :: "unit result"
  a_wait :: "wait_result result"
  a_attach :: "'s result"
  a_polls :: "poll list"
  a_container :: container
  a_kill :: "unit result"
  a_commit :: "unit result"
  a_remove :: "unit result"
  a_remove_image :: "unit result"
  image_tags :: "string list"
  image_created :: "string option"
  parse_file_time :: "string \<Rightarrow> datetime result"
  format_time :: "datetime \<Rightarrow> string result"

text \<open>
  An option that may be repeated has an element \<open>None\<close> for each time it is written without a value.
\<close>

record tool =
  name_of :: string
  image_entrypoint :: "string list option"
  image_cmd :: "string list option"
  shell_list :: "string list option"
  loaded_image :: bool
  input_tar :: "string option"
  input_filters :: "file_matcher list option"
  output_tar :: "string option"
  mkdirs :: "string option list"
  implicit_output :: bool
  explicit_output :: "string option list option"
  stats_of :: "(string, stat) dict"
  output_filters :: "file_matcher list option"
  no_defaults :: bool
  create_image :: bool
  entrypoint :: "string option"
  network_mode :: "string option"
  user :: "string option"
  cap_add :: "string option list option"
  cap_drop :: "string option list option"
  runtime :: "string option"
  is_tty :: bool
  read_stdin :: bool
  shell :: string
  upload_files :: "string list"
  download_list :: "string list"
  buffer_output :: bool
  files :: host
  saved :: "tar_member list option"
  terminal :: termios
  calls :: "docker_call list"

type_synonym 'a tool_step = "(tool, 'a) action"

text \<open>What Python takes for true: a list or a string that is there and not empty.\<close>

definition present :: "'a list option \<Rightarrow> bool" where
  "present x \<longleftrightarrow> x \<noteq> None \<and> x \<noteq> Some []"

definition or_empty :: "'a list option \<Rightarrow> 'a list" where
  "or_empty x = (case x of None \<Rightarrow> [] | Some l \<Rightarrow> l)"

definition not_found :: "py_error \<Rightarrow> bool" where
  "not_found e \<longleftrightarrow> e = DockerNotFound \<or> e = DockerImageNotFound"

definition api_error :: "py_error \<Rightarrow> bool" where
  "api_error e \<longleftrightarrow> e = DockerAPIError \<or> not_found e"

definition docker :: "docker_call \<Rightarrow> unit result \<Rightarrow> unit tool_step" where
  "docker c answer st =
     (case answer of Inl e \<Rightarrow> (Inl e, st) | Inr u \<Rightarrow> (Inr (), st\<lparr>calls := calls st @ [c]\<rparr>))"

section \<open>Finding a shell\<close>

definition probe_shell :: "'s environment \<Rightarrow> string \<Rightarrow> string tool_step" where
  "probe_shell env s =
     and_then (docker ProbeCreate (a_probe_create env)) (\<lambda>_.
     and_then (docker (ProbeRead s) (a_probe env s)) (\<lambda>_.
     and_then (docker ProbeRemove (a_probe_remove env)) (\<lambda>_. give s)))"

primrec try_shells :: "'s environment \<Rightarrow> string list \<Rightarrow> string tool_step" where
  "try_shells env [] = give ''''"
| "try_shells env (s # ss) =
     handle (probe_shell env s) (\<lambda>e. if not_found e then try_shells env ss else raise e)"

definition candidate_shells :: "string \<Rightarrow> string list \<Rightarrow> string list" where
  "candidate_shells s ss = (if s \<notin> set ss then s # ss else ss)"

definition detect_shell :: "'s environment \<Rightarrow> string tool_step" where
  "detect_shell env st =
     (case shell_list st of
        None \<Rightarrow> give '''' st
      | Some ss \<Rightarrow>
          let ss' = candidate_shells (shell st) ss
          in try_shells env ss' (st\<lparr>shell_list := Some ss'\<rparr>))"

section \<open>Creating the container\<close>

definition choose_entrypoint :: "tool \<Rightarrow> string list" where
  "choose_entrypoint st =
     (if present (entrypoint st) then [or_empty (entrypoint st)] else or_empty (image_entrypoint st))"

definition choose_command :: "tool \<Rightarrow> string list \<Rightarrow> string list" where
  "choose_command st cmd_args =
     (let cmd = (if \<not> present (image_cmd st) \<or> present (entrypoint st) then [] else or_empty (image_cmd st))
      in if shell st = '''' then (if cmd_args \<noteq> [] then cmd_args else cmd) else [])"

definition container_request :: "tool \<Rightarrow> string list \<Rightarrow> request" where
  "container_request st cmd_args =
     \<lparr>req_command = choose_command st cmd_args, req_entrypoint = choose_entrypoint st,
      req_network = network_mode st, req_tty = is_tty st, req_stdin = read_stdin st, req_user = user st,
      req_cap_add = cap_add st, req_cap_drop = cap_drop st, req_runtime = runtime st\<rparr>"

definition use_shell :: "'s environment \<Rightarrow> unit tool_step" where
  "use_shell env st =
     (if shell st = '''' then give () st
      else and_then (detect_shell env) (\<lambda>s st1.
             let st2 = st1\<lparr>entrypoint := Some s\<rparr>
             in if s = '''' then (Inl (Exits 1), st2) else (Inr (), st2)) st)"

definition upload_to :: "'s environment \<Rightarrow> (ppath, string) dict \<Rightarrow> file_log list tool_step" where
  "upload_to env ups st =
     (case upload (sha env) (clock env) (zone env) (files st) (read_tar env) (input_tar st) ups
             \<lparr>members = [], dirs = {}, upload_stats = stats_of st, uploaded_files = [], tick = 0\<rparr> of
        Inl e \<Rightarrow> (Inl e, st)
      | Inr (archive, up) \<Rightarrow>
          and_then (case archive of None \<Rightarrow> give () | Some ms \<Rightarrow> docker (PutArchive ms) (a_put env))
            (\<lambda>_. give (uploaded_files up)) (st\<lparr>stats_of := upload_stats up\<rparr>))"

definition fill_container ::
  "'s environment \<Rightarrow> (ppath, string) dict \<Rightarrow> string list \<Rightarrow> (command_log \<times> file_log list) tool_step" where
  "fill_container env ups cmd_args st =
     (let req = container_request st cmd_args
      in and_then (docker (Create req) (a_create env req)) (\<lambda>_.
         and_then (upload_to env ups) (\<lambda>ins.
         give (new_command_log (name_of st # req_command req) (import_time env), ins))) st)"

text \<open>The debug messages join the lists of capabilities, which raises where a value is missing.\<close>

definition joinable :: "string option list option \<Rightarrow> unit result" where
  "joinable x = (if None \<in> set (or_empty x) then Inl TypeError else Inr ())"

definition show_options :: "tool \<Rightarrow> unit result" where
  "show_options st = bindr (joinable (cap_add st)) (\<lambda>_. joinable (cap_drop st))"

definition create_container ::
  "'s environment \<Rightarrow> (ppath, string) dict \<Rightarrow> string list \<Rightarrow> (command_log \<times> file_log list) tool_step" where
  "create_container env ups cmd_args =
     and_then (ask show_options) (\<lambda>_. and_then (use_shell env) (\<lambda>_. fill_container env ups cmd_args))"

section \<open>Running\<close>

definition download_results :: "'s environment \<Rightarrow> command_log \<Rightarrow> command_log tool_step" where
  "download_results env log st =
     (let (paths, implicit) = (if present (explicit_output st) then (or_empty (explicit_output st), False)
                               else (mkdirs st, implicit_output st))
      in case download_files (sha env) (clock env) (zone env) (stats_of st) (a_container env)
                (tar_text env) (or_empty (output_filters st)) (no_defaults st) paths implicit (output_tar st) (files st) of
           (r, d) \<Rightarrow>
             (bindr r (\<lambda>_. Inr (log\<lparr>out_files := out_files log @ out_log d\<rparr>)),
              st\<lparr>files := fs d, saved := (if written d = None then saved st else written d)\<rparr>))"

definition execute :: "'s environment \<Rightarrow> command_log \<Rightarrow> command_log tool_step" where
  "execute env log st =
     (case container_exec (sha env) (recv env) (accepts env) (is_tty st) (read_stdin st) (buffer_output st)
             (output_tar st \<noteq> Some ''-'') (tty_ok env) (a_attach env) (a_start env) (a_wait env) (a_polls env) log (terminal st) of
        (r, t) \<Rightarrow> (bindr r (\<lambda>(log', streams). Inr log'), st\<lparr>terminal := t\<rparr>))"

text \<open>
  The body of the \<^verbatim>\<open>try\<close>.  An interrupt while the command runs comes before the log is replaced,
  one during the download after it.
\<close>

definition run_body :: "'s environment \<Rightarrow> command_log \<Rightarrow> file_log list \<Rightarrow> command_log tool_step" where
  "run_body env log0 ins =
     (\<lambda>st. case execute env log0 st of
        (Inl e, st1) \<Rightarrow> if e = KeyboardInterrupt then download_results env log0 st1 else (Inl e, st1)
      | (Inr log1, st1) \<Rightarrow>
          let log = log1\<lparr>in_files := in_files log1 @ ins\<rparr>
          in if exit_code log = 0
             then handle (download_results env log)
                    (\<lambda>e. if e = KeyboardInterrupt then download_results env log else raise e) st1
             else (Inr log, st1))"

definition if_api_error :: "unit tool_step \<Rightarrow> unit tool_step" where
  "if_api_error m = handle m (\<lambda>e. if api_error e then give () else raise e)"

definition remove_image :: "'s environment \<Rightarrow> unit tool_step" where
  "remove_image env = docker RemoveImage (a_remove_image env)"

definition tidy_up :: "'s environment \<Rightarrow> unit tool_step" where
  "tidy_up env =
     and_then (if_api_error (docker Kill (a_kill env))) (\<lambda>_.
     and_then (\<lambda>st. if create_image st then docker Commit (a_commit env) st else give () st) (\<lambda>_.
     and_then (docker Remove (a_remove env)) (\<lambda>_ st.
     if \<not> loaded_image st then if_api_error (remove_image env) st else give () st)))"

definition note_files :: "(ppath, string) dict \<Rightarrow> command_log \<Rightarrow> command_log tool_step" where
  "note_files ups log st =
     (let st1 = st\<lparr>upload_files := sort (map (\<lambda>x. as_posix (fst x)) ups)\<rparr>;
          downloaded = filter (\<lambda>f. \<not> startswith (as_posix (path f)) ''/dev/'') (out_files log)
      in case map_result (\<lambda>f. relative_to (path f) (PPath ''/'' (cwd (files st)))) downloaded of
           Inl e \<Rightarrow> (Inl e, st1)
         | Inr ps \<Rightarrow> (Inr log, st1\<lparr>download_list := sort (map as_posix ps)\<rparr>))"

definition given_values :: "string option list \<Rightarrow> string list result" where
  "given_values = map_result (\<lambda>x. case x of None \<Rightarrow> Inl TypeError | Some s \<Rightarrow> Inr s)"

definition resolver_of :: "'s environment \<Rightarrow> string list \<Rightarrow> tool \<Rightarrow> resolver result" where
  "resolver_of env args st =
     bindr (given_values (mkdirs st)) (\<lambda>dirs.
       new_resolver (stack_depth env) (files st) args dirs (\<not> present (input_tar st)) (or_empty (input_filters st)))"

text \<open>What comes before the \<^verbatim>\<open>try\<close>: an error here ends the run at once.\<close>

definition prepare ::
  "'s environment \<Rightarrow> string list \<Rightarrow> ((ppath, string) dict \<times> command_log \<times> file_log list) tool_step" where
  "prepare env args st =
     (case resolver_of env args st of
        Inl e \<Rightarrow> (Inl e, st)
      | Inr r \<Rightarrow>
          case resolve_upload_files (files st) r [] of (cmd_args, ups) \<Rightarrow>
          and_then (create_container env ups cmd_args) (\<lambda>(log, ins). give (ups, log, ins)) st)"

definition run_tool :: "'s environment \<Rightarrow> string list \<Rightarrow> command_log tool_step" where
  "run_tool env args =
     and_then (prepare env args) (\<lambda>(ups, log, ins).
     and_then (finally_do (run_body env log ins) (tidy_up env)) (note_files ups))"

definition run :: "'s environment \<Rightarrow> string list \<Rightarrow> command_log tool_step" where
  "run env args st = run_tool env args (st\<lparr>buffer_output := False\<rparr>)"

definition run_get_string :: "'s environment \<Rightarrow> string list \<Rightarrow> string tool_step" where
  "run_get_string env args st =
     and_then (run_tool env args) (\<lambda>log. give (decode_text (log_stdout log) @ decode_text (log_stderr log)))
       (st\<lparr>buffer_output := True\<rparr>)"

section \<open>Containers left behind\<close>

text \<open>Containers made and not removed, over the calls of the client.\<close>

fun balance :: "docker_call \<Rightarrow> int" where
  "balance ProbeCreate = 1"
| "balance ProbeRemove = -1"
| "balance (Create r) = 1"
| "balance Remove = -1"
| "balance c = 0"

definition left_behind :: "tool \<Rightarrow> int" where
  "left_behind st = sum_list (map balance (calls st))"

lemma docker_Inr:
  "docker c a st = (Inr u, st') \<longleftrightarrow> a = Inr () \<and> st' = st\<lparr>calls := calls st @ [c]\<rparr>"
  by (auto simp: docker_def split: sum.splits)

lemma docker_Inl: "docker c a st = (Inl e, st') \<longleftrightarrow> a = Inl e \<and> st' = st"
  by (auto simp: docker_def split: sum.splits)

section \<open>Shells\<close>

lemma probe_shell_cases:
  assumes "a_probe_create env = Inr ()" and "a_probe_remove env = Inr ()"
  shows "probe_shell env s st =
    (case a_probe env s of
       Inr u \<Rightarrow> (Inr s, st\<lparr>calls := calls st @ [ProbeCreate, ProbeRead s, ProbeRemove]\<rparr>)
     | Inl e \<Rightarrow> (Inl e, st\<lparr>calls := calls st @ [ProbeCreate]\<rparr>))"
  using assms by (auto simp: probe_shell_def and_then_def docker_def give_def split: sum.splits)

definition has_shell :: "'s environment \<Rightarrow> string \<Rightarrow> bool" where
  "has_shell env s \<longleftrightarrow> (\<exists>u. a_probe env s = Inr u)"

text \<open>The daemon lets the probes be made and removed, and only says that a path is not there.\<close>

definition probes_work :: "'s environment \<Rightarrow> bool" where
  "probes_work env \<longleftrightarrow> a_probe_create env = Inr () \<and> a_probe_remove env = Inr () \<and>
     (\<forall>s e. a_probe env s = Inl e \<longrightarrow> not_found e)"

lemma try_shells_result:
  assumes "probes_work env"
  shows "\<exists>cs. try_shells env ss st =
      (Inr (case find (has_shell env) ss of None \<Rightarrow> '''' | Some s \<Rightarrow> s), st\<lparr>calls := calls st @ cs\<rparr>) \<and>
    sum_list (map balance cs) = int (length (takeWhile (\<lambda>s. \<not> has_shell env s) ss))"
proof (induction ss arbitrary: st)
  case Nil
  then show ?case by (auto simp: give_def intro!: exI [of _ "[]"])
next
  case (Cons s ss)
  show ?case
  proof (cases "has_shell env s")
    case True
    with assms show ?thesis
      by (auto simp: probes_work_def has_shell_def handle_def probe_shell_cases)
  next
    case False
    with assms obtain e where e: "a_probe env s = Inl e" "not_found e"
      unfolding probes_work_def has_shell_def by (cases "a_probe env s") auto
    let ?st = "st\<lparr>calls := calls st @ [ProbeCreate]\<rparr>"
    have "try_shells env (s # ss) st = try_shells env ss ?st"
      using assms e by (simp add: probes_work_def handle_def probe_shell_cases)
    moreover from Cons.IH [of ?st] obtain cs where
      "try_shells env ss ?st = (Inr (case find (has_shell env) ss of None \<Rightarrow> '''' | Some s \<Rightarrow> s),
        st\<lparr>calls := calls st @ ProbeCreate # cs\<rparr>)"
      "sum_list (map balance cs) = int (length (takeWhile (\<lambda>s. \<not> has_shell env s) ss))"
      by auto
    ultimately show ?thesis
      using False by (intro exI [of _ "ProbeCreate # cs"]) simp
  qed
qed

text \<open>The shell that is used is the first of the candidates that the image has; every candidate
  that it does not have leaves a container behind.\<close>

theorem shell_probes_leak:
  assumes "probes_work env" and "shell_list st = Some ss"
  shows "\<exists>st'. detect_shell env st =
      (Inr (case find (has_shell env) (candidate_shells (shell st) ss) of None \<Rightarrow> '''' | Some s \<Rightarrow> s), st') \<and>
    left_behind st' = left_behind st +
      int (length (takeWhile (\<lambda>s. \<not> has_shell env s) (candidate_shells (shell st) ss)))"
proof -
  let ?ss = "candidate_shells (shell st) ss"
  from try_shells_result [OF assms(1), of ?ss "st\<lparr>shell_list := Some ?ss\<rparr>"] assms(2) show ?thesis
    by (auto simp: detect_shell_def Let_def left_behind_def)
qed

text \<open>A shell that the user asks for but that is among the default ones is not preferred: if an
  earlier default shell is in the image, that one is used.\<close>

theorem default_shell_preferred:
  assumes "probes_work env" and "shell_list st = Some (s # ss)" and "has_shell env s"
    and "shell st \<in> set ss"
  shows "fst (detect_shell env st) = Inr s"
proof -
  let ?ss = "candidate_shells (shell st) (s # ss)"
  have "?ss = s # ss" using assms(4) by (simp add: candidate_shells_def)
  with try_shells_result [OF assms(1), of ?ss "st\<lparr>shell_list := Some ?ss\<rparr>"] assms(2,3) show ?thesis
    by (auto simp: detect_shell_def Let_def)
qed

section \<open>The container of a run\<close>

text \<open>
  A daemon that removes what it is told to remove: killing may fail as it does for a container that
  has ended, a commit and a removal succeed.
\<close>

definition removal_works :: "'s environment \<Rightarrow> bool" where
  "removal_works env \<longleftrightarrow> (\<forall>e. a_kill env = Inl e \<longrightarrow> api_error e) \<and> a_commit env = Inr () \<and> a_remove env = Inr ()"

lemma if_api_error_docker:
  "if_api_error (docker c a) st =
     (case a of Inl e \<Rightarrow> (if api_error e then Inr () else Inl e, st)
              | Inr u \<Rightarrow> (Inr (), st\<lparr>calls := calls st @ [c]\<rparr>))"
  by (auto simp: if_api_error_def handle_def docker_def give_def raise_def split: sum.splits)

definition cleanup_calls :: "'s environment \<Rightarrow> tool \<Rightarrow> docker_call list" where
  "cleanup_calls env st =
     (if a_kill env = Inr () then [Kill] else []) @ (if create_image st then [Commit] else []) @ [Remove] @
     (if \<not> loaded_image st \<and> a_remove_image env = Inr () then [RemoveImage] else [])"

lemma tidy_up_calls:
  assumes "removal_works env"
  shows "snd (tidy_up env st) = st\<lparr>calls := calls st @ cleanup_calls env st\<rparr>"
proof -
  let ?st1 = "if a_kill env = Inr () then st\<lparr>calls := calls st @ [Kill]\<rparr> else st"
  let ?st2 = "if create_image st then ?st1\<lparr>calls := calls ?st1 @ [Commit]\<rparr> else ?st1"
  let ?st3 = "?st2\<lparr>calls := calls ?st2 @ [Remove]\<rparr>"
  note works = assms [unfolded removal_works_def]
  have k: "if_api_error (docker Kill (a_kill env)) st = (Inr (), ?st1)"
    using works by (cases "a_kill env") (auto simp: if_api_error_docker)
  have c: "(if create_image ?st1 then docker Commit (a_commit env) ?st1 else give () ?st1) = (Inr (), ?st2)"
    using works by (simp add: docker_def give_def)
  have r: "docker Remove (a_remove env) ?st2 = (Inr (), ?st3)"
    using works by (simp add: docker_def)
  have "tidy_up env st =
      (if \<not> loaded_image st then if_api_error (docker RemoveImage (a_remove_image env)) ?st3 else give () ?st3)"
    unfolding tidy_up_def remove_image_def and_then_run(1) [of "if_api_error (docker Kill (a_kill env))", OF k]
      and_then_run(1) [of "\<lambda>st. if create_image st then docker Commit (a_commit env) st else give () st", OF c]
      and_then_run(1) [of "docker Remove (a_remove env)", OF r] by simp
  then show ?thesis
    by (cases "a_remove_image env")
      (simp_all add: if_api_error_docker give_def cleanup_calls_def)
qed

lemma balance_cleanup: "sum_list (map balance (cleanup_calls env st)) = -1"
  by (simp add: cleanup_calls_def)

text \<open>The calls, the attributes and the host file system that a part of the run leaves alone.\<close>

lemma download_results_keeps [simp]: "calls (snd (download_results env log st)) = calls st"
  by (auto simp: download_results_def Let_def split: sum.splits prod.splits)

lemma execute_keeps [simp]:
  "calls (snd (execute env log st)) = calls st" "files (snd (execute env log st)) = files st"
  by (auto simp: execute_def split: prod.splits)

lemma run_body_cases:
  assumes "execute env log0 st = (r, st1)"
  shows "run_body env log0 ins st =
    (case r of
       Inl e \<Rightarrow> if e = KeyboardInterrupt then download_results env log0 st1 else (Inl e, st1)
     | Inr log1 \<Rightarrow>
         let log = log1\<lparr>in_files := in_files log1 @ ins\<rparr>
         in if exit_code log1 = 0
            then handle (download_results env log)
                   (\<lambda>e. if e = KeyboardInterrupt then download_results env log else raise e) st1
            else (Inr log, st1))"
  using assms by (simp add: run_body_def Let_def split: sum.splits)

lemma keeps_download: "keeps (\<lambda>st. calls st = c) (download_results env log)"
  by (simp add: keeps_def)

lemma run_body_keeps [simp]: "calls (snd (run_body env log ins st)) = calls st"
proof -
  obtain r st1 where e: "execute env log st = (r, st1)" by fastforce
  with execute_keeps(1) [of env log st] have c: "calls st1 = calls st" by simp
  have "keeps (\<lambda>s. calls s = calls st1) (handle (download_results env l)
      (\<lambda>e. if e = KeyboardInterrupt then download_results env l else raise e))" for l
    by (intro keeps_handle) (auto simp: keeps_download)
  with c show ?thesis
    by (simp add: run_body_cases [OF e] keeps_def Let_def split: sum.splits)
qed

lemma note_files_keeps [simp]:
  "calls (snd (note_files ups log st)) = calls st" "files (snd (note_files ups log st)) = files st"
  by (auto simp: note_files_def Let_def split: sum.splits)

lemma upload_to_balance:
  assumes "upload_to env ups st = (Inr ins, st1)"
  shows "left_behind st1 = left_behind st"
  using assms
  by (auto simp: upload_to_def left_behind_def docker_Inr give_def elim!: and_then_Inr
      split: sum.splits prod.splits option.splits)

lemma use_shell_balance:
  assumes "use_shell env st = (Inr u, st1)" and "probes_work env"
  shows "left_behind st1 = left_behind st +
    (if shell st = '''' then 0
     else int (length (takeWhile (\<lambda>s. \<not> has_shell env s) (candidate_shells (shell st) (the (shell_list st))))))"
proof (cases "shell st = '''' \<or> shell_list st = None")
  case True
  with assms show ?thesis
    by (auto simp: use_shell_def give_def detect_shell_def and_then_def Let_def split: if_splits)
next
  case False
  then obtain ss where ss: "shell_list st = Some ss" and ne: "shell st \<noteq> ''''" by auto
  let ?ss = "candidate_shells (shell st) ss"
  from try_shells_result [OF assms(2), of ?ss "st\<lparr>shell_list := Some ?ss\<rparr>"] obtain s cs where
    "detect_shell env st = (Inr s, st\<lparr>shell_list := Some ?ss, calls := calls st @ cs\<rparr>)"
    and "sum_list (map balance cs) = int (length (takeWhile (\<lambda>s. \<not> has_shell env s) ?ss))"
    using ss by (auto simp: detect_shell_def Let_def)
  with assms(1) ne ss show ?thesis
    by (auto simp: use_shell_def and_then_def Let_def left_behind_def split: if_splits)
qed

lemma prepare_Inr:
  assumes "prepare env args st = (Inr p, st1)"
  obtains ups log ins st0 cmd_args req st2 where "p = (ups, log, ins)" and "use_shell env st = (Inr (), st0)"
    and "st2 = st0\<lparr>calls := calls st0 @ [Create req]\<rparr>" and "upload_to env ups st2 = (Inr ins, st1)"
    and "req = container_request st0 cmd_args"
    and "log = new_command_log (name_of st0 # req_command req) (import_time env)"
  using assms unfolding prepare_def create_container_def fill_container_def Let_def
  by (auto elim!: and_then_Inr simp: docker_Inr split: sum.splits prod.splits)

section \<open>The life of a container\<close>

text \<open>
  The order in which the calls to the client may come for one container: it is made, filled at most
  once, killed if it still runs, committed if an image is wanted, and removed; nothing is done to it
  after that, and the image goes last.
\<close>

datatype phase = NoContainer | Made | Filled | Killed | Committed | Gone | ImageGone

inductive protocol :: "phase \<Rightarrow> docker_call \<Rightarrow> phase \<Rightarrow> bool" where
  make: "protocol NoContainer (Create r) Made"
| fill: "protocol Made (PutArchive ms) Filled"
| kill: "p \<in> {Made, Filled} \<Longrightarrow> protocol p Kill Killed"
| commit: "p \<in> {Made, Filled, Killed} \<Longrightarrow> protocol p Commit Committed"
| remove: "p \<in> {Made, Filled, Killed, Committed} \<Longrightarrow> protocol p Remove Gone"
| remove_image: "protocol Gone RemoveImage ImageGone"

inductive follows :: "phase \<Rightarrow> docker_call list \<Rightarrow> phase \<Rightarrow> bool" where
  stay: "follows p [] p"
| step: "protocol p c q \<Longrightarrow> follows q cs r \<Longrightarrow> follows p (c # cs) r"

declare follows.intros [intro]

inductive_cases from_gone: "protocol Gone c q"
inductive_simps follows_Nil [simp]: "follows p [] q"
inductive_simps follows_Cons [simp]: "follows p (c # cs) q"

lemma follows_append: "follows p cs q \<Longrightarrow> follows q ds r \<Longrightarrow> follows p (cs @ ds) r"
  by (induction rule: follows.induct) auto

text \<open>The protocol balances: one container from the start until it is gone.\<close>

lemma follows_balance:
  "follows p cs q \<Longrightarrow> sum_list (map balance cs) =
     (if q \<in> {Made, Filled, Killed, Committed} then 1 else 0) - (if p \<in> {Made, Filled, Killed, Committed} then 1 else 0)"
proof (induction rule: follows.induct)
  case (step p c q cs r)
  from step.hyps(1) step.IH show ?case by cases auto
qed simp

lemma cleanup_follows:
  assumes "p \<in> {Made, Filled}"
  shows "\<exists>q \<in> {Gone, ImageGone}. follows p (cleanup_calls env st) q"
proof -
  let ?image = "if \<not> loaded_image st \<and> a_remove_image env = Inr () then [RemoveImage] else []"
  obtain k where k: "follows p (if a_kill env = Inr () then [Kill] else []) k" "k \<in> {Made, Filled, Killed}"
    using assms by (cases "a_kill env = Inr ()") (auto intro: protocol.intros)
  obtain c where c: "follows k (if create_image st then [Commit] else []) c" "c \<in> {Made, Filled, Killed, Committed}"
    using k(2) by (cases "create_image st") (auto intro: protocol.intros)
  have r: "follows c [Remove] Gone" using c(2) by (auto intro: protocol.intros)
  have i: "\<exists>q \<in> {Gone, ImageGone}. follows Gone ?image q" by (auto intro: protocol.intros)
  then obtain q where "q \<in> {Gone, ImageGone}" and "follows Gone ?image q" by blast
  with follows_append [OF k(1) follows_append [OF c(1) follows_append [OF r this(2)]]] show ?thesis
    unfolding cleanup_calls_def by blast
qed

lemma upload_to_follows:
  assumes "upload_to env ups st = (Inr ins, st1)"
  shows "\<exists>cs. \<exists>q \<in> {Made, Filled}. calls st1 = calls st @ cs \<and> follows Made cs q"
  using assms
  by (auto simp: upload_to_def docker_Inr give_def protocol.fill elim!: and_then_Inr
      split: sum.splits prod.splits option.splits)

lemma run_tool_calls:
  assumes "prepare env args st = (Inr (ups, log, ins), st1)" and "removal_works env"
  shows "calls (snd (run_tool env args st)) = calls st1 @ cleanup_calls env (snd (run_body env log ins st1))"
proof -
  let ?m = "finally_do (run_body env log ins) (tidy_up env)"
  have "snd (?m st1) = (snd (run_body env log ins st1))
      \<lparr>calls := calls st1 @ cleanup_calls env (snd (run_body env log ins st1))\<rparr>"
    by (simp add: finally_do_snd tidy_up_calls [OF assms(2)])
  then have "calls (snd (and_then ?m (note_files ups) st1)) =
      calls st1 @ cleanup_calls env (snd (run_body env log ins st1))"
    by (auto simp: and_then_snd split: prod.splits sum.splits)
  then show ?thesis using assms(1) by (simp add: run_tool_def and_then_run)
qed

text \<open>C6: The calls of a run follow the life of one container to its end: once the files are in it,
  the container is gone when the run ends, however the command and the download end.\<close>

theorem run_follows_protocol:
  assumes "prepare env args st = (Inr p, st1)" and "removal_works env" and "shell st = ''''"
  shows "\<exists>cs. \<exists>q \<in> {Gone, ImageGone}. calls (snd (run_tool env args st)) = calls st @ cs \<and> follows NoContainer cs q"
proof -
  from assms(1) obtain ups log ins st0 cmd_args req st2 where p: "p = (ups, log, ins)"
    and shell: "use_shell env st = (Inr (), st0)" and made: "st2 = st0\<lparr>calls := calls st0 @ [Create req]\<rparr>"
    and up: "upload_to env ups st2 = (Inr ins, st1)" by (rule prepare_Inr)
  from shell assms(3) have "st0 = st" by (simp add: use_shell_def)
  with upload_to_follows [OF up] made obtain cs q where
    cs: "calls st1 = calls st @ Create req # cs" "q \<in> {Made, Filled}" "follows Made cs q" by auto
  obtain r where "r \<in> {Gone, ImageGone}" and "follows q (cleanup_calls env (snd (run_body env log ins st1))) r"
    using cleanup_follows [OF cs(2)] by blast
  with follows_append [OF cs(3) this(2)] have
    "follows NoContainer (Create req # cs @ cleanup_calls env (snd (run_body env log ins st1))) r"
    by (auto intro: protocol.intros)
  with \<open>r \<in> _\<close> cs(1) run_tool_calls [OF assms(1) [unfolded p] assms(2)] show ?thesis by auto
qed

text \<open>C5: Once the container is made and the files are in it, the run removes it again, however the
  command and the download end: what stays behind are the containers of shells not found.\<close>

theorem run_removes_container:
  assumes "prepare env args st = (Inr p, st1)" and "removal_works env" and "probes_work env"
  shows "left_behind (snd (run_tool env args st)) = left_behind st +
    (if shell st = '''' then 0
     else int (length (takeWhile (\<lambda>s. \<not> has_shell env s) (candidate_shells (shell st) (the (shell_list st))))))"
proof -
  from assms(1) obtain ups log ins st0 cmd_args req st2 where p: "p = (ups, log, ins)"
    and shell: "use_shell env st = (Inr (), st0)" and made: "st2 = st0\<lparr>calls := calls st0 @ [Create req]\<rparr>"
    and up: "upload_to env ups st2 = (Inr ins, st1)" by (rule prepare_Inr)
  have "left_behind st1 = left_behind st0 + 1"
    using upload_to_balance [OF up] made by (simp add: left_behind_def)
  moreover have "left_behind (snd (run_tool env args st)) = left_behind st1 - 1"
    using run_tool_calls [OF assms(1) [unfolded p] assms(2)] by (simp add: left_behind_def balance_cleanup)
  ultimately show ?thesis using use_shell_balance [OF shell assms(3)] by simp
qed

section \<open>The files of the host\<close>

text \<open>The part of the state that nothing but the command and the download changes.\<close>

abbreviation download_settings ::
  "tool \<Rightarrow> host \<times> file_matcher list option \<times> string option \<times> bool \<times> bool \<times> bool \<times> termios" where
  "download_settings st \<equiv>
     (files st, output_filters st, output_tar st, no_defaults st, is_tty st, read_stdin st, terminal st)"

abbreviation files_are ::
  "host \<times> file_matcher list option \<times> string option \<times> bool \<times> bool \<times> bool \<times> termios \<Rightarrow> tool \<Rightarrow> bool" where
  "files_are h \<equiv> (\<lambda>st. download_settings st = h)"

lemma docker_files [simp, intro]: "keeps (files_are h) (docker c a)"
  by (auto simp: keeps_def docker_def split: sum.splits)

lemma detect_shell_files: "keeps (files_are h) (detect_shell env)"
proof -
  have "keeps (files_are h) (try_shells env ss)" for ss
    by (induction ss) (auto simp: probe_shell_def intro!: keeps_and_then keeps_handle)
  then show ?thesis
    by (auto simp: keeps_def detect_shell_def Let_def give_def split: option.splits)
qed

lemma use_shell_files: "keeps (files_are h) (use_shell env)"
proof (rule keepsI)
  fix st assume "files_are h st"
  with keeps_apply [OF detect_shell_files [of h env], of st] show "files_are h (snd (use_shell env st))"
    by (cases "detect_shell env st"; cases "fst (detect_shell env st)")
      (auto simp: use_shell_def give_def and_then_run Let_def)
qed

lemma upload_to_files: "keeps (files_are h) (upload_to env ups)"
proof (rule keepsI)
  fix st assume st: "files_are h st"
  have put: "keeps (files_are h) (and_then (case a of None \<Rightarrow> give () | Some ms \<Rightarrow> docker (PutArchive ms) (a_put env))
      (\<lambda>_. give x))" for a and x :: "file_log list"
    by (cases a) (auto intro!: keeps_and_then)
  have "files_are h (st\<lparr>stats_of := s\<rparr>)" for s using st by simp
  from keeps_apply [OF put this] show "files_are h (snd (upload_to env ups st))"
    using st unfolding upload_to_def by (auto split: sum.split prod.split)
qed

lemma fill_container_files: "keeps (files_are h) (fill_container env ups c)"
proof (rule keepsI)
  fix st assume st: "files_are h st"
  have "keeps (files_are h) (and_then (docker x a) (\<lambda>_. and_then (upload_to env ups) (\<lambda>ins. give (l, ins))))"
    for x a l by (intro keeps_and_then docker_files upload_to_files keeps_simple)
  from keeps_apply [OF this st] show "files_are h (snd (fill_container env ups c st))"
    by (simp add: fill_container_def Let_def)
qed

lemma prepare_files: "keeps (files_are h) (prepare env args)"
proof (rule keepsI)
  fix st assume st: "files_are h st"
  have "keeps (files_are h) (and_then (create_container env ups c) (\<lambda>(log, ins). give (ups, log, ins)))" for ups c
    unfolding create_container_def
    by (intro keeps_and_then use_shell_files fill_container_files) (auto split: prod.splits)
  from keeps_apply [OF this st] st show "files_are h (snd (prepare env args st))"
    by (simp add: prepare_def split: sum.splits prod.splits)
qed

lemma tidy_up_files: "keeps (files_are h) (tidy_up env)"
proof -
  have api: "keeps (files_are h) (if_api_error (docker c a))" for c a
    unfolding if_api_error_def by (intro keeps_handle) auto
  have commit: "keeps (files_are h) (\<lambda>st. if create_image st then docker Commit (a_commit env) st else give () st)"
    using docker_files [of h Commit "a_commit env"] by (auto simp: keeps_def give_def)
  have last: "keeps (files_are h) (\<lambda>st. if \<not> loaded_image st then if_api_error (docker RemoveImage (a_remove_image env)) st
      else give () st)"
    using api [of RemoveImage "a_remove_image env"] by (auto simp: keeps_def give_def)
  show ?thesis
    unfolding tidy_up_def remove_image_def by (intro keeps_and_then api commit docker_files last)
qed

text \<open>What a run does to the files and to the terminal: all of it happens in its body.\<close>

lemma run_tool_prepared:
  assumes "prepare env args st = (Inr (ups, log, ins), st1)"
  shows "download_settings (snd (run_tool env args st)) = download_settings (snd (run_body env log ins st1))"
proof -
  let ?b = "snd (run_body env log ins st1)" and ?m = "finally_do (run_body env log ins) (tidy_up env)"
  have "files_are (download_settings ?b) (snd (?m st1))"
    using keeps_apply [OF tidy_up_files [of "download_settings ?b" env], of ?b] by (simp add: finally_do_snd)
  moreover have "keeps (files_are h) (note_files ups l)" for h l
    by (auto simp: keeps_def note_files_def Let_def split: sum.splits)
  ultimately have "files_are (download_settings ?b) (snd (and_then ?m (note_files ups) st1))"
    by (cases "?m st1") (auto simp: and_then_snd keeps_def split: sum.splits)
  with assms show ?thesis by (simp add: run_tool_def and_then_run)
qed

lemma run_tool_files:
  assumes "run_tool env args st = (r, st')"
  shows "files st' = files st \<or>
    (\<exists>ups log ins st1. prepare env args st = (Inr (ups, log, ins), st1) \<and> files st1 = files st \<and>
       output_filters st1 = output_filters st \<and> output_tar st1 = output_tar st \<and> files st' = files (snd (run_body env log ins st1)))"
proof (cases "prepare env args st")
  case (Pair p st1)
  from keepsD [OF prepare_files [of "download_settings st"] _ Pair]
  have st1: "files st1 = files st" "output_filters st1 = output_filters st" "output_tar st1 = output_tar st" by simp_all
  show ?thesis
  proof (cases p)
    case (Inl e)
    with Pair assms st1 show ?thesis by (simp add: run_tool_def and_then_run)
  next
    case (Inr q)
    obtain ups log ins where q: "q = (ups, log, ins)" by (cases q) auto
    with run_tool_prepared [of env args st ups log ins st1] Pair Inr assms
    have "files st' = files (snd (run_body env log ins st1))" by simp
    with Pair Inr q st1 show ?thesis by blast
  qed
qed

section \<open>How a run ends\<close>

lemma exec_failed:
  assumes "container_exec sh rd acc tty stdin buf wr ok attached started result polls log t = (Inr (log', s), t')"
    and "exit_code log' \<noteq> 0"
  shows "out_files log' = out_files log"
  using assms
  by (auto simp: container_exec_def enter_raw_def start_failed_def finish_log_def Let_def bindr_eq_Inr split: if_splits sum.splits)

lemma download_results_Inr:
  assumes "download_results env log st = (Inr log', st')"
  shows "exit_code log' = exit_code log" and "in_files log' = in_files log"
  using assms by (auto simp: download_results_def Let_def bindr_eq_Inr split: prod.splits)

lemma download_results_log:
  "download_results env log st = (Inr log', st') \<Longrightarrow> exit_code log' = exit_code log \<and> in_files log' = in_files log"
  by (simp add: download_results_Inr)

lemma execute_Inr:
  assumes "execute env log0 st = (Inr log1, st1)"
  shows "st1 = st\<lparr>terminal := terminal st1\<rparr>" and "exit_code log1 \<noteq> 0 \<Longrightarrow> out_files log1 = out_files log0"
  using assms by (auto simp: execute_def bindr_eq_Inr dest: exec_failed split: prod.splits)

lemma run_body_terminal:
  "terminal (snd (run_body env log ins st)) =
     (if is_tty st \<and> read_stdin st \<and> tty_ok env \<and> (isl (a_attach env) \<or> isl (a_start env))
      then set_raw (terminal st) else terminal st)"
proof -
  obtain r st1 where e: "execute env log st = (r, st1)" by fastforce
  have "terminal (snd (execute env log st)) =
      (if is_tty st \<and> read_stdin st \<and> tty_ok env \<and> (isl (a_attach env) \<or> isl (a_start env))
       then set_raw (terminal st) else terminal st)"
    by (simp add: execute_def container_exec_terminal split: prod.split)
      (metis container_exec_terminal snd_conv)
  moreover have down: "keeps (\<lambda>s. terminal s = terminal st1) (download_results env l)" for l
    by (auto simp: keeps_def download_results_def Let_def split: prod.splits)
  have again: "keeps (\<lambda>s. terminal s = terminal st1)
      (handle (download_results env l) (\<lambda>e. if e = KeyboardInterrupt then download_results env l else raise e))" for l
    by (intro keeps_handle down) (simp add: down)
  have "terminal (snd (run_body env log ins st)) = terminal st1"
    using keeps_apply [OF down, of st1] keeps_apply [OF again, of st1]
    by (simp add: run_body_cases [OF e] Let_def split: sum.split)
  ultimately show ?thesis using e by simp
qed

lemma run_body_failed:
  assumes "run_body env log0 ins st = (Inr log, st')" and "exit_code log \<noteq> 0" and "exit_code log0 = 0"
  shows "files st' = files st \<and> out_files log = out_files log0"
proof -
  obtain r st1 where e: "execute env log0 st = (r, st1)" by fastforce
  with execute_keeps(2) [of env log0 st] have st1: "files st1 = files st" by simp
  show ?thesis
  proof (cases r)
    case (Inl x)
    with assms show ?thesis
      by (auto simp: run_body_cases [OF e] dest!: download_results_Inr(1) split: if_splits)
  next
    case (Inr log1)
    show ?thesis
    proof (cases "exit_code log1 = 0")
      case True
      with Inr assms have "exit_code log = 0"
        by (auto simp: run_body_cases [OF e] Let_def elim!: handle_Inr dest!: download_results_Inr(1) split: if_splits)
      with assms(2) show ?thesis by simp
    next
      case False
      with Inr assms(1) have "st' = st1" "log = log1\<lparr>in_files := in_files log1 @ ins\<rparr>"
        by (simp_all add: run_body_cases [OF e] Let_def)
      with False st1 execute_Inr(2) [of env log0 st log1 st1] e Inr show ?thesis by simp
    qed
  qed
qed

lemma run_tool_body:
  assumes "run_tool env args st = (Inr log, st')"
  obtains ups log0 ins st1 st2 where "prepare env args st = (Inr (ups, log0, ins), st1)"
    and "run_body env log0 ins st1 = (Inr log, st2)" and "files_are (download_settings st) st1" and "files st' = files st2"
proof -
  from assms obtain q st1 where p: "prepare env args st = (Inr q, st1)"
    and rest: "(case q of (ups, log0, ins) \<Rightarrow> and_then (finally_do (run_body env log0 ins) (tidy_up env))
      (note_files ups)) st1 = (Inr log, st')"
    unfolding run_tool_def by (rule and_then_Inr)
  obtain ups log0 ins where q: "q = (ups, log0, ins)" by (cases q) auto
  from rest q obtain log' st3 where f: "finally_do (run_body env log0 ins) (tidy_up env) st1 = (Inr log', st3)"
    and n: "note_files ups log' st3 = (Inr log, st')" by (auto elim: and_then_Inr)
  from f obtain st2 where b: "run_body env log0 ins st1 = (Inr log', st2)" and t: "tidy_up env st2 = (Inr (), st3)"
    by (rule finally_do_Inr)
  from n have "log = log'" by (auto simp: note_files_def Let_def split: sum.splits)
  moreover have "files st' = files st3" using note_files_keeps(2) [of ups log' st3] n by simp
  moreover have "files st3 = files st2" using keepsD [OF tidy_up_files _ t, of "download_settings st2"] by simp
  moreover have "files_are (download_settings st) st1" using keepsD [OF prepare_files _ p, of "download_settings st"] by blast
  ultimately show ?thesis using that p q b by simp
qed

lemma run_tool_Inr:
  assumes "run_tool env args st = (Inr log, st')"
  obtains ups log0 ins st1 st2 where "prepare env args st = (Inr (ups, log0, ins), st1)"
    and "run_body env log0 ins st1 = (Inr log, st2)"
  using assms by (rule run_tool_body) (rule that)

lemma prepare_log:
  assumes "prepare env args st = (Inr (ups, log0, ins), st1)"
  shows "exit_code log0 = 0 \<and> out_files log0 = [] \<and> in_files log0 = []"
  using assms by (rule prepare_Inr) (simp add: new_command_log_def)

lemma run_tool_failed:
  assumes "run_tool env args st = (Inr log, st')" and "exit_code log \<noteq> 0"
  shows "files st' = files st \<and> out_files log = []"
proof -
  from assms(1) obtain ups log0 ins st1 st2 where p: "prepare env args st = (Inr (ups, log0, ins), st1)"
    and b: "run_body env log0 ins st1 = (Inr log, st2)" by (rule run_tool_Inr)
  from prepare_log [OF p] run_body_failed [OF b assms(2)] have "files st2 = files st1" "out_files log = []" by auto
  with run_tool_files [OF assms(1)] p b show ?thesis by auto
qed

text \<open>A command that fails brings nothing back: no file of the host changes and the log has no
  output file, whatever the container holds.\<close>

theorem failed_command_downloads_nothing:
  assumes "run_tool env args st = (Inr log, st')" and "exit_code log \<noteq> 0"
  shows "files st' = files st \<and> out_files log = []"
  using assms by (rule run_tool_failed)

lemma download_results_stays:
  assumes "safe_diff (a_container env)"
  shows "keeps (\<lambda>st :: tool. stays x h (files st) \<and> output_tar st = x \<and> or_empty (output_filters st) = parse_matchers ms)
    (download_results env log)"
proof (rule keepsI)
  fix st :: tool assume st: "stays x h (files st) \<and> output_tar st = x \<and> or_empty (output_filters st) = parse_matchers ms"
  let ?st' = "snd (download_results env log st)"
  obtain paths implicit where "files ?st' =
      fs (snd (download_files (sha env) (clock env) (zone env) (stats_of st) (a_container env) (tar_text env)
        (or_empty (output_filters st)) (no_defaults st) paths implicit (output_tar st) (files st)))"
    and "output_filters ?st' = output_filters st" "output_tar ?st' = output_tar st"
    by (simp add: download_results_def Let_def case_prod_unfold)
  with st download_files_stays [OF assms, of x "files st"] stays_trans
  show "stays x h (files ?st') \<and> output_tar ?st' = x \<and> or_empty (output_filters ?st') = parse_matchers ms"
    by metis
qed

lemma execute_filters [simp]:
  "output_filters (snd (execute env log st)) = output_filters st"
  "output_tar (snd (execute env log st)) = output_tar st"
  by (auto simp: execute_def split: prod.splits)

lemma run_body_stays:
  assumes "safe_diff (a_container env)" and "or_empty (output_filters st) = parse_matchers ms"
  shows "stays (output_tar st) (files st) (files (snd (run_body env log0 ins st)))"
proof -
  let ?P = "\<lambda>s :: tool. stays (output_tar st) (files st) (files s) \<and> output_tar s = output_tar st \<and> or_empty (output_filters s) = parse_matchers ms"
  obtain r st1 where e: "execute env log0 st = (r, st1)" by fastforce
  from e execute_keeps(2) [of env log0 st] execute_filters(1) [of env log0 st] execute_filters(2) [of env log0 st] assms(2)
  have st1: "?P st1" by simp
  note down = download_results_stays [OF assms(1)]
  have again: "keeps ?P (handle (download_results env l) (\<lambda>e. if e = KeyboardInterrupt then download_results env l else raise e))"
    for l by (intro keeps_handle down) (simp add: down)
  show ?thesis
    using keeps_apply [OF down st1] keeps_apply [OF again st1] st1
    by (simp add: run_body_cases [OF e] Let_def split: sum.split)
qed

lemma run_tool_stays:
  assumes "safe_diff (a_container env)" and "or_empty (output_filters st) = parse_matchers ms"
    and "run_tool env args st = (r, st')"
  shows "stays (output_tar st) (files st) (files st')"
  using run_tool_files [OF assms(3)] run_body_stays [OF assms(1), of _ ms] assms(2) by auto metis

text \<open>However the run ends, nothing outside the working directory of the host has changed, if
  the container reports no changed path with \<open>..\<close> below its working directory; with \<^verbatim>\<open>--out\<close> the archive
  is the one file that has.\<close>

theorem run_stays_inside:
  assumes "safe_diff (a_container env)" and "or_empty (output_filters st) = parse_matchers ms"
    and "run_tool env args st = (r, st')"
  shows "cwd (files st') = cwd (files st) \<and>
    (case archive_file (output_tar st) of
       None \<Rightarrow> prefix (cwd (files st)) l \<or> node_at (files st') l = node_at (files st) l
     | Some f \<Rightarrow> locate (files st) f = Inr l \<or> node_at (files st') l = node_at (files st) l)"
  using run_tool_stays [OF assms] by (auto simp: stays_def keeps_outside_def writes_only_def split: option.splits)

text \<open>
  C38: Ctrl+C while the command runs: the results are downloaded all the same, just as after a command
  that has succeeded, and the files that the download brings are on the host however the run goes
  on; if it returns, its log lists them, says that the command has succeeded and names no input file.
\<close>

theorem interrupted_run_logged_as_success:
  assumes "prepare env args st = (Inr (ups, log0, ins), st1)"
    and "execute env log0 st1 = (Inl KeyboardInterrupt, st2)"
    and "run_tool env args st = (res, st')"
  defines "explicit \<equiv> present (explicit_output st1)"
  defines "down \<equiv> download_files (sha env) (clock env) (zone env) (stats_of st1) (a_container env) (tar_text env)
    (or_empty (output_filters st)) (no_defaults st) (if explicit then or_empty (explicit_output st1) else mkdirs st1)
    (\<not> explicit \<and> implicit_output st1) (output_tar st) (files st)"
  shows "files st' = fs (snd down) \<and>
    (\<forall>log. res = Inr log \<longrightarrow> fst down = Inr () \<and> out_files log = out_log (snd down) \<and>
       exit_code log = 0 \<and> in_files log = [])"
proof -
  have st2: "st2 = st1\<lparr>terminal := terminal st2\<rparr>" using assms(2) by (auto simp: execute_def split: prod.splits)
  have "files_are (download_settings st) st1" using keepsD [OF prepare_files _ assms(1), of "download_settings st"] by blast
  then have d: "download_results env log0 st2 =
      (bindr (fst down) (\<lambda>_. Inr (log0\<lparr>out_files := out_files log0 @ out_log (snd down)\<rparr>)),
       st2\<lparr>files := fs (snd down), saved := (if written (snd down) = None then saved st2 else written (snd down))\<rparr>)"
    by (subst (1 2 3) st2) (simp add: down_def explicit_def download_results_def Let_def split: prod.splits)
  have b: "run_body env log0 ins st1 = download_results env log0 st2"
    using assms(2) by (simp add: run_body_cases)
  have "files st' = fs (snd down)"
    using run_tool_prepared [OF assms(1)] assms(3) b d by simp
  moreover have "fst down = Inr () \<and> out_files log = out_log (snd down) \<and> exit_code log = 0 \<and> in_files log = []"
    if "res = Inr log" for log
  proof -
    from assms(3) [unfolded that] assms(1) obtain st3 where "run_body env log0 ins st1 = (Inr log, st3)"
      by (elim run_tool_Inr) simp
    with b d have "bindr (fst down) (\<lambda>_. Inr (log0\<lparr>out_files := out_files log0 @ out_log (snd down)\<rparr>)) = Inr log"
      by simp
    with prepare_log [OF assms(1)] show ?thesis by (auto elim!: bindrE)
  qed
  ultimately show ?thesis by blast
qed

text \<open>
  C37: A run that ends leaves the terminal as it was, also after an interrupt, an error or a failed download,
  except when the terminal was put into raw mode and then the container could not be attached or
  not be started: then it stays in raw mode.
\<close>

theorem terminal_restored_unless_start_fails:
  "terminal (snd (run_tool env args st)) =
     (if (\<exists>p st1. prepare env args st = (Inr p, st1)) \<and> is_tty st \<and> read_stdin st \<and> tty_ok env \<and>
         (isl (a_attach env) \<or> isl (a_start env))
      then set_raw (terminal st) else terminal st)"
proof (cases "prepare env args st")
  case (Pair p st1)
  from keepsD [OF prepare_files [of "download_settings st"] _ Pair] have
    st1: "terminal st1 = terminal st" "is_tty st1 = is_tty st" "read_stdin st1 = read_stdin st" by simp_all
  show ?thesis
  proof (cases p)
    case (Inl e)
    with Pair st1 show ?thesis by (simp add: run_tool_def and_then_run)
  next
    case (Inr q)
    obtain ups log ins where q: "q = (ups, log, ins)" by (cases q) auto
    with run_tool_prepared [of env args st ups log ins st1] Pair Inr run_body_terminal [of env log ins st1] st1
    show ?thesis by auto
  qed
qed

text \<open>A run that is not interrupted and whose command succeeds logs, after the standard input, every
  file that was uploaded.\<close>

theorem run_logs_uploads:
  assumes "prepare env args st = (Inr (ups, log0, ins), st1)"
    and "execute env log0 st1 = (Inr log1, st2)"
    and "run_tool env args st = (Inr log, st')"
  shows "exit_code log = exit_code log1 \<and> in_files log = in_files log1 @ ins"
proof -
  from assms(3) assms(1) obtain st3 where "run_body env log0 ins st1 = (Inr log, st3)"
    by (elim run_tool_Inr) simp
  then show ?thesis
    by (auto simp: run_body_cases [OF assms(2)] Let_def raise_def elim!: handle_Inr
        dest!: download_results_log split: if_splits)
qed

text \<open>When a file cannot be put into the archive, the container that was made for it is left
  behind: the error comes before the block that removes the container.\<close>

theorem upload_error_leaks_container:
  assumes "resolver_of env args st = Inr r" and "show_options st = Inr ()"
    and "resolve_upload_files (files st) r [] = (cmd_args, ups)" and "shell st = ''''"
    and "a_create env (container_request st cmd_args) = Inr ()"
    and "upload (sha env) (clock env) (zone env) (files st) (read_tar env) (input_tar st) ups
      \<lparr>members = [], dirs = {}, upload_stats = stats_of st, uploaded_files = [], tick = 0\<rparr> = Inl e"
  shows "\<exists>st'. run_tool env args st = (Inl e, st') \<and> left_behind st' = left_behind st + 1"
proof -
  let ?st = "st\<lparr>calls := calls st @ [Create (container_request st cmd_args)]\<rparr>"
  have "upload_to env ups ?st = (Inl e, ?st)" using assms(6) by (simp add: upload_to_def)
  moreover have "docker (Create (container_request st cmd_args)) (a_create env (container_request st cmd_args)) st =
      (Inr (), ?st)" using assms(5) by (simp add: docker_def)
  ultimately have "create_container env ups cmd_args st = (Inl e, ?st)"
    using assms(2,4) by (simp add: create_container_def use_shell_def fill_container_def Let_def and_then_def give_def ask_def)
  then have "run_tool env args st = (Inl e, ?st)"
    using assms(1,3) by (simp add: run_tool_def prepare_def and_then_def)
  then show ?thesis by (simp add: left_behind_def)
qed

section \<open>Examples\<close>

text \<open>A tool that reads \<open>d/f\<close> and a daemon whose container writes to its two outputs and changes \<open>d/f\<close>.\<close>

definition demo_env :: "bytes list \<Rightarrow> poll list \<Rightarrow> int \<Rightarrow> bytes list environment" where
  "demo_env chunks polls code =
     \<lparr>stack_depth = 9, sha = decode_text, clock = (\<lambda>k. 9), zone = (\<lambda>t. DateTime 1 1 1 0 0 0 0),
      read_tar = (\<lambda>f. Inl OSError), tar_text = demo_text, import_time = DateTime 1 1 1 0 0 0 0, recv = socket_read,
      accepts = length, tty_ok = True, a_probe_create = Inr (),
      a_probe = (\<lambda>s. if s = ''/bin/sh'' then Inr () else Inl DockerNotFound), a_probe_remove = Inr (),
      a_create = (\<lambda>r. Inr ()), a_put = Inr (), a_start = Inr (),
      a_wait = Inr \<lparr>status_code = Some code, wait_error = ErrorNull\<rparr>, a_attach = Inr chunks, a_polls = polls,
      a_container = demo_container, a_kill = Inl DockerAPIError, a_commit = Inr (), a_remove = Inr (),
      a_remove_image = Inr (), image_tags = [''busybox:latest''], image_created = Some ''2020-01-01T00:00:00Z'',
      parse_file_time = (\<lambda>s. Inr (DateTime 2020 1 1 0 0 0 0)), format_time = (\<lambda>t. Inr ''2020-01-01'')\<rparr>"

definition tool_host :: host where
  "tool_host = \<lparr>cwd = [''h''], tree = [([''h''], DirNode 0), ([''h'', ''d''], DirNode 0),
     ([''h'', ''d'', ''f''], FileNode [4] 0), ([''h'', ''pipe''], OtherNode 0)]\<rparr>"

definition demo_tool :: "string \<Rightarrow> tool" where
  "demo_tool s =
     \<lparr>name_of = ''busybox'', image_entrypoint = None, image_cmd = Some [''sh''],
      shell_list = Some [''/bin/bash'', ''/bin/sh''], loaded_image = True, input_tar = None, input_filters = None,
      output_tar = None, mkdirs = [], implicit_output = True, explicit_output = None, stats_of = [],
      output_filters = None, no_defaults = False, create_image = False, entrypoint = None,
      network_mode = None, user = None, cap_add = None, cap_drop = None, runtime = None, is_tty = False,
      read_stdin = False, shell = s, upload_files = [], download_list = [], buffer_output = False,
      files = tool_host, saved = None, terminal = demo_terminal, calls = []\<rparr>"

abbreviation hello :: "bytes list" where
  "hello \<equiv> [frame 1 [104, 105]]"

abbreviation two_polls :: "poll list" where
  "two_polls \<equiv> [Ready [SocketReady], Ready [SocketReady]]"

definition demo_run :: "poll list \<Rightarrow> int \<Rightarrow> string \<Rightarrow> command_log result \<times> tool" where
  "demo_run polls code arg = run_tool (demo_env hello polls code) [''cat'', arg] (demo_tool '''')"

definition demo_prepared :: "poll list \<Rightarrow> int \<Rightarrow> ((ppath, string) dict \<times> command_log \<times> file_log list) result \<times> tool" where
  "demo_prepared polls code = prepare (demo_env hello polls code) [''cat'', ''d/f''] (demo_tool '''')"

lemma demo_runs:
  "demo_run two_polls 0 ''d/f'' = (Inr (projr (fst (demo_run two_polls 0 ''d/f''))), snd (demo_run two_polls 0 ''d/f''))"
  "demo_run two_polls 3 ''d/f'' = (Inr (projr (fst (demo_run two_polls 3 ''d/f''))), snd (demo_run two_polls 3 ''d/f''))"
  "demo_run [Interrupt] 0 ''d/f'' = (Inr (projr (fst (demo_run [Interrupt] 0 ''d/f''))), snd (demo_run [Interrupt] 0 ''d/f''))"
  by code_simp+

lemma demo_prepares:
  "demo_prepared two_polls 0 = (Inr (projr (fst (demo_prepared two_polls 0))), snd (demo_prepared two_polls 0))"
  "demo_prepared [Interrupt] 0 = (Inr (projr (fst (demo_prepared [Interrupt] 0))), snd (demo_prepared [Interrupt] 0))"
  by code_simp+

lemma demo_daemon: "probes_work (demo_env c polls k)" "removal_works (demo_env c polls k)"
  by (auto simp: probes_work_def removal_works_def demo_env_def not_found_def api_error_def)

theorem shell_probes_leak_witness:
  "\<exists>st'. detect_shell (demo_env hello two_polls 0) (demo_tool ''/bin/zsh'') = (Inr ''/bin/sh'', st') \<and>
    left_behind st' = 2"
proof -
  have l: "shell_list (demo_tool ''/bin/zsh'') = Some [''/bin/bash'', ''/bin/sh'']" by (simp add: demo_tool_def)
  have c: "candidate_shells (shell (demo_tool ''/bin/zsh'')) [''/bin/bash'', ''/bin/sh''] =
      [''/bin/zsh'', ''/bin/bash'', ''/bin/sh'']" by code_simp
  have h: "has_shell (demo_env c p k) = (\<lambda>s. s = ''/bin/sh'')" for c p k
    by (simp add: has_shell_def demo_env_def fun_eq_iff)
  have "left_behind (demo_tool ''/bin/zsh'') = 0" by code_simp
  with shell_probes_leak [OF demo_daemon(1) l, of hello two_polls 0] show ?thesis
    by (simp add: c h)
qed

theorem default_shell_preferred_witness:
  "fst (detect_shell (demo_env hello two_polls 0)
     ((demo_tool ''/bin/ash'')\<lparr>shell_list := Some [''/bin/sh'', ''/bin/ash'']\<rparr>)) = Inr ''/bin/sh''"
proof (rule default_shell_preferred [OF demo_daemon(1)])
  show "has_shell (demo_env hello two_polls 0) ''/bin/sh''"
    by (simp add: has_shell_def demo_env_def)
  show "shell ((demo_tool ''/bin/ash'')\<lparr>shell_list := Some [''/bin/sh'', ''/bin/ash'']\<rparr>) \<in> set [''/bin/ash'']"
    by code_simp
qed simp

theorem run_follows_protocol_witness:
  "\<exists>cs. calls (snd (demo_run two_polls 3 ''d/f'')) = cs \<and> follows NoContainer cs Gone"
proof -
  have p: "prepare (demo_env hello two_polls 3) [''cat'', ''d/f''] (demo_tool '''') =
      (Inr (projr (fst (demo_prepared two_polls 3))), snd (demo_prepared two_polls 3))" by code_simp
  have empty: "calls (demo_tool '''') = []" "shell (demo_tool '''') = ''''" by code_simp+
  have last: "last (calls (snd (demo_run two_polls 3 ''d/f''))) = Remove" by code_simp
  from run_follows_protocol [OF p demo_daemon(2) empty(2)] obtain cs q where
    "calls (snd (demo_run two_polls 3 ''d/f'')) = cs" "q \<in> {Gone, ImageGone}" "follows NoContainer cs q"
    by (auto simp: demo_run_def empty)
  moreover have "q \<noteq> ImageGone" if "follows NoContainer cs q" "last cs = Remove" for cs q
  proof -
    have "last cs = RemoveImage \<or> cs = [] \<and> p = ImageGone" if "follows p cs ImageGone" for p
      using that
    proof (induction p cs "ImageGone" rule: follows.induct)
      case (step p c q cs)
      then show ?case by (auto elim: protocol.cases)
    qed simp
    with that show ?thesis by auto
  qed
  ultimately show ?thesis using last by blast
qed

theorem run_removes_container_witness:
  "left_behind (snd (demo_run two_polls 3 ''d/f'')) = 0"
proof -
  have p: "prepare (demo_env hello two_polls 3) [''cat'', ''d/f''] (demo_tool '''') =
      (Inr (projr (fst (demo_prepared two_polls 3))), snd (demo_prepared two_polls 3))" by code_simp
  have "left_behind (demo_tool '''') = 0" "shell (demo_tool '''') = ''''" by code_simp+
  with run_removes_container [OF p demo_daemon(2,1)] show ?thesis by (simp add: demo_run_def)
qed

theorem failed_command_downloads_nothing_witness:
  "files (snd (demo_run two_polls 3 ''d/f'')) = tool_host \<and> out_files (projr (fst (demo_run two_polls 3 ''d/f''))) = []"
proof -
  have "exit_code (projr (fst (demo_run two_polls 3 ''d/f''))) \<noteq> 0" by code_simp
  from failed_command_downloads_nothing [OF demo_runs(2) [unfolded demo_run_def] this [unfolded demo_run_def]]
  show ?thesis by (simp add: demo_run_def demo_tool_def)
qed

theorem run_stays_inside_witness:
  "cwd (files (snd (demo_run two_polls 0 ''d/f''))) = [''h''] \<and>
    node_at (files (snd (demo_run two_polls 0 ''d/f''))) [''etc''] = None"
proof -
  have "safe_diff (a_container (demo_env hello two_polls 0))"
    and "or_empty (output_filters (demo_tool '''')) = parse_matchers []" by code_simp+
  from run_stays_inside [OF this demo_runs(1) [unfolded demo_run_def], of "[''etc'']"] show ?thesis
    by (simp add: demo_run_def demo_tool_def tool_host_def node_at_def entry_at_def archive_file_def)
qed

theorem interrupted_run_logged_as_success_witness:
  "read_file (files (snd (demo_run [Interrupt] 0 ''d/f''))) (PPath '''' [''d'', ''f'']) = Inr [5] \<and>
   exit_code (projr (fst (demo_run [Interrupt] 0 ''d/f''))) = 0 \<and>
   in_files (projr (fst (demo_run [Interrupt] 0 ''d/f''))) = [] \<and>
   snd (snd (projr (fst (demo_prepared [Interrupt] 0)))) \<noteq> []"
proof -
  let ?env = "demo_env hello [Interrupt] 0" and ?p = "projr (fst (demo_prepared [Interrupt] 0))"
  let ?st = "snd (demo_prepared [Interrupt] 0)"
  have p: "prepare ?env [''cat'', ''d/f''] (demo_tool '''') = (Inr (fst ?p, fst (snd ?p), snd (snd ?p)), ?st)"
    using demo_prepares(2) by (simp add: demo_prepared_def)
  have e: "execute ?env (fst (snd ?p)) ?st = (Inl KeyboardInterrupt, snd (execute ?env (fst (snd ?p)) ?st))"
    and ins: "snd (snd ?p) \<noteq> []" by code_simp+
  have d: "read_file (fs (snd (download_files (sha ?env) (clock ?env) (zone ?env) (stats_of ?st) (a_container ?env)
      (tar_text ?env) (or_empty (output_filters (demo_tool ''''))) (no_defaults (demo_tool ''''))
      (if present (explicit_output ?st) then or_empty (explicit_output ?st) else mkdirs ?st)
      (\<not> present (explicit_output ?st) \<and> implicit_output ?st) (output_tar (demo_tool '''')) (files (demo_tool '''')))))
      (PPath '''' [''d'', ''f'']) = Inr [5]" by code_simp
  from interrupted_run_logged_as_success [OF p e demo_runs(3) [unfolded demo_run_def]] d ins show ?thesis
    by (simp add: demo_run_def)
qed

theorem run_logs_uploads_witness:
  "\<exists>ins. ins \<noteq> [] \<and> in_files (projr (fst (demo_run two_polls 0 ''d/f''))) = ins"
proof -
  let ?p = "projr (fst (demo_prepared two_polls 0))" and ?st = "snd (demo_prepared two_polls 0)"
  let ?e = "execute (demo_env hello two_polls 0) (fst (snd ?p)) ?st"
  have p: "prepare (demo_env hello two_polls 0) [''cat'', ''d/f''] (demo_tool '''') =
      (Inr (fst ?p, fst (snd ?p), snd (snd ?p)), ?st)"
    using demo_prepares(1) by (simp add: demo_prepared_def)
  have e: "?e = (Inr (projr (fst ?e)), snd ?e)" and "snd (snd ?p) \<noteq> []" by code_simp+
  with run_logs_uploads [OF p e demo_runs(1) [unfolded demo_run_def]] show ?thesis
    by (simp add: demo_run_def)
qed

theorem upload_error_leaks_container_witness:
  "\<exists>st'. demo_run two_polls 0 ''pipe'' = (Inl (PlainException ''Cannot upload file of unknown type pipe''), st') \<and>
    left_behind st' = 1"
proof -
  let ?env = "demo_env hello two_polls 0" and ?st = "demo_tool ''''"
  let ?r = "resolver_of ?env [''cat'', ''pipe''] ?st"
  have "?r = Inr (projr ?r)" and "show_options ?st = Inr ()"
    and "resolve_upload_files (files ?st) (projr ?r) [] = ([''cat'', ''pipe''], [(PPath '''' [''pipe''], ''pipe'')])"
    and "shell ?st = ''''" and "a_create ?env (container_request ?st [''cat'', ''pipe'']) = Inr ()"
    and "upload (sha ?env) (clock ?env) (zone ?env) (files ?st) (read_tar ?env) (input_tar ?st)
      [(PPath '''' [''pipe''], ''pipe'')]
      \<lparr>members = [], dirs = {}, upload_stats = stats_of ?st, uploaded_files = [], tick = 0\<rparr> =
      Inl (PlainException ''Cannot upload file of unknown type pipe'')"
    by code_simp+
  from upload_error_leaks_container [OF this] have
    "\<exists>st'. run_tool ?env [''cat'', ''pipe''] ?st =
      (Inl (PlainException ''Cannot upload file of unknown type pipe''), st') \<and> left_behind st' = left_behind ?st + 1" .
  moreover have "left_behind ?st = 0" by code_simp
  ultimately show ?thesis by (simp add: demo_run_def)
qed

end
