(* ===== verification/Container_Check.thy ===== *)
theory Container_Check
  imports Py_Steps Command_Log Host_Places
begin

text \<open>
  \<^verbatim>\<open>ContainerCheck\<close> of \<^verbatim>\<open>cincan/container_check.py\<close>: the test run of a tool with a file to read
  and a file to write, and the clean-up after it.  An operation here may raise and still have
  changed the host, so a step gives a result and a host.  The tool is a parameter: a function from
  the arguments and the host to a log, or an error, and the host it leaves.
\<close>

section \<open>Steps that may raise\<close>

type_synonym 'a step = "(host, 'a) action"

section \<open>The check\<close>

definition in_dir :: ppath where "in_dir = parse_path ''cincan-in''"
definition in_file :: ppath where "in_file = parse_path ''cincan-in/cincan.txt''"
definition out_dir :: ppath where "out_dir = parse_path ''cincan-out''"
definition out_file :: ppath where "out_file = parse_path ''cincan-out/cincan.txt''"

definition test_string :: string where
  "test_string = ''This is a test''"

definition when_exists :: "ppath \<Rightarrow> (host \<Rightarrow> host result) \<Rightarrow> unit step" where
  "when_exists p f h = (if path_exists h p then attempt f h else give () h)"

definition read_output :: "host \<Rightarrow> string option result \<times> host" where
  "read_output h =
     (if is_file h out_file
      then (bindr (read_file h out_file) (\<lambda>d. Inr (Some (universal_newlines (decode_text d)))), h)
      else (Inr None, h))"

definition check_body ::
  "int \<Rightarrow> (string list \<Rightarrow> command_log step) \<Rightarrow> string list \<Rightarrow> (command_log \<times> string option) step" where
  "check_body now tool args =
     and_then (attempt (mkdir_ok now in_dir)) (\<lambda>_.
     and_then (attempt (write_file now in_file (encode_text test_string))) (\<lambda>_.
     and_then (attempt (mkdir_ok now out_dir)) (\<lambda>_.
     and_then (when_exists out_file (unlink out_file)) (\<lambda>_.
     and_then (tool args) (\<lambda>log.
     and_then read_output (\<lambda>test_out.
     give (log, test_out)))))))"

definition cleanup :: "unit step" where
  "cleanup =
     and_then (when_exists in_file (unlink in_file)) (\<lambda>_.
     and_then (when_exists in_dir (rmdir in_dir)) (\<lambda>_.
     and_then (when_exists out_file (unlink out_file)) (\<lambda>_.
     when_exists out_dir (rmdir out_dir))))"

definition verdict :: "int \<Rightarrow> string option \<Rightarrow> string option" where
  "verdict code test_out =
     (if code \<noteq> 0 then Some (''Test failed, exit code '' @ show_int code @ [CHR 0x0A])
      else if test_out = None \<or> test_out = Some ''''
      then Some (''Test failed, test file not copied'' @ [CHR 0x0A])
      else if test_out \<noteq> Some test_string
      then Some (''Test failed, test data not copied properly'' @ [CHR 0x0A])
      else None)"

text \<open>
  The report at the end of the standard output.  The conditional expressions bind weaker than
  the sum, and the one of the failure looks at the standard error.
\<close>

definition report :: "command_log \<Rightarrow> string option \<Rightarrow> command_log" where
  "report log test_out =
     (case verdict (exit_code log) test_out of
        Some error \<Rightarrow>
          log\<lparr>log_stdout := (if log_stderr log \<noteq> [] then log_stdout log @ [0x0A] else []) @ encode_text error\<rparr>
      | None \<Rightarrow>
          log\<lparr>log_stdout := (if log_stdout log \<noteq> [] then log_stdout log @ [0x0A] else []) @
                 encode_text (''Test pass'' @ [CHR 0x0A])\<rparr>)"

definition check_args :: "string list \<Rightarrow> string list" where
  "check_args args = (if args = [] then [''cp'', as_posix in_file, as_posix out_file] else args)"

definition run_check ::
  "int \<Rightarrow> (string list \<Rightarrow> command_log step) \<Rightarrow> string list \<Rightarrow> command_log step" where
  "run_check now tool args =
     and_then (finally_do (check_body now tool (check_args args)) cleanup) (\<lambda>(log, test_out).
     give (report log test_out))"

section \<open>Lemmas\<close>

lemma check_paths [simp]:
  "in_dir = PPath '''' [''cincan-in'']" "in_file = PPath '''' [''cincan-in'', ''cincan.txt'']"
  "out_dir = PPath '''' [''cincan-out'']" "out_file = PPath '''' [''cincan-out'', ''cincan.txt'']"
  by code_simp+

lemma check_paths_inside [simp]:
  "inside_path in_dir" "inside_path in_file" "inside_path out_dir" "inside_path out_file"
  by code_simp+

lemmas check_paths_plain [simp] = check_paths_inside [unfolded check_paths]

lemma relative_missing:
  assumes "\<not> path_exists h (PPath '''' [d])" and "d \<noteq> dotdot"
  shows "\<not> path_exists h (PPath '''' (d # ps)) \<or> ps = []"
  using assms
  by (cases ps)
    (auto simp: path_exists_def find_node_def locate_def base_of_def is_absolute_def dir_at_def
      split: if_splits option.splits)

text \<open>A removal of an existing path, or nothing: the path is gone and nothing else has changed.\<close>

lemma removed_by:
  assumes "when_exists p f h = (Inr u, h')" and "inside_path p"
    and "\<And>h'. f h = Inr h' \<Longrightarrow> only_changes {place_of h p} h h' \<and> node_at h' (place_of h p) = None"
  shows "only_changes {place_of h p} h h'" and "\<not> path_exists h' p"
proof -
  have "only_changes {place_of h p} h h' \<and> \<not> path_exists h' p"
  proof (cases "path_exists h p")
    case True
    with assms(1) have "f h = Inr h'" by (auto simp: when_exists_def )
    note e = assms(3) [OF this]
    then have "cwd h' = cwd h" by (simp add: only_changes_def)
    with e place_of_cwd [OF this] missing_at_place [OF assms(2), of h'] show ?thesis by simp
  next
    case False
    with assms(1) show ?thesis by (simp add: when_exists_def give_def only_changes_def)
  qed
  then show "only_changes {place_of h p} h h'" and "\<not> path_exists h' p" by simp_all
qed

lemma still_missing:
  assumes "only_changes S h h'" and "cwd h \<notin> S" and "cwd h @ [d] \<notin> S"
    and "\<not> path_exists h (PPath '''' [d])" and "d \<noteq> dotdot"
  shows "\<not> path_exists h' (PPath '''' [d])"
  using assms
  by (auto simp: path_exists_def find_node_def locate_def base_of_def is_absolute_def
      only_changes_def dir_at_def split: if_splits option.splits node.splits)

text \<open>What the four steps of the clean-up do, one after the other.\<close>

lemma cleanup_steps:
  assumes "cleanup h = (Inr u, h')"
  shows "only_changes {place_of h in_file, place_of h in_dir, place_of h out_file, place_of h out_dir} h h'"
    and "\<not> path_exists h' in_dir" and "\<not> path_exists h' out_dir"
proof -
  from assms obtain h1 h2 h3 where
    s1: "when_exists in_file (unlink in_file) h = (Inr (), h1)" and
    s2: "when_exists in_dir (rmdir in_dir) h1 = (Inr (), h2)" and
    s3: "when_exists out_file (unlink out_file) h2 = (Inr (), h3)" and
    s4: "when_exists out_dir (rmdir out_dir) h3 = (Inr (), h')"
    unfolding cleanup_def by (elim and_then_Inr) auto
  note r1 = removed_by [OF s1 check_paths_inside(2) unlink_changes [OF _ check_paths_inside(2)], simplified]
  note r2 = removed_by [OF s2 check_paths_inside(1) rmdir_changes [OF _ check_paths_inside(1)], simplified]
  note r3 = removed_by [OF s3 check_paths_inside(4) unlink_changes [OF _ check_paths_inside(4)], simplified]
  note r4 = removed_by [OF s4 check_paths_inside(3) rmdir_changes [OF _ check_paths_inside(3)], simplified]
  from r1 r2 r3 r4 have c: "cwd h1 = cwd h" "cwd h2 = cwd h" "cwd h3 = cwd h"
    by (simp_all add: only_changes_def)
  show "only_changes {place_of h in_file, place_of h in_dir, place_of h out_file, place_of h out_dir} h h'"
    using r1(1) r2(1) r3(1) r4(1) c by (auto simp: only_changes_def place_of_def)
  show "\<not> path_exists h' out_dir" using r4 by simp
  have "only_changes {place_of h out_file, place_of h out_dir} h2 h'"
    using r3(1) r4(1) c by (auto simp: only_changes_def place_of_def)
  from still_missing [OF this, of "''cincan-in''"] r2(2) c(2) show "\<not> path_exists h' in_dir"
    by (simp add: place_of_def dotdot_def)
qed

lemma run_check_Inr:
  assumes "run_check now tool args h = (Inr log', h')"
  obtains log out h1 where "check_body now tool (check_args args) h = (Inr (log, out), h1)"
    and "cleanup h1 = (Inr (), h')" and "log' = report log out"
  using assms unfolding run_check_def
  by (elim and_then_Inr finally_do_Inr) (auto simp: give_def split: prod.splits)





lemma run_check_gone:
  assumes "run_check now tool args h = (Inr log, h')"
  shows "\<not> path_exists h' in_dir \<and> \<not> path_exists h' in_file \<and>
    \<not> path_exists h' out_dir \<and> \<not> path_exists h' out_file"
proof -
  from assms obtain h1 where "cleanup h1 = (Inr (), h')" by (rule run_check_Inr)
  note gone = cleanup_steps(2,3) [OF this, simplified]
  from relative_missing [OF gone(1)] relative_missing [OF gone(2)] gone show ?thesis
    by (auto simp: dotdot_def)
qed

text \<open>A check that returns leaves neither its test files nor its two directories behind,
  whatever was there before and whatever the tool has done.\<close>

theorem check_cleans_up:
  assumes "run_check now tool args h = (Inr log, h')"
  shows "\<not> path_exists h' in_dir \<and> \<not> path_exists h' in_file \<and>
    \<not> path_exists h' out_dir \<and> \<not> path_exists h' out_file"
  using assms by (rule run_check_gone)

text \<open>A tool that behaves as \<^verbatim>\<open>cp\<close>, and one that fails after some output.\<close>

definition empty_log :: command_log where
  "empty_log = new_command_log [] (DateTime 1 1 1 0 0 0 0)"

definition copy_tool :: "string list \<Rightarrow> command_log step" where
  "copy_tool args h =
     (case args of
        [c, a, b] \<Rightarrow>
          (case bindr (read_file h (parse_path a)) (\<lambda>d. write_file 7 (parse_path b) d h) of
             Inl e \<Rightarrow> (Inr (empty_log\<lparr>exit_code := 1\<rparr>), h)
           | Inr h' \<Rightarrow> (Inr empty_log, h'))
      | _ \<Rightarrow> (Inr (empty_log\<lparr>exit_code := 1\<rparr>), h))"

definition failing_tool :: "string list \<Rightarrow> command_log step" where
  "failing_tool args h = (Inr (empty_log\<lparr>exit_code := 3, log_stdout := [0x68, 0x69]\<rparr>), h)"

definition empty_host :: host where
  "empty_host = \<lparr>cwd = [], tree = []\<rparr>"

lemma copy_run:
  "run_check 7 copy_tool [] empty_host =
     (Inr (empty_log\<lparr>log_stdout := encode_text (''Test pass'' @ [CHR 0x0A])\<rparr>), empty_host)"
  by code_simp

theorem check_cleans_up_witness:
  "\<not> path_exists empty_host in_dir \<and> \<not> path_exists empty_host in_file \<and>
    \<not> path_exists empty_host out_dir \<and> \<not> path_exists empty_host out_file"
  using check_cleans_up [OF copy_run] .



text \<open>When the tool fails or copies nothing and has written nothing to its standard error, the
  standard output of the tool is not in the report: only the message of the check is.\<close>

theorem failed_check_loses_output:
  assumes "run_check now tool args h = (Inr log', h')"
    and "check_body now tool (check_args args) h = (Inr (log, out), h1)"
    and "verdict (exit_code log) out = Some msg" and "log_stderr log = []"
  shows "log_stdout log' = encode_text msg"
  using assms(1)
proof (rule run_check_Inr)
  fix l o' g assume "check_body now tool (check_args args) h = (Inr (l, o'), g)" "log' = report l o'"
  with assms(2,3,4) show ?thesis by (simp add: report_def)
qed

lemma failing_run:
  "run_check 7 failing_tool [] empty_host =
     (Inr (empty_log\<lparr>exit_code := 3,
        log_stdout := encode_text (''Test failed, exit code 3'' @ [CHR 0x0A])\<rparr>), empty_host)"
  by code_simp

theorem failed_check_loses_output_witness:
  "\<exists>log out h1. check_body 7 failing_tool (check_args []) empty_host = (Inr (log, out), h1) \<and>
    log_stdout log = [0x68, 0x69] \<and>
    log_stdout (projr (fst (run_check 7 failing_tool [] empty_host))) =
      encode_text (''Test failed, exit code 3'' @ [CHR 0x0A])"
proof -
  let ?r = "check_body 7 failing_tool (check_args []) empty_host"
  have r: "?r = (Inr (projr (fst ?r)), snd ?r)"
    and log: "verdict (exit_code (fst (projr (fst ?r)))) (snd (projr (fst ?r))) =
        Some (''Test failed, exit code 3'' @ [CHR 0x0A])"
      "log_stdout (fst (projr (fst ?r))) = [0x68, 0x69]" "log_stderr (fst (projr (fst ?r))) = []"
    by code_simp+
  then have "?r = (Inr (fst (projr (fst ?r)), snd (projr (fst ?r))), snd ?r)" by simp
  with failed_check_loses_output [OF failing_run this log(1,3)] log(2) show ?thesis
    by (metis failing_run fst_conv sum.sel(2))
qed

text \<open>The directory is there after \<^verbatim>\<open>mkdir\<close>, and a place whose directory is there can be reached.\<close>

lemma mkdir_dir:
  assumes "mkdir_ok now (PPath '''' [d]) h = Inr h'" and "d \<noteq> dotdot"
  shows "only_changes {cwd h @ [d]} h h' \<and> dir_at h (cwd h) \<and> dir_at h' (cwd h @ [d])"
  using assms
  by (auto simp: mkdir_ok_def os_mkdir_def locate_def base_of_def is_absolute_def only_changes_def
      node_at_put_other dir_at_def is_dir_def find_node_def node_at_put_same
      split: if_splits sum.splits option.splits node.splits)

lemma removed_place:
  assumes "when_exists p f h = (Inr u, h')" and "locate h p = Inr (place_of h p)"
    and "\<And>h'. f h = Inr h' \<Longrightarrow> only_changes {place_of h p} h h' \<and> node_at h' (place_of h p) = None"
  shows "only_changes {place_of h p} h h' \<and> node_at h' (place_of h p) = None"
proof (cases "path_exists h p")
  case True
  with assms(1) have "f h = Inr h'" by (auto simp: when_exists_def )
  from assms(3) [OF this] show ?thesis .
next
  case False
  with assms(1,2) show ?thesis
    by (simp add: when_exists_def give_def only_changes_def path_exists_def find_node_def)
qed

lemma locate_one: "dir_at h (cwd h) \<Longrightarrow> d \<noteq> dotdot \<Longrightarrow> locate h (PPath '''' [d]) = Inr (cwd h @ [d])"
  by (simp add: locate_def base_of_def is_absolute_def)

lemma locate_two:
  "dir_at h (cwd h) \<Longrightarrow> dir_at h (cwd h @ [d]) \<Longrightarrow> d \<noteq> dotdot \<Longrightarrow> n \<noteq> dotdot \<Longrightarrow>
     locate h (PPath '''' [d, n]) = Inr (cwd h @ [d, n])"
  by (simp add: locate_def base_of_def is_absolute_def)

lemma only_changes_dir: "only_changes S h h' \<Longrightarrow> l \<notin> S \<Longrightarrow> dir_at h' l = dir_at h l"
  by (simp add: only_changes_def dir_at_def)

definition check_places :: "host \<Rightarrow> loc set" where
  "check_places h = {place_of h in_dir, place_of h in_file, place_of h out_dir, place_of h out_file}"

lemma cleanup_removes:
  assumes "cleanup h = (Inr u, h')" and "dir_at h (cwd h)"
    and "dir_at h (place_of h in_dir)" and "dir_at h (place_of h out_dir)"
  shows "\<forall>l \<in> check_places h. node_at h' l = None"
proof -
  from assms(1) obtain h1 h2 h3 where
    s1: "when_exists in_file (unlink in_file) h = (Inr (), h1)" and
    s2: "when_exists in_dir (rmdir in_dir) h1 = (Inr (), h2)" and
    s3: "when_exists out_file (unlink out_file) h2 = (Inr (), h3)" and
    s4: "when_exists out_dir (rmdir out_dir) h3 = (Inr (), h')"
    unfolding cleanup_def by (elim and_then_Inr) auto
  have nd: "''cincan-in'' \<noteq> dotdot" "''cincan-out'' \<noteq> dotdot" "''cincan.txt'' \<noteq> dotdot"
    by (simp_all add: dotdot_def)
  note loc = locate_one locate_two nd place_of_def
  have r1: "only_changes {place_of h in_file} h h1 \<and> node_at h1 (place_of h in_file) = None"
    using assms(2,3) by (intro removed_place [OF s1] unlink_changes) (simp_all add: loc)
  then have c1: "cwd h1 = cwd h" by (simp add: only_changes_def)
  have d1: "dir_at h1 (cwd h)" "dir_at h1 (place_of h out_dir)"
    using assms(2,4) r1 by (simp_all add: only_changes_def dir_at_def place_of_def)
  have r2: "only_changes {place_of h1 in_dir} h1 h2 \<and> node_at h2 (place_of h1 in_dir) = None"
    using d1 c1 by (intro removed_place [OF s2] rmdir_changes) (simp_all add: loc)
  then have c2: "cwd h2 = cwd h" by (simp add: only_changes_def c1)
  have d2: "dir_at h2 (cwd h)" "dir_at h2 (place_of h out_dir)"
    using d1 r2 by (simp_all add: only_changes_def dir_at_def place_of_def c1)
  have r3: "only_changes {place_of h2 out_file} h2 h3 \<and> node_at h3 (place_of h2 out_file) = None"
    using d2 c2 by (intro removed_place [OF s3] unlink_changes) (simp_all add: loc)
  then have c3: "cwd h3 = cwd h" by (simp add: only_changes_def c2)
  have d3: "dir_at h3 (cwd h)"
    using d2 r3 by (simp add: only_changes_def dir_at_def place_of_def c2)
  have r4: "only_changes {place_of h3 out_dir} h3 h' \<and> node_at h' (place_of h3 out_dir) = None"
    using d3 c3 by (intro removed_place [OF s4] rmdir_changes) (simp_all add: loc)
  from r1 r2 r3 r4 c1 c2 c3 show ?thesis
    by (simp add: check_places_def only_changes_def place_of_def)
qed

lemma children_of_entry: "node_at h (l @ [n]) \<noteq> None \<Longrightarrow> children h l \<noteq> []"
  by (force simp: node_at_def entry_at_def children_def filter_empty_conv dest: map_of_SomeD)

lemma cleanup_needs_empty:
  assumes "cleanup h = (Inr u, h')" and "dir_at h (cwd h)" and "dir_at h (place_of h out_dir)"
    and "n \<noteq> ''cincan.txt''"
  shows "node_at h (place_of h out_dir @ [n]) = None"
proof (rule ccontr)
  assume there: "node_at h (place_of h out_dir @ [n]) \<noteq> None"
  from assms(1) obtain h1 h2 h3 where
    s1: "when_exists in_file (unlink in_file) h = (Inr (), h1)" and
    s2: "when_exists in_dir (rmdir in_dir) h1 = (Inr (), h2)" and
    s3: "when_exists out_file (unlink out_file) h2 = (Inr (), h3)" and
    s4: "when_exists out_dir (rmdir out_dir) h3 = (Inr (), h')"
    unfolding cleanup_def by (elim and_then_Inr) auto
  note r1 = removed_by(1) [OF s1 check_paths_inside(2) unlink_changes [OF _ check_paths_inside(2)]]
  note r2 = removed_by(1) [OF s2 check_paths_inside(1) rmdir_changes [OF _ check_paths_inside(1)]]
  note r3 = removed_by(1) [OF s3 check_paths_inside(4) unlink_changes [OF _ check_paths_inside(4)]]
  have c: "cwd h3 = cwd h" using r1 r2 r3 by (simp add: only_changes_def)
  have "node_at h3 l = node_at h l" if "l \<in> {cwd h, place_of h out_dir, place_of h out_dir @ [n]}" for l
    using that r1 r2 r3 assms(4) by (auto simp: only_changes_def place_of_def)
  with there assms(2,3) have d: "dir_at h3 (cwd h3)" "dir_at h3 (cwd h3 @ [''cincan-out''])"
    and kids: "children h3 (cwd h3 @ [''cincan-out'']) \<noteq> []"
    using children_of_entry [of h3 "cwd h3 @ [''cincan-out'']" n]
    by (simp_all add: dir_at_def place_of_def c)
  then have "rmdir out_dir h3 = Inl OSError" and "path_exists h3 out_dir"
    by (simp_all add: rmdir_def locate_one path_exists_def find_node_def dotdot_def dir_at_def
        split: option.splits node.splits)
  with s4 show False by (simp add: when_exists_def attempt_def)
qed

lemma check_body_changes:
  assumes "check_body now tool args h = (Inr r, h')"
    and "\<And>g g'. tool args g = (Inr (fst r), g') \<Longrightarrow> only_changes {place_of g out_file} g g'"
  shows "only_changes (check_places h) h h' \<and> dir_at h' (cwd h') \<and>
    dir_at h' (place_of h' in_dir) \<and> dir_at h' (place_of h' out_dir)"
proof -
  from assms(1) obtain a b c d e log t where
    s: "mkdir_ok now in_dir h = Inr a" "write_file now in_file (encode_text test_string) a = Inr b"
      "mkdir_ok now out_dir b = Inr c" and
    s4: "when_exists out_file (unlink out_file) c = (Inr (), d)" and
    s5: "tool args d = (Inr (fst r), e)" and s6: "read_output e = (Inr t, h')"
    unfolding check_body_def by (elim and_then_Inr) (auto simp: give_def)
  from s6 have e: "h' = e" by (simp add: read_output_def split: if_splits)
  have a: "only_changes {cwd h @ [''cincan-in'']} h a \<and> dir_at h (cwd h) \<and> dir_at a (cwd h @ [''cincan-in''])"
    using mkdir_dir [of now "''cincan-in''" h a] s(1) by (simp add: dotdot_def)
  then have ca: "cwd a = cwd h" by (simp add: only_changes_def)
  have b: "only_changes {place_of h in_file} a b"
    using write_changes [OF s(2) check_paths_inside(2)] place_of_cwd [OF ca] by metis
  then have cb: "cwd b = cwd h" by (simp add: only_changes_def ca)
  have c: "only_changes {cwd h @ [''cincan-out'']} b c \<and> dir_at c (cwd h @ [''cincan-out''])"
    using mkdir_dir [of now "''cincan-out''" b c] s(3) cb by (simp add: dotdot_def)
  then have cc: "cwd c = cwd h" by (simp add: only_changes_def cb)
  have d: "only_changes {place_of h out_file} c d"
    using removed_by(1) [OF s4 check_paths_inside(4) unlink_changes [OF _ check_paths_inside(4)]]
      place_of_cwd [OF cc] by metis
  then have cd: "cwd d = cwd h" by (simp add: only_changes_def cc)
  have e': "only_changes {place_of h out_file} d h'"
    using assms(2) [OF s5] place_of_cwd [OF cd] e by metis
  have "cwd h' = cwd h" using e' by (simp add: only_changes_def cd)
  moreover have "only_changes (check_places h) h h'"
    using a b c d e' by (simp add: only_changes_def check_places_def place_of_def)
  moreover have "dir_at h' (cwd h)"
    using a b c d e' by (simp add: only_changes_def dir_at_def place_of_def)
  moreover have "dir_at h' (cwd h @ [''cincan-in''])"
    using a b c d e' by (simp add: only_changes_def dir_at_def place_of_def)
  moreover have "dir_at h' (cwd h @ [''cincan-out''])"
    using a b c d e' by (simp add: only_changes_def dir_at_def place_of_def)
  ultimately show ?thesis by (simp add: place_of_def)
qed

lemma check_restores:
  assumes "run_check now tool args h = (Inr log', h')"
    and "\<And>g l g'. tool (check_args args) g = (Inr l, g') \<Longrightarrow> exit_code l = exit_code log' \<Longrightarrow>
      only_changes {place_of g out_file} g g'"
  shows "cwd h' = cwd h \<and>
    (\<forall>l. node_at h' l = (if l \<in> check_places h then None else node_at h l))"
proof -
  from assms(1) obtain log out h1 where
    body: "check_body now tool (check_args args) h = (Inr (log, out), h1)" and "cleanup h1 = (Inr (), h')"
    and log': "log' = report log out"
    by (rule run_check_Inr)
  from log' have "exit_code log = exit_code log'" by (auto simp: report_def split: option.splits)
  note b = check_body_changes [OF body assms(2), simplified, OF _ this]
  note steps = cleanup_steps(1) [OF \<open>cleanup h1 = _\<close>]
  from b have c: "cwd h1 = cwd h" by (simp add: only_changes_def)
  then have places: "check_places h1 = check_places h" by (simp add: check_places_def place_of_def)
  have "\<forall>l \<in> check_places h. node_at h' l = None"
    using cleanup_removes [OF \<open>cleanup h1 = _\<close>] b places by simp
  moreover have "only_changes (check_places h) h1 h'"
    using steps c by (simp add: check_places_def place_of_def insert_commute)
  ultimately show ?thesis using b by (simp add: only_changes_def)
qed

section \<open>The interface of a tool\<close>

text \<open>
  What the check may expect of the \<^verbatim>\<open>CommandRunner\<close> it is given: a run that ends with another exit
  code than 0 has changed no file.  The model of \<^verbatim>\<open>ToolImage\<close> keeps this in \<open>Front_End\<close>.
\<close>

locale command_runner =
  fixes run_with :: "string list \<Rightarrow> command_log step"
  assumes failed_keeps: "run_with args h = (Inr log, h') \<Longrightarrow> exit_code log \<noteq> 0 \<Longrightarrow> h' = h"
begin

lemma failed_check_restores:
  assumes "run_check now run_with args h = (Inr log, h')" and "exit_code log \<noteq> 0"
  shows "cwd h' = cwd h \<and>
    (\<forall>l. node_at h' l = (if l \<in> check_places h then None else node_at h l))"
proof (rule check_restores [OF assms(1)])
  fix g l g' assume "run_with (check_args args) g = (Inr l, g')" and "exit_code l = exit_code log"
  with failed_keeps assms(2) have "g' = g" by metis
  then show "only_changes {place_of g out_file} g g'" by (simp add: only_changes_def)
qed

end

text \<open>With a tool that changes nothing but its output file, a check that returns leaves nothing
  at the places of its own files and directories and everything else as it was.\<close>

theorem check_restores_host:
  assumes "run_check now tool args h = (Inr log, h')"
    and "\<And>g l g'. tool (check_args args) g = (Inr l, g') \<Longrightarrow> only_changes {place_of g out_file} g g'"
  shows "cwd h' = cwd h \<and>
    (\<forall>l. node_at h' l = (if l \<in> check_places h then None else node_at h l))"
  using assms by (intro check_restores) blast+

lemma copy_tool_changes:
  assumes "copy_tool (check_args []) g = (Inr l, g')"
  shows "only_changes {place_of g out_file} g g'"
proof -
  have "check_args [] = [''cp'', ''cincan-in/cincan.txt'', ''cincan-out/cincan.txt'']" by code_simp
  moreover have "parse_path ''cincan-out/cincan.txt'' = out_file" by code_simp
  ultimately show ?thesis
    using assms write_changes [OF _ check_paths_inside(4)]
    by (auto simp: copy_tool_def bindr_eq_Inr only_changes_def simp del: check_paths(4) split: sum.splits)
qed

theorem check_restores_host_witness:
  "cwd empty_host = [] \<and>
    (\<forall>l. node_at empty_host l = (if l \<in> check_places empty_host then None else node_at empty_host l))"
  using check_restores_host [OF copy_run copy_tool_changes] by (simp add: empty_host_def)

text \<open>A user who keeps another entry in a directory named \<^verbatim>\<open>cincan-out\<close> gets no report: the check
  never returns normally, also when the tool has passed.\<close>

theorem check_raises_on_own_directory:
  assumes "node_at h (place_of h out_dir @ [n]) \<noteq> None" and "n \<noteq> ''cincan.txt''"
    and "\<And>g l g'. tool (check_args args) g = (Inr l, g') \<Longrightarrow> only_changes {place_of g out_file} g g'"
  shows "\<exists>e. fst (run_check now tool args h) = Inl e"
proof (rule ccontr)
  assume "\<not> ?thesis"
  then obtain log h' where "run_check now tool args h = (Inr log, h')"
    by (cases "run_check now tool args h"; cases "fst (run_check now tool args h)") auto
  then obtain log out h1 where body: "check_body now tool (check_args args) h = (Inr (log, out), h1)"
    and clean: "cleanup h1 = (Inr (), h')" by (rule run_check_Inr)
  note b = check_body_changes [OF body assms(3)]
  from b have "cwd h1 = cwd h" by (simp add: only_changes_def)
  with b assms(1,2) have "node_at h1 (place_of h1 out_dir @ [n]) \<noteq> None"
    by (simp add: only_changes_def check_places_def place_of_def)
  with cleanup_needs_empty [OF clean _ _ assms(2)] b show False by simp
qed

definition busy_host :: host where
  "busy_host = \<lparr>cwd = [], tree = [([''cincan-out''], DirNode 1), ([''cincan-out'', ''mine''], FileNode [] 1)]\<rparr>"

theorem check_raises_on_own_directory_witness:
  "\<exists>e. fst (run_check 7 copy_tool [] busy_host) = Inl e"
  by (rule check_raises_on_own_directory [OF _ _ copy_tool_changes, where n = "''mine''"])
    (simp_all add: busy_host_def node_at_def entry_at_def place_of_def)

end
