(* ===== verification/Front_End.thy ===== *)
theory Front_End
  imports Tool_Setup Tool_Image Container_Check
begin

text \<open>
  \<^verbatim>\<open>main\<close> of \<^verbatim>\<open>cincan/frontend.py\<close>: the commands \<^verbatim>\<open>run\<close>, \<^verbatim>\<open>test\<close> and \<^verbatim>\<open>shell\<close> from the parsed
  command line to the exit code, and the name that \<^verbatim>\<open>manifest\<close> asks the registry for.  It starts
  from the record of arguments, which \<open>Command_Line\<close> makes of the strings of the command line.
\<close>

section \<open>Arguments\<close>

text \<open>An option that may be repeated gives \<open>None\<close> for each time it is written without a value.\<close>

record arguments =
  tool_args :: "string list"
  arg_path :: "string option"
  arg_pull :: bool
  arg_batch :: bool
  arg_quiet :: bool
  arg_log_level :: "string option"
  arg_in :: "string option"
  arg_out :: "string option"
  arg_in_filter :: "string option list option"
  arg_out_filter :: "string option list option"
  arg_mkdir :: "string option list option"
  arg_no_defaults :: bool
  arg_no_implicit :: bool
  arg_explicit :: "string option list option"
  arg_create_image :: bool
  arg_network :: "string option"
  arg_user :: "string option"
  arg_cap_add :: "string option list option"
  arg_cap_drop :: "string option list option"
  arg_runtime :: "string option"
  arg_entrypoint :: "string option"
  arg_interactive :: bool
  arg_tty :: bool
  arg_shell :: string

datatype command_kind = RunCommand | TestCommand | ShellCommand

definition log_level :: "arguments \<Rightarrow> string" where
  "log_level a =
     (if present (arg_log_level a) then or_empty (arg_log_level a)
      else if arg_quiet a then ''WARNING'' else ''INFO'')"

definition level_number :: "string \<Rightarrow> nat" where
  "level_number s =
     (if s = ''DEBUG'' then 10 else if s = ''INFO'' then 20 else if s = ''WARNING'' then 30
      else if s = ''ERROR'' then 40 else 50)"

section \<open>The tool\<close>

text \<open>The attributes after the constructor; \<open>config_of\<close> gives the entry point and the command of an image.\<close>

definition fresh_tool ::
  "configuration \<Rightarrow> ('i \<Rightarrow> string list option \<times> string list option) \<Rightarrow> 'i tool_base \<Rightarrow> termios \<Rightarrow> host \<Rightarrow> tool" where
  "fresh_tool conf config_of b t h =
     \<lparr>name_of = base_name b, image_entrypoint = fst (config_of (base_image b)),
      image_cmd = snd (config_of (base_image b)), shell_list = default_shells conf, loaded_image = loaded b,
      input_tar = None, input_filters = None, output_tar = None, mkdirs = [], implicit_output = True,
      explicit_output = Some [], stats_of = [], output_filters = None, no_defaults = False,
      create_image = False, entrypoint = None, network_mode = None, user = None, cap_add = Some [],
      cap_drop = Some [], runtime = None, is_tty = False, read_stdin = False, shell = '''',
      upload_files = [], download_list = [], buffer_output = False, files = h, saved = None,
      terminal = t, calls = []\<rparr>"

text \<open>\<^verbatim>\<open>FileMatcher.parse\<close> asks every pattern for its first character, which \<^verbatim>\<open>None\<close> does not have.\<close>

definition parse_filters :: "string option list option \<Rightarrow> file_matcher list option result" where
  "parse_filters x =
     (case x of
        None \<Rightarrow> Inr None
      | Some ms \<Rightarrow> if None \<in> set ms then Inl AttributeError else Inr (Some (parse_matchers (map the ms))))"

definition configure_tool :: "command_kind \<Rightarrow> arguments \<Rightarrow> tool \<Rightarrow> tool result" where
  "configure_tool k a st =
     bindr (parse_filters (arg_in_filter a)) (\<lambda>filters_in.
     bindr (parse_filters (arg_out_filter a)) (\<lambda>filters_out.
     let st1 = st\<lparr>input_tar := (if present (arg_in a) then arg_in a else None),
                   output_tar := (if present (arg_out a) then arg_out a else None),
                   mkdirs := or_empty (arg_mkdir a), implicit_output := \<not> arg_no_implicit a,
                   explicit_output := arg_explicit a, input_filters := filters_in,
                   output_filters := filters_out, no_defaults := arg_no_defaults a\<rparr>
     in if present (input_tar st1) \<and> present (input_filters st1)
        then Inl (ExitsWith ''Cannot specify input filters with input tar file'')
        else Inr (st1\<lparr>create_image := arg_create_image a,
                      entrypoint := (if k \<noteq> ShellCommand then arg_entrypoint a else Some ''''),
                      network_mode := arg_network a, user := arg_user a, cap_add := arg_cap_add a,
                      cap_drop := arg_cap_drop a, runtime := arg_runtime a,
                      is_tty := (if k \<noteq> ShellCommand then arg_tty a else True),
                      read_stdin := (if k \<noteq> ShellCommand then arg_interactive a else True)\<rparr>)))"

text \<open>The tool as the check sees it: with another entry point, and its run a step on the host.\<close>

definition tool_as_step :: "'s environment \<Rightarrow> tool \<Rightarrow> string list \<Rightarrow> command_log step" where
  "tool_as_step env st args h =
     (case run env args (st\<lparr>entrypoint := Some ''/usr/bin/env'', files := h\<rparr>) of (r, st') \<Rightarrow> (r, files st'))"

text \<open>What \<^verbatim>\<open>test\<close> says of the image before the check; a date that cannot be read ends the command.\<close>

definition get_creation_time :: "'s environment \<Rightarrow> datetime result" where
  "get_creation_time env =
     (case image_created env of None \<Rightarrow> Inl KeyError | Some s \<Rightarrow> parse_file_time env s)"

definition image_line :: "'s environment \<Rightarrow> string result" where
  "image_line env =
     bindr (get_creation_time env) (\<lambda>t.
     bindr (format_time env t) (\<lambda>s.
     Inr (''# '' @ joined '','' (image_tags env) @ '' '' @ s)))"

definition run_command ::
  "'s environment \<Rightarrow> command_kind \<Rightarrow> arguments \<Rightarrow> tool \<Rightarrow> command_log result \<times> host" where
  "run_command env k a st =
     (let all_args = tl (tool_args a)
      in case k of
           TestCommand \<Rightarrow>
             (case image_line env of
                Inl e \<Rightarrow> (Inl e, files st)
              | Inr line \<Rightarrow> run_check (clock env 0) (tool_as_step env st) all_args (files st))
         | ShellCommand \<Rightarrow> (case run env all_args (st\<lparr>shell := arg_shell a\<rparr>) of (r, st') \<Rightarrow> (r, files st'))
         | RunCommand \<Rightarrow> (case run env all_args st of (r, st') \<Rightarrow> (r, files st')))"

section \<open>The command\<close>

text \<open>
  The home directory and the clock of the log of commands; \<open>json_depth\<close> bounds the scanner of the
  configuration file.
\<close>

record log_place =
  home :: ppath
  uuid :: string
  json_depth :: nat
  log_clock :: "nat \<Rightarrow> datetime"
  write_time :: int

definition keep_log :: "log_place \<Rightarrow> command_log \<Rightarrow> (host, unit) action" where
  "keep_log w log =
     and_then (open_log (write_time w) (home w) (uuid w) None) (\<lambda>dir.
       attempt (\<lambda>h. case write_log (log_clock w) (write_time w) dir log h of
                      None \<Rightarrow> Inl Diverges
                    | Some r \<Rightarrow> r))"

text \<open>What the log writes for one command: directories, the id of the user and the entry.\<close>

definition log_node :: "log_place \<Rightarrow> command_log \<Rightarrow> node \<Rightarrow> bool" where
  "log_node w log n \<longleftrightarrow>
     n \<in> {DirNode (write_time w), FileNode (encode_text (uuid w)) (write_time w),
          FileNode (json_dump (to_json log)) (write_time w)}"

record ending =
  raised :: py_error
  left_host :: host
  to_stdout :: bytes
  to_stderr :: bytes

definition stopped :: "py_error \<Rightarrow> host \<Rightarrow> ending" where
  "stopped e h = \<lparr>raised = e, left_host = h, to_stdout = [], to_stderr = []\<rparr>"

definition finish :: "configuration \<Rightarrow> log_place \<Rightarrow> command_log \<Rightarrow> host \<Rightarrow> ending" where
  "finish conf w log h =
     (case (if exit_code log = 0 \<and> is_command_log conf then keep_log w log h else (Inr (), h)) of
        (Inl e, h') \<Rightarrow> stopped e h'
      | (Inr u, h') \<Rightarrow>
          \<lparr>raised = Exits (exit_code log), left_host = h', to_stdout = log_stdout log, to_stderr = log_stderr log\<rparr>)"

text \<open>
  \<open>constr\<close> is the constructor of the tool: \<^verbatim>\<open>new_tool\<close> of \<^verbatim>\<open>Tool_Setup\<close> and \<^verbatim>\<open>fresh_tool\<close>, after the
  configuration has been read.
\<close>

definition configuration_of :: "log_place \<Rightarrow> host \<Rightarrow> configuration result" where
  "configuration_of w h =
     load_configuration (json_depth w) h
       (join_path (join_path (home w) (parse_path ''.cincan'')) (parse_path ''config.json''))"

definition make_tool ::
  "(configuration \<Rightarrow> nat \<Rightarrow> string option \<Rightarrow> string option \<Rightarrow> string option \<Rightarrow> bool \<Rightarrow> string option \<Rightarrow> bool \<Rightarrow>
      ('d fetch_state, 'i tool_base) action) \<Rightarrow> ('i \<Rightarrow> string list option \<times> string list option) \<Rightarrow>
   termios \<Rightarrow> configuration \<Rightarrow> arguments \<Rightarrow> host \<Rightarrow> ('d fetch_state, tool) action" where
  "make_tool new config_of t conf a h =
     and_then
       (let name = hd (tool_args a); level = level_number (log_level a)
        in case arg_path a of
             None \<Rightarrow> new conf level (Some name) None (Some name) (arg_pull a) None (arg_batch a)
           | Some p \<Rightarrow> new conf level (Some name) (Some p) None False None (arg_batch a))
       (\<lambda>b. give (fresh_tool conf config_of b t h))"

definition main_tool ::
  "(configuration \<Rightarrow> arguments \<Rightarrow> host \<Rightarrow> ('f, tool) action) \<Rightarrow> 's environment \<Rightarrow> log_place \<Rightarrow>
   command_kind \<Rightarrow> arguments \<Rightarrow> host \<Rightarrow> 'f \<Rightarrow> ending" where
  "main_tool constr env w k a h f =
     (if tool_args a = [] then stopped (ExitsWith ''Missing tool name argument'') h
      else
        case configuration_of w h of
          Inl e \<Rightarrow> stopped e h
        | Inr conf \<Rightarrow>
            (case fst (constr conf a h f) of
               Inl e \<Rightarrow> stopped e h
             | Inr st \<Rightarrow>
                 (case configure_tool k a st of
                    Inl e \<Rightarrow> stopped e h
                  | Inr st1 \<Rightarrow>
                      (case run_command env k a st1 of
                         (Inl e, h') \<Rightarrow> stopped e h'
                       | (Inr log, h') \<Rightarrow> finish conf w log h'))))"

text \<open>\<^verbatim>\<open>manifest\<close>: the name and the tag that the registry is asked for.\<close>

definition manifest_target :: "configuration result \<Rightarrow> string list \<Rightarrow> string list result" where
  "manifest_target loaded_conf args =
     (case args of
        [] \<Rightarrow> Inl (ExitsWith ''Missing tool name argument'')
      | name # _ \<Rightarrow>
          bindr loaded_conf (\<lambda>conf.
          Inr (if CHR '':'' \<in> set name then rsplit_once (CHR '':'') name
               else [name, default_stable_tag conf])))"

section \<open>What a command does\<close>

lemma configure_keeps: "configure_tool k a st = Inr st1 \<Longrightarrow> files st1 = files st"
  by (auto simp: configure_tool_def Let_def elim!: bindrE split: if_splits)

lemma make_tool_files: "make_tool new config_of t conf a h f = (Inr st, f') \<Longrightarrow> files st = h"
  by (auto simp: make_tool_def fresh_tool_def Let_def elim!: and_then_Inr split: option.splits)

lemma run_command_failed:
  assumes "run_command env k a st = (Inr log, h')" and "k \<noteq> TestCommand" and "exit_code log \<noteq> 0"
  shows "h' = files st"
  using assms run_tool_failed [of env "tl (tool_args a)"]
  by (cases k) (fastforce simp: run_command_def run_def Let_def split: prod.splits)+

text \<open>The tool keeps what the check expects of it.\<close>

interpretation tool_runner: command_runner "tool_as_step env st" for env :: "'s environment" and st
proof
  fix args h log h' assume "tool_as_step env st args h = (Inr log, h')" and "exit_code log \<noteq> 0"
  then show "h' = h"
    using run_tool_failed [of env args] by (fastforce simp: tool_as_step_def run_def split: prod.splits)
qed

text \<open>C22: \<^verbatim>\<open>cincan test\<close> of a tool that fails leaves every file as it was, but for the places of the check
  itself, which are empty.\<close>

theorem failed_test_leaves_host:
  assumes "run_command env TestCommand a st = (Inr log, h')" and "exit_code log \<noteq> 0"
  shows "cwd h' = cwd (files st) \<and>
    (\<forall>l. node_at h' l = (if l \<in> check_places (files st) then None else node_at (files st) l))"
  using assms by (intro tool_runner.failed_check_restores) (simp_all add: run_command_def split: sum.splits)

text \<open>C2: A tool run by \<^verbatim>\<open>cincan run\<close> or \<^verbatim>\<open>cincan shell\<close> that fails ends the program with its own exit
  code and its own output, and leaves every file of the host as it was; it is not logged.\<close>

theorem failing_command_leaves_host:
  assumes "tool_args a \<noteq> []" and "k \<noteq> TestCommand"
    and "configuration_of w h = Inr conf" and "make_tool new config_of t conf a h f = (Inr st, f')"
    and "configure_tool k a st = Inr st1" and "run_command env k a st1 = (Inr log, h')" and "exit_code log \<noteq> 0"
  shows "main_tool (make_tool new config_of t) env w k a h f =
    \<lparr>raised = Exits (exit_code log), left_host = h, to_stdout = log_stdout log, to_stderr = log_stderr log\<rparr>"
proof -
  have "h' = h"
    using run_command_failed [OF assms(6,2,7)] configure_keeps [OF assms(5)] make_tool_files [OF assms(4)] by simp
  with assms show ?thesis by (simp add: main_tool_def finish_def)
qed

text \<open>C31: A successful command is logged when the configuration asks for it: one new file of the log
  directory holds the entry, and every other node is as opening the log has left it.\<close>

theorem successful_command_is_logged:
  assumes "is_command_log conf" and "exit_code log = 0" and "keep_log w log h = (Inr u, h')"
  shows "raised (finish conf w log h) = Exits 0 \<and> left_host (finish conf w log h) = h' \<and>
    (\<exists>dir h1 p l. open_log (write_time w) (home w) (uuid w) None h = (Inr dir, h1) \<and>
       free_log_file (log_clock w) 0 dir h1 = Some p \<and> locate h1 p = Inr l \<and> node_at h1 l = None \<and>
       node_at h' = (node_at h1)(l \<mapsto> FileNode (json_dump (to_json log)) (write_time w)))"
proof -
  from assms(3) obtain dir h1 where o: "open_log (write_time w) (home w) (uuid w) None h = (Inr dir, h1)"
    and wl: "write_log (log_clock w) (write_time w) dir log h1 = Some (Inr h')"
    by (auto simp: keep_log_def elim!: and_then_Inr split: option.splits)
  from o write_log_adds [OF wl] assms show ?thesis by (auto simp: finish_def)
qed

lemma keep_log_only_adds: "only_adds (log_node w log) h (snd (keep_log w log h))"
proof -
  have "keeps (only_adds (log_node w log) h) (keep_log w log)"
    unfolding keep_log_def
    by (intro keeps_and_then open_log_only_adds keeps_attempt)
      (auto simp: log_node_def split: option.splits dest!: write_log_only_adds
        intro: only_adds_trans [OF _ only_adds_mono])
  from keeps_apply [OF this] show ?thesis by simp
qed

text \<open>\<^verbatim>\<open>cincan test\<close> that gives a report leaves none of the files and directories of the check
  behind, with the model of the tool itself in place of an arbitrary one.\<close>

theorem test_command_cleans_up:
  assumes "run_command env TestCommand a st = (Inr log, h')"
  shows "\<not> path_exists h' in_dir \<and> \<not> path_exists h' in_file \<and> \<not> path_exists h' out_dir \<and>
    \<not> path_exists h' out_file"
  using assms run_check_gone by (simp add: run_command_def split: sum.splits)

text \<open>Input filters with an input archive are refused, but only after the image has been fetched or
  built: the state of the daemon is the one the constructor leaves, and nothing is run.\<close>

theorem filters_with_archive_refused:
  assumes "tool_args a \<noteq> []" and "present (arg_in a)" and "present (arg_in_filter a)"
    and "None \<notin> set (or_empty (arg_in_filter a)) \<union> set (or_empty (arg_out_filter a))"
    and "configuration_of w h = Inr conf" and "constr conf a h f = (Inr st, f')"
  shows "main_tool constr env w k a h f =
    stopped (ExitsWith ''Cannot specify input filters with input tar file'') h"
proof -
  from assms(3,4) obtain ms where "parse_filters (arg_in_filter a) = Inr (Some ms)" "ms \<noteq> []"
    by (auto simp: present_def parse_filters_def parse_matchers_def or_empty_def)
  moreover from assms(4) obtain ns where "parse_filters (arg_out_filter a) = Inr ns"
    by (cases "arg_out_filter a") (auto simp: parse_filters_def or_empty_def)
  moreover have "present (Some ms)" using calculation(2) by (simp add: present_def)
  ultimately show ?thesis using assms by (simp add: main_tool_def configure_tool_def Let_def)
qed

section \<open>Examples\<close>

definition demo_args :: "string list \<Rightarrow> arguments" where
  "demo_args ts =
     \<lparr>tool_args = ts, arg_path = None, arg_pull = False, arg_batch = True, arg_quiet = False,
      arg_log_level = None, arg_in = None, arg_out = None, arg_in_filter = None, arg_out_filter = None,
      arg_mkdir = None, arg_no_defaults = False, arg_no_implicit = False, arg_explicit = None,
      arg_create_image = False, arg_network = None, arg_user = None, arg_cap_add = None, arg_cap_drop = None,
      arg_runtime = None, arg_entrypoint = None, arg_interactive = False, arg_tty = False, arg_shell = ''/bin/bash''\<rparr>"

text \<open>The constructor over the example daemon: the image is there and is not pulled.\<close>

definition demo_new ::
  "configuration \<Rightarrow> nat \<Rightarrow> string option \<Rightarrow> string option \<Rightarrow> string option \<Rightarrow> bool \<Rightarrow> string option \<Rightarrow> bool \<Rightarrow>
   (string list fetch_state, string tool_base) action" where
  "demo_new conf level name build_path img pull tag batch =
     new_tool conf demo_registry True (\<lambda>p t. Inl OSError)
       (get_image 2 (demo_api []) (demo_fetcher False)) (\<lambda>n i. Inr []) level name build_path img pull tag batch"

definition demo_make :: "configuration \<Rightarrow> arguments \<Rightarrow> host \<Rightarrow> (string list fetch_state, tool) action" where
  "demo_make = make_tool demo_new (\<lambda>i. (None, Some [''sh''])) demo_terminal"

abbreviation local_busybox :: "string list fetch_state" where
  "local_busybox \<equiv> no_screen [''busybox:latest'']"

definition demo_place :: log_place where
  "demo_place = \<lparr>home = PPath ''/'' [], uuid = ''u'', json_depth = 9, log_clock = (\<lambda>k. DateTime 1 1 1 0 0 0 0),
     write_time = 5\<rparr>"

definition logging :: configuration where
  "logging = default_configuration\<lparr>settings := [(''command_log'', JBool True)]\<rparr>"

abbreviation cat_args :: arguments where
  "cat_args \<equiv> demo_args [''busybox'', ''cat'', ''d/f'']"

definition demo_made :: "tool result \<times> string list fetch_state" where
  "demo_made = demo_make default_configuration cat_args tool_host local_busybox"

definition demo_configured :: "tool result" where
  "demo_configured = configure_tool RunCommand cat_args (projr (fst demo_made))"

definition demo_command :: "command_log result \<times> host" where
  "demo_command = run_command (demo_env hello two_polls 3) RunCommand cat_args (projr demo_configured)"

lemma example_configuration: "configuration_of demo_place tool_host = Inr default_configuration"
  by code_simp

lemma demo_steps:
  "demo_made = (Inr (projr (fst demo_made)), snd demo_made)"
  "demo_configured = Inr (projr demo_configured)"
  "demo_command = (Inr (projr (fst demo_command)), snd demo_command)"
  "exit_code (projr (fst demo_command)) = 3"
  by code_simp+

theorem failing_command_leaves_host_witness:
  "raised (main_tool (make_tool demo_new (\<lambda>i. (None, Some [''sh''])) demo_terminal)
      (demo_env hello two_polls 3) demo_place RunCommand cat_args tool_host local_busybox) = Exits 3 \<and>
   left_host (main_tool (make_tool demo_new (\<lambda>i. (None, Some [''sh''])) demo_terminal)
      (demo_env hello two_polls 3) demo_place RunCommand cat_args tool_host local_busybox) = tool_host"
proof -
  have args: "tool_args cat_args \<noteq> []" by (simp add: demo_args_def)
  have code: "exit_code (projr (fst demo_command)) \<noteq> 0" by (simp add: demo_steps(4))
  have made': "make_tool demo_new (\<lambda>i. (None, Some [''sh''])) demo_terminal default_configuration cat_args tool_host local_busybox =
      (Inr (projr (fst demo_made)), snd demo_made)"
    using demo_steps(1) by (simp add: demo_made_def demo_make_def)
  have conf: "configure_tool RunCommand cat_args (projr (fst demo_made)) = Inr (projr demo_configured)"
    using demo_steps(2) by (simp add: demo_configured_def)
  have ran: "run_command (demo_env hello two_polls 3) RunCommand cat_args (projr demo_configured) =
      (Inr (projr (fst demo_command)), snd demo_command)"
    using demo_steps(3) by (simp add: demo_command_def)
  from failing_command_leaves_host [OF args _ example_configuration made' conf ran code] demo_steps(4)
  show ?thesis by simp
qed

definition log_host :: host where
  "log_host = \<lparr>cwd = [], tree = [([''.cincan''], DirNode 0)]\<rparr>"

theorem successful_command_is_logged_witness:
  "raised (finish logging demo_place empty_log log_host) = Exits 0 \<and>
   (\<exists>l. node_at (left_host (finish logging demo_place empty_log log_host)) l = Some (FileNode (json_dump (to_json empty_log)) 5))"
proof -
  let ?k = "keep_log demo_place empty_log log_host"
  have k: "?k = (Inr (), snd ?k)" and c: "is_command_log logging" "exit_code empty_log = 0" by code_simp+
  from successful_command_is_logged [OF c k] obtain l h1 where
    "raised (finish logging demo_place empty_log log_host) = Exits 0"
    and "left_host (finish logging demo_place empty_log log_host) = snd ?k"
    and "node_at (snd ?k) = (node_at h1)(l \<mapsto> FileNode (json_dump (to_json empty_log)) (write_time demo_place))"
    by blast
  then show ?thesis by (auto simp: demo_place_def)
qed

definition test_env :: "bytes list environment" where
  "test_env = (demo_env hello two_polls 0)\<lparr>a_container :=
     \<lparr>diff_paths = [Some ''/w/cincan-out/cincan.txt''],
      get_archive = (\<lambda>p. if p = ''/w/''
        then Inr [\<lparr>member_name = ''w/cincan-out/cincan.txt'', member_kind = RegularMember, member_size = 14,
                   member_mtime = 3, member_mode = 511, member_data = encode_text test_string\<rparr>]
        else Inl DockerNotFound),
      working_dir = Some ''/w''\<rparr>\<rparr>"

definition demo_test :: "command_log result \<times> host" where
  "demo_test = run_command test_env TestCommand (demo_args [''busybox'']) (demo_tool '''')"

theorem test_command_cleans_up_witness:
  "suffix (encode_text (''Test pass'' @ [CHR 0x0A])) (log_stdout (projr (fst demo_test))) \<and>
   \<not> path_exists (snd demo_test) in_dir \<and> \<not> path_exists (snd demo_test) out_file"
proof -
  have "demo_test = (Inr (projr (fst demo_test)), snd demo_test)" by code_simp
  from test_command_cleans_up [OF this [unfolded demo_test_def]]
  have "\<not> path_exists (snd demo_test) in_dir \<and> \<not> path_exists (snd demo_test) out_file"
    by (simp add: demo_test_def)
  moreover have "suffix (encode_text (''Test pass'' @ [CHR 0x0A])) (log_stdout (projr (fst demo_test)))"
    by code_simp
  ultimately show ?thesis by simp
qed

definition demo_failed_test :: "command_log result \<times> host" where
  "demo_failed_test = run_command (demo_env hello two_polls 3) TestCommand (demo_args [''busybox'']) (demo_tool '''')"

theorem failed_test_leaves_host_witness:
  "node_at (snd demo_failed_test) [''h'', ''d'', ''f''] = Some (FileNode [4] 0)"
proof -
  have r: "demo_failed_test = (Inr (projr (fst demo_failed_test)), snd demo_failed_test)"
    and c: "exit_code (projr (fst demo_failed_test)) \<noteq> 0"
    and n: "node_at (files (demo_tool '''')) [''h'', ''d'', ''f''] = Some (FileNode [4] 0)"
    by code_simp+
  have "[''h'', ''d'', ''f''] \<notin> check_places (files (demo_tool ''''))"
    by (simp add: check_places_def place_of_def demo_tool_def tool_host_def)
  with failed_test_leaves_host [OF r [unfolded demo_failed_test_def] c [unfolded demo_failed_test_def]] n show ?thesis
    by (simp add: demo_failed_test_def)
qed

theorem filters_with_archive_refused_witness:
  "raised (main_tool demo_make (demo_env hello two_polls 3) demo_place RunCommand
     (cat_args\<lparr>arg_in := Some ''x.tar'', arg_in_filter := Some [Some ''*'']\<rparr>) tool_host local_busybox) =
   ExitsWith ''Cannot specify input filters with input tar file''"
proof -
  let ?a = "cat_args\<lparr>arg_in := Some ''x.tar'', arg_in_filter := Some [Some ''*'']\<rparr>"
  let ?m = "demo_make default_configuration ?a tool_host local_busybox"
  have "tool_args ?a \<noteq> []" "present (arg_in ?a)" "present (arg_in_filter ?a)"
    "None \<notin> set (or_empty (arg_in_filter ?a)) \<union> set (or_empty (arg_out_filter ?a))"
    by code_simp+
  note refused = filters_with_archive_refused [where constr = demo_make, OF this example_configuration]
  have "?m = (Inr (projr (fst ?m)), snd ?m)" by code_simp
  note stops = refused [OF this]
  show ?thesis by (simp only: stops stopped_def ending.simps)
qed

end
