(* ===== verification/Command_Line.thy ===== *)
theory Command_Line
  imports Arg_Parser Front_End
begin

text \<open>
  \<^verbatim>\<open>image_default_args\<close>, \<^verbatim>\<open>get_version_information\<close> and \<^verbatim>\<open>main\<close> of \<^verbatim>\<open>cincan/frontend.py\<close>: the options
  of the program and of its commands, from the strings of the command line to the exit code.  The
  command \<^verbatim>\<open>list\<close> (its options and its handler), the manifests of the registry and the installed
  version come from other packages and are parameters.
\<close>

section \<open>The options\<close>

definition help_option :: option_spec where
  "help_option = \<lparr>opt_names = [''-h'', ''--help''], opt_dest = ''help'', opt_arity = NoValue,
     opt_effect = ShowHelp, opt_choices = None, opt_default = VNone\<rparr>"

definition flag_option :: "string list \<Rightarrow> string \<Rightarrow> option_spec" where
  "flag_option ns d = \<lparr>opt_names = ns, opt_dest = d, opt_arity = NoValue, opt_effect = SetTrue,
     opt_choices = None, opt_default = VBool False\<rparr>"

definition text_option :: "string list \<Rightarrow> string \<Rightarrow> option_spec" where
  "text_option ns d = \<lparr>opt_names = ns, opt_dest = d, opt_arity = MaybeValue, opt_effect = SetValue,
     opt_choices = None, opt_default = VNone\<rparr>"

definition list_option :: "string list \<Rightarrow> string \<Rightarrow> option_spec" where
  "list_option ns d = \<lparr>opt_names = ns, opt_dest = d, opt_arity = MaybeValue, opt_effect = AppendValue,
     opt_choices = None, opt_default = VNone\<rparr>"

definition path_option :: option_spec where
  "path_option = (text_option [''-p'', ''--path''] ''path'')\<lparr>opt_arity := OneValue\<rparr>"

definition image_default_args :: "string \<Rightarrow> option_spec list" where
  "image_default_args prog =
     [help_option,
      path_option,
      flag_option [''-u'', ''--pull''] ''pull'',
      text_option [''--in''] ''input_tar'',
      text_option [''--out''] ''output_tar'',
      list_option [''-I'', ''--in-filter''] ''in_filter'',
      list_option [''-O'', ''--out-filter''] ''out_filter'',
      list_option [''-d'', ''--mkdir''] ''output_dir'',
      flag_option [''--no-defaults''] ''no_defaults'',
      flag_option [''-M'', ''--no-implicit-output''] ''no_implicit_output'',
      list_option [''-e'', ''--explicit-output''] ''explicit_output'',
      flag_option [''--create-image'', ''-c''] ''create_image'',
      text_option [''--network''] ''network'',
      text_option [''--user''] ''user'',
      list_option [''--cap-add''] ''cap_add'',
      list_option [''--cap-drop''] ''cap_drop'',
      text_option [''--runtime''] ''runtime''] @
     (if \<not> endswith prog ''shell''
      then [text_option [''--entrypoint''] ''entrypoint'',
            flag_option [''-i'', ''--interactive''] ''interactive'',
            flag_option [''-t'', ''--tty''] ''tty'']
      else [])"

definition shell_option :: option_spec where
  "shell_option = (text_option [''-s'', ''--shell''] ''shell'')\<lparr>opt_default := VText ''/bin/bash''\<rparr>"

definition main_options :: "option_spec list" where
  "main_options =
     [help_option,
      (text_option [''-l'', ''--log''] ''log_level'')
        \<lparr>opt_arity := OneValue, opt_choices := Some [''DEBUG'', ''INFO'', ''WARNING'', ''ERROR'', ''CRITICAL'']\<rparr>,
      flag_option [''--batch''] ''batch'',
      flag_option [''-q'', ''--quiet''] ''quiet'',
      flag_option [''-v'', ''--version''] ''version'']"

section \<open>Parsing\<close>

type_synonym sub_parser = "string list \<Rightarrow> (namespace \<times> string list) result"

definition sub_options :: "string \<Rightarrow> option_spec list" where
  "sub_options name = image_default_args name @ (if name = ''shell'' then [shell_option] else [])"

definition image_commands :: "string list" where
  "image_commands = [''run'', ''test'', ''shell'', ''manifest'']"

definition find_parser :: "sub_parser \<Rightarrow> string \<Rightarrow> sub_parser option" where
  "find_parser parse_list name =
     (if name \<in> set image_commands then Some (parse_known (sub_options name) (Some ''tool''))
      else if name = ''list'' then Some parse_list
      else if name = ''help'' then Some (parse_known [help_option] None)
      else None)"

definition merge :: "namespace \<Rightarrow> namespace \<Rightarrow> namespace" where
  "merge ns sub = fold (\<lambda>(k, v) n. dict_put k v n) sub ns"

definition parse_command_line :: "sub_parser \<Rightarrow> string list \<Rightarrow> namespace result" where
  "parse_command_line parse_list argv =
     (let args = (if argv = [] then [''help''] else argv)
      in bindr (classify main_options args) (\<lambda>ts.
         bindr (parse_options main_options True ts (start_namespace main_options) []) (\<lambda>(ns, extras, rest).
         case rest of
           [] \<Rightarrow> if extras = [] then Inr (dict_put ''sub_command'' VNone ns) else Inl (Exits 2)
         | name # ss \<Rightarrow>
             (case find_parser parse_list name of
                None \<Rightarrow> Inl (Exits 2)
              | Some parse \<Rightarrow>
                  bindr (parse ss) (\<lambda>(sub, left).
                  if extras = [] \<and> left = [] then Inr (merge (dict_put ''sub_command'' (VText name) ns) sub)
                  else Inl (Exits 2))))))"

section \<open>The main program\<close>

definition text_arg :: "namespace \<Rightarrow> string \<Rightarrow> string option" where
  "text_arg ns d = (case dict_get ns d of Some (VText s) \<Rightarrow> Some s | _ \<Rightarrow> None)"

definition flag_arg :: "namespace \<Rightarrow> string \<Rightarrow> bool" where
  "flag_arg ns d \<longleftrightarrow> dict_get ns d = Some (VBool True)"

definition list_arg :: "namespace \<Rightarrow> string \<Rightarrow> string option list option" where
  "list_arg ns d = (case dict_get ns d of Some (VList xs) \<Rightarrow> Some xs | _ \<Rightarrow> None)"

lemma list_arg_items: "or_empty (list_arg ns d) = items ns d"
  by (simp add: or_empty_def list_arg_def items_def split: option.split arg_value.split)

definition words_arg :: "namespace \<Rightarrow> string \<Rightarrow> string list" where
  "words_arg ns d = map the (or_empty (list_arg ns d))"

text \<open>
  The attributes that \<^verbatim>\<open>main\<close> reads.  An option that may be repeated and that is written without a
  value puts \<^verbatim>\<open>None\<close> into its list; the words of the tool are never \<^verbatim>\<open>None\<close>.
\<close>

definition arguments_of :: "namespace \<Rightarrow> arguments" where
  "arguments_of ns =
     \<lparr>tool_args = words_arg ns ''tool'', arg_path = text_arg ns ''path'', arg_pull = flag_arg ns ''pull'',
      arg_batch = flag_arg ns ''batch'', arg_quiet = flag_arg ns ''quiet'',
      arg_log_level = text_arg ns ''log_level'', arg_in = text_arg ns ''input_tar'',
      arg_out = text_arg ns ''output_tar'', arg_in_filter = list_arg ns ''in_filter'',
      arg_out_filter = list_arg ns ''out_filter'', arg_mkdir = list_arg ns ''output_dir'',
      arg_no_defaults = flag_arg ns ''no_defaults'', arg_no_implicit = flag_arg ns ''no_implicit_output'',
      arg_explicit = list_arg ns ''explicit_output'', arg_create_image = flag_arg ns ''create_image'',
      arg_network = text_arg ns ''network'', arg_user = text_arg ns ''user'',
      arg_cap_add = list_arg ns ''cap_add'', arg_cap_drop = list_arg ns ''cap_drop'',
      arg_runtime = text_arg ns ''runtime'', arg_entrypoint = text_arg ns ''entrypoint'',
      arg_interactive = flag_arg ns ''interactive'', arg_tty = flag_arg ns ''tty'',
      arg_shell = or_empty (text_arg ns ''shell'')\<rparr>"

text \<open>
  \<^verbatim>\<open>get_version_information\<close> (of \<^verbatim>\<open>frontend.py\<close>) and the printing of its result: \<open>installed\<close> is what the package manager says, if it knows the program; otherwise the version is
  read from a file.  The result is what is printed.
\<close>

definition strip :: "string \<Rightarrow> string" where
  "strip s = rev (dropWhile whitespace (rev (dropWhile whitespace s)))"

definition program_version :: "string option \<Rightarrow> string result \<Rightarrow> string result" where
  "program_version installed version_file =
     (case installed of
        Some version \<Rightarrow> Inr (version @ [CHR 0x0A])
      | None \<Rightarrow>
          bindr version_file (\<lambda>text.
          Inr (''Tool not installed. Showing version from file '' @ [CHR 39] @ ''VERSION'' @ [CHR 39] @ '':'' @ [CHR 0x0A] @
               ''cincan-command '' @ strip text @ [CHR 0x0A])))"

record outside =
  list_parser :: sub_parser
  list_handler :: "namespace \<Rightarrow> host \<Rightarrow> ending"
  fetch_manifest :: "string \<Rightarrow> string \<Rightarrow> string result"
  installed_version :: "string option"
  version_text :: "string result"
  help_text :: string

definition printed :: "int \<Rightarrow> string \<Rightarrow> host \<Rightarrow> ending" where
  "printed code s h = \<lparr>raised = Exits code, left_host = h, to_stdout = encode_text s, to_stderr = []\<rparr>"

definition print_result :: "string result \<Rightarrow> host \<Rightarrow> ending" where
  "print_result r h = (case r of Inl e \<Rightarrow> stopped e h | Inr s \<Rightarrow> printed 0 s h)"

definition show_manifest :: "outside \<Rightarrow> configuration result \<Rightarrow> string list \<Rightarrow> string result" where
  "show_manifest w conf args =
     bindr (manifest_target conf args) (\<lambda>nt.
     bindr (fetch_manifest w (hd nt) (last nt)) (\<lambda>info. Inr (info @ [CHR 0x0A])))"

definition kind_of :: "string \<Rightarrow> command_kind option" where
  "kind_of c =
     (if c = ''run'' then Some RunCommand else if c = ''test'' then Some TestCommand
      else if c = ''shell'' then Some ShellCommand else None)"

text \<open>
  The program returns after \<^verbatim>\<open>manifest\<close>, which is the exit code 0.  \<open>run_main\<close> is what \<^verbatim>\<open>main\<close> does
  with a tool.
\<close>

definition other_command :: "outside \<Rightarrow> configuration result \<Rightarrow> string option \<Rightarrow> namespace \<Rightarrow> host \<Rightarrow> ending" where
  "other_command w conf c ns h =
     (if c = Some ''manifest'' then print_result (show_manifest w conf (words_arg ns ''tool'')) h
      else if c = Some ''list'' then list_handler w ns h
      else stopped (ExitsWith (''Unexpected sub command '' @ [CHR 39] @ (case c of None \<Rightarrow> ''None'' | Some s \<Rightarrow> s))) h)"

definition dispatch ::
  "outside \<Rightarrow> configuration result \<Rightarrow> (command_kind \<Rightarrow> arguments \<Rightarrow> host \<Rightarrow> ending) \<Rightarrow> namespace \<Rightarrow> host \<Rightarrow>
   ending" where
  "dispatch w conf run_main ns h =
     (let sub_command = text_arg ns ''sub_command''
      in if flag_arg ns ''version''
         then print_result (program_version (installed_version w) (version_text w)) h
         else if sub_command = Some ''help'' then printed 1 (help_text w) h
         else
           case Option.bind sub_command kind_of of
             Some k \<Rightarrow> run_main k (arguments_of ns) h
           | None \<Rightarrow> other_command w conf sub_command ns h)"

definition main_program ::
  "outside \<Rightarrow> (configuration \<Rightarrow> arguments \<Rightarrow> host \<Rightarrow> ('f, tool) action) \<Rightarrow> 's environment \<Rightarrow> log_place \<Rightarrow>
   string list \<Rightarrow> host \<Rightarrow> 'f \<Rightarrow> ending" where
  "main_program w constr env place argv h f =
     (case parse_command_line (list_parser w) argv of
        Inl e \<Rightarrow> stopped e h
      | Inr ns \<Rightarrow>
          dispatch w (configuration_of place h) (\<lambda>k a h. main_tool constr env place k a h f) ns h)"

section \<open>The tables of options\<close>

lemma main_table: "well_formed main_options" "plain_names main_options"
  by code_simp+

lemma run_table: "well_formed (sub_options ''run'')" "plain_names (sub_options ''run'')"
  "''tool'' \<notin> opt_dest ` set (sub_options ''run'')" "''sub_command'' \<notin> opt_dest ` set (sub_options ''run'')"
  by code_simp+

lemma shell_table: "well_formed (sub_options ''shell'')" "plain_names (sub_options ''shell'')"
  "''tool'' \<notin> opt_dest ` set (sub_options ''shell'')" "''sub_command'' \<notin> opt_dest ` set (sub_options ''shell'')"
  by code_simp+

lemma sub_options_two:
  assumes "c \<in> set image_commands"
  shows "sub_options c = sub_options (if c = ''shell'' then ''shell'' else ''run'')"
  using assms by (auto simp: image_commands_def sub_options_def image_default_args_def suffix_def append_eq_Cons_conv)

lemma sub_table:
  assumes "c \<in> set image_commands"
  shows "well_formed (sub_options c)" and "plain_names (sub_options c)"
    and "''tool'' \<notin> opt_dest ` set (sub_options c)" and "''sub_command'' \<notin> opt_dest ` set (sub_options c)"
  unfolding sub_options_two [OF assms] using run_table shell_table by auto

text \<open>No destination of the main options is one of the options of a command, but for the help.\<close>

lemma tables_apart:
  assumes "c \<in> set image_commands" and "opt \<in> set main_options" and "opt_effect opt \<noteq> ShowHelp"
  shows "opt_dest opt \<noteq> ''tool''" and "opt_dest opt \<notin> opt_dest ` set (sub_options c)" and "opt_dest opt \<noteq> ''sub_command''"
proof -
  have "list_all (\<lambda>opt. opt_effect opt = ShowHelp \<or> opt_dest opt \<notin> set (map opt_dest (sub_options k)) \<and>
      opt_dest opt \<noteq> ''tool'' \<and> opt_dest opt \<noteq> ''sub_command'') main_options" if "k \<in> {''run'', ''shell''}" for k
    using that by (elim insertE emptyE; simp only:) code_simp+
  then show "opt_dest opt \<noteq> ''tool''" and "opt_dest opt \<notin> opt_dest ` set (sub_options c)" and "opt_dest opt \<noteq> ''sub_command''"
    unfolding sub_options_two [OF assms(1)] using assms(2,3) by (auto simp: list_all_iff)
qed

section \<open>What the parser gives\<close>

lemma merge_get:
  assumes "distinct (map fst sub)"
  shows "dict_get (merge ns sub) k = (case dict_get sub k of None \<Rightarrow> dict_get ns k | Some v \<Rightarrow> Some v)"
proof -
  have "distinct (map fst sub) \<Longrightarrow> dict_get (fold (\<lambda>(k, v) n. dict_put k v n) sub ns) k =
      (case dict_get sub k of None \<Rightarrow> dict_get ns k | Some v \<Rightarrow> Some v)" for ns
  proof (induction sub arbitrary: ns)
    case (Cons x sub)
    obtain a v where x: "x = (a, v)" by (cases x)
    with Cons.prems have "dict_get sub a = None" by (simp add: map_of_eq_None_iff)
    with Cons x show ?case by (auto simp: update_conv' split: option.splits)
  qed simp
  with assms show ?thesis by (simp add: merge_def)
qed

lemma merge_none: "dict_get sub k = None \<Longrightarrow> dict_get (merge ns sub) k = dict_get ns k"
proof -
  assume "dict_get sub k = None"
  then have "dict_get (fold (\<lambda>(k, v) n. dict_put k v n) sub ns) k = dict_get ns k"
    by (induction sub arbitrary: ns) (auto simp: update_conv' split: if_splits)
  then show ?thesis by (simp add: merge_def)
qed

text \<open>
  A parser of another package that does not touch the name of the command.
\<close>

definition leaves_command :: "sub_parser \<Rightarrow> bool" where
  "leaves_command p \<longleftrightarrow> (\<forall>ss sub left. p ss = Inr (sub, left) \<longrightarrow> dict_get sub ''sub_command'' = None)"

lemma parse_Inr:
  assumes "parse_command_line pl argv = Inr ns" and "leaves_command pl"
    and "text_arg ns ''sub_command'' = Some c" and "c \<in> set image_commands"
  obtains ns1 sub ss where "typed main_options ns1" and "behind_options main_options argv = c # ss"
    and "parse_known (sub_options c) (Some ''tool'') ss = Inr (sub, [])"
    and "ns = merge (dict_put ''sub_command'' (VText c) ns1) sub"
proof -
  let ?args = "if argv = [] then [''help''] else argv"
  from assms(1) obtain ts ns1 extras rest where ts: "classify main_options ?args = Inr ts"
    and p: "parse_options main_options True ts (start_namespace main_options) [] = Inr (ns1, extras, rest)"
    and r: "(case rest of
           [] \<Rightarrow> if extras = [] then Inr (dict_put ''sub_command'' VNone ns1) else Inl (Exits 2)
         | name # ss \<Rightarrow>
             (case find_parser pl name of
                None \<Rightarrow> Inl (Exits 2)
              | Some parse \<Rightarrow>
                  bindr (parse ss) (\<lambda>(sub, left).
                  if extras = [] \<and> left = [] then Inr (merge (dict_put ''sub_command'' (VText name) ns1) sub)
                  else Inl (Exits 2)))) = Inr ns"
    unfolding parse_command_line_def Let_def by (auto elim!: bindrE simp del: not_None_eq)
  have "rest \<noteq> []" using r assms(3) by (auto simp: text_arg_def update_conv' split: if_splits)
  then obtain name ss where rest: "rest = name # ss" by (cases rest) auto
  with r obtain parse sub where f: "find_parser pl name = Some parse" and sub: "parse ss = Inr (sub, [])"
    and ns: "ns = merge (dict_put ''sub_command'' (VText name) ns1) sub"
    by (auto split: option.splits if_splits elim!: bindrE)
  have "dict_get sub ''sub_command'' = None"
  proof (cases "name \<in> set image_commands")
    case True
    with f sub have "parse_known (sub_options name) (Some ''tool'') ss = Inr (sub, [])"
      by (simp add: find_parser_def)
    from parse_known_keys [OF this _ sub_table(4) [OF True]] show ?thesis by simp
  next
    case False
    show ?thesis
    proof (cases "name = ''list''")
      case True
      with f False have "parse = pl" by (simp add: find_parser_def)
      with assms(2) sub show ?thesis unfolding leaves_command_def by blast
    next
      case other: False
      with f False have "parse = parse_known [help_option] None" by (auto simp: find_parser_def split: if_splits)
      with sub parse_known_keys [of "[help_option]" None ss sub "[]" "''sub_command''"] show ?thesis
        by (simp add: help_option_def)
    qed
  qed
  then have "dict_get ns ''sub_command'' = Some (VText name)"
    using ns by (simp add: merge_none update_conv')
  with assms(3) have c: "c = name" by (simp add: text_arg_def)
  have "typed main_options ns1"
    by (rule parse_options_invariant [where P = "typed main_options", OF p classify_in [OF ts]])
      (rule start_typed [OF main_table(1)], rule take_action_typed [OF main_table(1)])
  moreover have "behind_options main_options argv = c # ss"
  proof -
    have "extras = []" using r rest f sub by (auto split: if_splits)
    from parse_options_behind [OF p [unfolded this] _ ts] rest c have "behind_options main_options ?args = c # ss" by simp
    moreover have "c \<noteq> ''help''" using assms(4) by (auto simp: image_commands_def)
    moreover have "behind_options main_options [''help''] = [''help'']"
      by (simp add: plain_word_def parse_optional_def dash_def)
    ultimately show ?thesis by (auto split: if_splits)
  qed
  moreover have "parse_known (sub_options c) (Some ''tool'') ss = Inr (sub, [])"
    using f sub c assms(4) by (simp add: find_parser_def)
  ultimately show thesis using that ns c by blast
qed

text \<open>The namespace of a command that uses an image.\<close>

lemma parse_typed:
  assumes "parse_command_line pl argv = Inr ns" and "leaves_command pl"
    and "text_arg ns ''sub_command'' = Some c" and "c \<in> set image_commands"
  shows "typed main_options ns \<and> typed (sub_options c) ns \<and>
    (\<exists>ss. behind_options main_options argv = c # ss \<and>
       dict_get ns ''tool'' = Some (VList (map Some (behind_options (sub_options c) ss))))"
proof -
  from assms obtain ns1 sub ss where main: "typed main_options ns1" and suf: "behind_options main_options argv = c # ss"
    and sub: "parse_known (sub_options c) (Some ''tool'') ss = Inr (sub, [])"
    and ns: "ns = merge (dict_put ''sub_command'' (VText c) ns1) sub" by (rule parse_Inr)
  note t = parse_known_typed [OF sub sub_table(1,3) [OF assms(4)]]
  have get: "dict_get ns k = (case dict_get sub k of
      None \<Rightarrow> if k = ''sub_command'' then Some (VText c) else dict_get ns1 k | Some v \<Rightarrow> Some v)" for k
    unfolding ns merge_get [OF t(2)] by (simp add: update_conv' split: option.split)
  have "dict_get ns (opt_dest opt) = dict_get ns1 (opt_dest opt)"
    if "opt \<in> set main_options" "opt_effect opt \<noteq> ShowHelp" for opt
    using parse_known_keys [OF sub, of "opt_dest opt"] tables_apart [OF assms(4) that] by (simp add: get)
  with main have "typed main_options ns" unfolding typed_def list_all_iff by metis
  moreover have "typed (sub_options c) ns"
    using t(1) by (auto simp: typed_def list_all_iff get split: option.splits)
  moreover have "dict_get ns ''tool'' = Some (VList (map Some (behind_options (sub_options c) ss)))"
    using parse_known_behind [OF sub] by (simp add: get)
  ultimately have "typed main_options ns \<and> typed (sub_options c) ns \<and> behind_options main_options argv = c # ss \<and>
      dict_get ns ''tool'' = Some (VList (map Some (behind_options (sub_options c) ss)))"
    using suf by blast
  then show ?thesis by blast
qed

section \<open>Properties of the command line\<close>

text \<open>The kinds of values that the program expects of the attributes it reads.\<close>

definition flag_value :: "namespace \<Rightarrow> string \<Rightarrow> bool" where
  "flag_value ns d \<longleftrightarrow> dict_get ns d \<in> {Some (VBool False), Some (VBool True)}"

definition text_value :: "namespace \<Rightarrow> string \<Rightarrow> bool" where
  "text_value ns d \<longleftrightarrow> dict_get ns d = Some VNone \<or> (\<exists>s. dict_get ns d = Some (VText s))"

definition list_value :: "namespace \<Rightarrow> string \<Rightarrow> bool" where
  "list_value ns d \<longleftrightarrow> dict_get ns d = Some VNone \<or> (\<exists>x xs. dict_get ns d = Some (VList (x # xs)))"

lemma fits_values:
  assumes "typed specs ns" and "opt \<in> set specs"
  shows "opt_effect opt = SetTrue \<Longrightarrow> flag_value ns (opt_dest opt)"
    and "opt_effect opt = SetValue \<Longrightarrow> text_value ns (opt_dest opt)"
    and "opt_effect opt = AppendValue \<Longrightarrow> list_value ns (opt_dest opt)"
proof -
  have fits: "\<exists>v. dict_get ns (opt_dest opt) = Some v \<and> fits opt v" if "opt_effect opt \<noteq> ShowHelp"
    using assms that by (auto simp: typed_def list_all_iff split: option.splits dest: bspec)
  show "flag_value ns (opt_dest opt)" if "opt_effect opt = SetTrue"
  proof -
    from fits that obtain v where v: "dict_get ns (opt_dest opt) = Some v" "fits opt v" by auto
    with that obtain b where "v = VBool b" by (cases v) (auto simp: fits_def)
    with v show ?thesis by (cases b) (simp_all add: flag_value_def)
  qed
  show "text_value ns (opt_dest opt)" if "opt_effect opt = SetValue"
  proof -
    from fits that obtain v where v: "dict_get ns (opt_dest opt) = Some v" "fits opt v" by auto
    with that show ?thesis by (cases v) (simp_all add: fits_def text_value_def)
  qed
  show "list_value ns (opt_dest opt)" if "opt_effect opt = AppendValue"
  proof -
    from fits that obtain v where v: "dict_get ns (opt_dest opt) = Some v" "fits opt v" by auto
    with that show ?thesis by (cases v) (auto simp: fits_def list_value_def neq_Nil_conv)
  qed
qed

definition takes_values :: "effect \<Rightarrow> string list \<Rightarrow> option_spec list \<Rightarrow> bool" where
  "takes_values k ds specs \<longleftrightarrow> list_all (\<lambda>d. list_ex (\<lambda>opt. opt_dest opt = d \<and> opt_effect opt = k) specs) ds"

lemma takes_values:
  assumes "typed specs ns"
  shows "takes_values SetTrue ds specs \<Longrightarrow> list_all (flag_value ns) ds"
    and "takes_values SetValue ds specs \<Longrightarrow> list_all (text_value ns) ds"
    and "takes_values AppendValue ds specs \<Longrightarrow> list_all (list_value ns) ds"
  using fits_values [OF assms] by (auto simp: takes_values_def list_all_iff list_ex_iff)

text \<open>
  C18: Every command line that is accepted for a command with an image gives every attribute that the
  program reads a value of the kind the program expects: a truth value for a flag, text or nothing
  for an option with one value (one of the five levels for the level of the log), a list that is not
  empty or nothing for an option that may be repeated, and the words of the tool.
\<close>

theorem command_line_typed:
  assumes "parse_command_line pl argv = Inr ns" and "leaves_command pl"
    and "text_arg ns ''sub_command'' = Some c" and "c \<in> set image_commands"
  shows "list_all (flag_value ns) [''version'', ''quiet'', ''batch'', ''pull'', ''no_defaults'',
      ''no_implicit_output'', ''create_image''] \<and>
    list_all (text_value ns) [''log_level'', ''path'', ''input_tar'', ''output_tar'', ''network'', ''user'', ''runtime''] \<and>
    list_all (list_value ns) [''in_filter'', ''out_filter'', ''output_dir'', ''explicit_output'', ''cap_add'', ''cap_drop''] \<and>
    (if c = ''shell'' then text_value ns ''shell''
     else text_value ns ''entrypoint'' \<and> flag_value ns ''interactive'' \<and> flag_value ns ''tty'') \<and>
    (\<forall>s. dict_get ns ''log_level'' = Some (VText s) \<longrightarrow> s \<in> {''DEBUG'', ''INFO'', ''WARNING'', ''ERROR'', ''CRITICAL''}) \<and>
    (\<exists>words. dict_get ns ''tool'' = Some (VList (map Some words)))"
proof -
  let ?sub = "sub_options (if c = ''shell'' then ''shell'' else ''run'')"
  note t = parse_typed [OF assms, unfolded sub_options_two [OF assms(4)]]
  then have m: "typed main_options ns" and u: "typed ?sub ns" by auto
  have main: "takes_values SetTrue [''version'', ''quiet'', ''batch''] main_options"
    "takes_values SetValue [''log_level''] main_options" by code_simp+
  have sub: "takes_values SetTrue [''pull'', ''no_defaults'', ''no_implicit_output'', ''create_image''] ?sub"
    "takes_values SetValue [''path'', ''input_tar'', ''output_tar'', ''network'', ''user'', ''runtime''] ?sub"
    "takes_values AppendValue [''in_filter'', ''out_filter'', ''output_dir'', ''explicit_output'', ''cap_add'', ''cap_drop''] ?sub"
    by (cases "c = ''shell''"; simp; code_simp)+
  have "if c = ''shell'' then takes_values SetValue [''shell''] ?sub
    else takes_values SetValue [''entrypoint''] ?sub \<and> takes_values SetTrue [''interactive'', ''tty''] ?sub"
    by (cases "c = ''shell''"; simp; code_simp)
  with takes_values(2) [OF u, of "[''shell'']"] takes_values(2) [OF u, of "[''entrypoint'']"]
    takes_values(1) [OF u, of "[''interactive'', ''tty'']"]
  have more: "if c = ''shell'' then text_value ns ''shell''
     else text_value ns ''entrypoint'' \<and> flag_value ns ''interactive'' \<and> flag_value ns ''tty''"
    by (auto split: if_splits)
  have "s \<in> {''DEBUG'', ''INFO'', ''WARNING'', ''ERROR'', ''CRITICAL''}" if "dict_get ns ''log_level'' = Some (VText s)" for s
    using m that
    by (auto simp: typed_def main_options_def fits_def text_option_def check_choice_def split: if_splits)
  with more t takes_values(1) [OF m main(1)] takes_values(2) [OF m main(2)] takes_values(1) [OF u sub(1)]
    takes_values(2) [OF u sub(2)] takes_values(3) [OF u sub(3)]
  show ?thesis by auto
qed

text \<open>
  C17: The words of the tool are exactly the arguments behind the options of the command and their
  values, whatever they look like: the command itself is the first argument behind the options of
  the program, and what follows the options of the command reaches the tool unchanged and in order.
\<close>

theorem tool_arguments_untouched:
  assumes "parse_command_line pl argv = Inr ns" and "leaves_command pl"
    and "text_arg ns ''sub_command'' = Some c" and "c \<in> set image_commands"
  shows "hd (behind_options main_options argv) = c \<and>
    tool_args (arguments_of ns) = behind_options (sub_options c) (tl (behind_options main_options argv))"
  using parse_typed [OF assms] by (auto simp: arguments_of_def words_arg_def list_arg_def or_empty_def comp_def)

text \<open>What is behind the options is the end of the arguments.\<close>

theorem behind_options_suffix: "suffix (behind_options specs ss) ss"
proof (induction specs ss rule: behind_options.induct)
  case (2 specs s ss)
  have "suffix (without_value specs ss) ss" by (auto simp: without_value_def suffix_ConsI split: list.split)
  with 2 show ?case
    by (auto split: sum.split intro: suffix_ConsI suffix_order.trans)
qed simp

text \<open>
  C40: An argument of the tool that could abbreviate two options of the program makes the whole
  command line fail, although everything behind the name of the tool belongs to the tool.
\<close>

theorem ambiguous_tool_argument_refused:
  assumes "c \<in> set image_commands" and "isl (parse_optional (sub_options c) s)" and "[dash, dash] \<notin> set (pre @ [s])"
  shows "parse_command_line pl (c # pre @ s # post) = Inl (Exits 2)"
proof -
  let ?argv = "c # pre @ s # post"
  have s: "s \<noteq> [dash, dash]" "[dash, dash] \<notin> set pre" using assms(3) by auto
  obtain e where "parse_optional (sub_options c) s = Inl e" using assms(2) by (cases "parse_optional (sub_options c) s") auto
  from classify_ambiguous [OF this s(2,1)] have "classify (sub_options c) (pre @ s # post) = Inl (Exits 2)" .
  then have sub: "parse_known (sub_options c) (Some ''tool'') (pre @ s # post) = Inl (Exits 2)"
    by (simp add: parse_known_def)
  have c: "c \<noteq> [dash, dash]" "parse_optional main_options c = Inr Positional"
    using assms(1) by (auto simp: image_commands_def parse_optional_def dash_def)
  show ?thesis
  proof (cases "classify main_options (pre @ s # post)")
    case (Inl e)
    with classify_error [OF this] c show ?thesis by (simp add: parse_command_line_def)
  next
    case (Inr ts)
    with c classify_args [OF Inr] sub assms(1) show ?thesis
      by (simp add: parse_command_line_def find_parser_def)
  qed
qed

section \<open>Command lines that are refused\<close>









text \<open>A parser for the command of the other package, for the examples: it refuses everything.\<close>

definition no_list :: sub_parser where
  "no_list ss = Inl (Exits 2)"

text \<open>
  An option that may be repeated, written without a value, is accepted, and then the program ends
  with an \<^verbatim>\<open>AttributeError\<close>, after the image has been fetched: \<^verbatim>\<open>FileMatcher.parse\<close> asks \<^verbatim>\<open>None\<close> for its
  first character.
\<close>

theorem filter_without_value_raises:
  assumes "parse_command_line (list_parser w) argv = Inr ns" and "\<not> flag_arg ns ''version''"
    and "text_arg ns ''sub_command'' = Some c" and "kind_of c = Some k" and "words_arg ns ''tool'' \<noteq> []"
    and "None \<in> set (items ns ''in_filter'') \<union> set (items ns ''out_filter'')"
    and "configuration_of place h = Inr conf" and "constr conf (arguments_of ns) h f = (Inr st, f')"
  shows "main_program w constr env place argv h f = stopped AttributeError h"
proof -
  let ?a = "arguments_of ns"
  have "None \<in> set (or_empty (arg_in_filter ?a)) \<union> set (or_empty (arg_out_filter ?a))"
    using assms(6) by (simp add: arguments_of_def list_arg_items)
  then have "configure_tool k ?a st = Inl AttributeError"
    by (cases "arg_in_filter ?a"; cases "arg_out_filter ?a")
      (auto simp: configure_tool_def parse_filters_def or_empty_def bindr_def)
  moreover have "tool_args ?a \<noteq> []" using assms(5) by (simp add: arguments_of_def)
  moreover have "c \<noteq> ''help''" using assms(4) by (auto simp: kind_of_def)
  ultimately show ?thesis
    using assms by (simp add: main_program_def dispatch_def main_tool_def)
qed

section \<open>Examples\<close>

lemma no_list_leaves: "leaves_command no_list"
  by (simp add: leaves_command_def no_list_def)

text \<open>A line with options before the tool and options that are the tool's.\<close>

abbreviation demo_line :: "string list" where
  "demo_line \<equiv> [''-q'', ''run'', ''-uI'', ''*.txt'', ''busybox'', ''cat'', ''--in'']"

definition demo_parsed :: namespace where
  "demo_parsed = projr (parse_command_line no_list demo_line)"

lemma demo_parses: "parse_command_line no_list demo_line = Inr demo_parsed"
  "text_arg demo_parsed ''sub_command'' = Some ''run''" "''run'' \<in> set image_commands"
  by code_simp+

theorem command_line_typed_witness:
  "flag_value demo_parsed ''pull'' \<and> list_value demo_parsed ''in_filter'' \<and> text_value demo_parsed ''runtime'' \<and>
   (\<exists>words. dict_get demo_parsed ''tool'' = Some (VList (map Some words)))"
  using command_line_typed [OF demo_parses(1) no_list_leaves demo_parses(2,3)] by simp

theorem tool_arguments_untouched_witness:
  "tool_args (arguments_of demo_parsed) = [''busybox'', ''cat'', ''--in'']"
proof -
  have "behind_options (sub_options ''run'') (tl (behind_options main_options demo_line)) = [''busybox'', ''cat'', ''--in'']"
    by code_simp
  with tool_arguments_untouched [OF demo_parses(1) no_list_leaves demo_parses(2,3)] show ?thesis by simp
qed

theorem ambiguous_tool_argument_refused_witness:
  "parse_command_line no_list [''run'', ''curl'', ''--ca'', ''cert''] = Inl (Exits 2)"
proof -
  have "isl (parse_optional (sub_options ''run'') ''--ca'')" and "[dash, dash] \<notin> set ([''curl''] @ [''--ca''])"
    by code_simp+
  from ambiguous_tool_argument_refused [OF demo_parses(3) this, of no_list "[''cert'']"] show ?thesis by simp
qed

definition demo_outside :: outside where
  "demo_outside = \<lparr>list_parser = no_list, list_handler = (\<lambda>ns h. printed 0 [] h), fetch_manifest = (\<lambda>n t. Inr n),
     installed_version = None, version_text = Inr ''1.0'', help_text = ''usage''\<rparr>"


definition bare_filter :: namespace where
  "bare_filter = projr (parse_command_line no_list [''run'', ''-I'', ''--no-defaults'', ''busybox''])"

theorem filter_without_value_raises_witness:
  "main_program demo_outside demo_make (demo_env hello two_polls 3) demo_place
     [''run'', ''-I'', ''--no-defaults'', ''busybox''] tool_host local_busybox = stopped AttributeError tool_host"
proof -
  let ?m = "demo_make default_configuration (arguments_of bare_filter) tool_host local_busybox"
  have p: "parse_command_line (list_parser demo_outside) [''run'', ''-I'', ''--no-defaults'', ''busybox''] = Inr bare_filter"
    and v: "\<not> flag_arg bare_filter ''version''" and c: "text_arg bare_filter ''sub_command'' = Some ''run''"
    and k: "kind_of ''run'' = Some RunCommand" and t: "words_arg bare_filter ''tool'' \<noteq> []"
    and n: "None \<in> set (items bare_filter ''in_filter'') \<union> set (items bare_filter ''out_filter'')"
    and m: "?m = (Inr (projr (fst ?m)), snd ?m)"
    by code_simp+
  show ?thesis by (rule filter_without_value_raises [where constr = demo_make, OF p v c k t n example_configuration m])
qed

end
