(* ===== verification/Command_Rendering.thy ===== *)
theory Command_Rendering
  imports Command_Line
begin

text \<open>
  Command lines written from arguments: the options in full, with their values after an equals sign, then
  the tool and its arguments.  What is written is read back, and so the commands of \<^verbatim>\<open>main\<close> can be
  reached with every combination of their options.
\<close>

section \<open>Writing a command line\<close>

text \<open>The options that stand for given arguments, each with the values of its occurrences.\<close>

definition once :: "string option \<Rightarrow> string option list" where
  "once v = (case v of None \<Rightarrow> [] | Some s \<Rightarrow> [Some s])"

definition switch :: "bool \<Rightarrow> string option list" where
  "switch b = (if b then [None] else [])"

definition each :: "string option list option \<Rightarrow> string option list" where
  "each v = (case v of None \<Rightarrow> [] | Some vs \<Rightarrow> map (\<lambda>x. Some (the x)) vs)"

definition main_fields :: "arguments \<Rightarrow> fields" where
  "main_fields a = [(''--log'', once (arg_log_level a)), (''--batch'', switch (arg_batch a)),
     (''--quiet'', switch (arg_quiet a))]"

definition image_fields :: "arguments \<Rightarrow> fields" where
  "image_fields a =
     [(''--path'', once (arg_path a)), (''--pull'', switch (arg_pull a)), (''--in'', once (arg_in a)),
      (''--out'', once (arg_out a)), (''--in-filter'', each (arg_in_filter a)),
      (''--out-filter'', each (arg_out_filter a)), (''--mkdir'', each (arg_mkdir a)),
      (''--no-defaults'', switch (arg_no_defaults a)), (''--no-implicit-output'', switch (arg_no_implicit a)),
      (''--explicit-output'', each (arg_explicit a)), (''--create-image'', switch (arg_create_image a)),
      (''--network'', once (arg_network a)), (''--user'', once (arg_user a)),
      (''--cap-add'', each (arg_cap_add a)), (''--cap-drop'', each (arg_cap_drop a)),
      (''--runtime'', once (arg_runtime a))]"

definition run_fields :: "arguments \<Rightarrow> fields" where
  "run_fields a = [(''--entrypoint'', once (arg_entrypoint a)), (''--interactive'', switch (arg_interactive a)),
     (''--tty'', switch (arg_tty a))]"

definition sub_fields :: "string \<Rightarrow> arguments \<Rightarrow> fields" where
  "sub_fields c a = image_fields a @ (if c = ''shell'' then [(''--shell'', [Some (arg_shell a)])] else run_fields a)"

definition render :: "string \<Rightarrow> arguments \<Rightarrow> string list" where
  "render c a =
     map show_setting (occurrences main_options (main_fields a)) @
     c # map show_setting (occurrences (sub_options c) (sub_fields c a)) @ tool_args a"

text \<open>
  Arguments that a command line can say: no empty lists and no missing values, a level of the choices, and for each command the
  options it has; arguments of the tool that the parsers can read, the first no option.
\<close>

definition sayable :: "string \<Rightarrow> arguments \<Rightarrow> bool" where
  "sayable c a \<longleftrightarrow>
     arg_log_level a \<in> {None, Some ''DEBUG'', Some ''INFO'', Some ''WARNING'', Some ''ERROR'', Some ''CRITICAL''} \<and>
     list_all (\<lambda>l. l \<noteq> Some [] \<and> None \<notin> set (or_empty l))
       [arg_in_filter a, arg_out_filter a, arg_mkdir a, arg_explicit a, arg_cap_add a, arg_cap_drop a] \<and>
     (if c = ''shell'' then arg_entrypoint a = None \<and> \<not> arg_interactive a \<and> \<not> arg_tty a else arg_shell a = []) \<and>
     list_all (\<lambda>s. s \<noteq> [dash, dash] \<and> readable main_options s \<and> readable (sub_options c) s) (tool_args a) \<and>
     (tool_args a = [] \<or> parse_optional (sub_options c) (hd (tool_args a)) = Inr Positional)"

subsection \<open>The settings are valid\<close>

text \<open>A row of a table of options: a name, what it sets, and how.\<close>

type_synonym row = "string \<times> string \<times> arity \<times> effect \<times> arg_value"

definition named :: "option_spec list \<Rightarrow> string \<Rightarrow> bool" where
  "named specs n \<longleftrightarrow> long_option n \<and> n \<noteq> [dash, dash] \<and> find_option specs n \<noteq> None"

definition describes :: "option_spec list \<Rightarrow> row \<Rightarrow> bool" where
  "describes specs r =
     (case r of (n, d, ar, ef, v) \<Rightarrow>
        let opt = option_of specs n
        in named specs n \<and> opt_dest opt = d \<and> opt_arity opt = ar \<and> opt_effect opt = ef \<and> opt_default opt = v)"

abbreviation image_rows :: "row list" where
  "image_rows \<equiv>
     [(''--path'', ''path'', OneValue, SetValue, VNone), (''--pull'', ''pull'', NoValue, SetTrue, VBool False),
      (''--in'', ''input_tar'', MaybeValue, SetValue, VNone), (''--out'', ''output_tar'', MaybeValue, SetValue, VNone),
      (''--in-filter'', ''in_filter'', MaybeValue, AppendValue, VNone),
      (''--out-filter'', ''out_filter'', MaybeValue, AppendValue, VNone),
      (''--mkdir'', ''output_dir'', MaybeValue, AppendValue, VNone),
      (''--no-defaults'', ''no_defaults'', NoValue, SetTrue, VBool False),
      (''--no-implicit-output'', ''no_implicit_output'', NoValue, SetTrue, VBool False),
      (''--explicit-output'', ''explicit_output'', MaybeValue, AppendValue, VNone),
      (''--create-image'', ''create_image'', NoValue, SetTrue, VBool False),
      (''--network'', ''network'', MaybeValue, SetValue, VNone), (''--user'', ''user'', MaybeValue, SetValue, VNone),
      (''--cap-add'', ''cap_add'', MaybeValue, AppendValue, VNone),
      (''--cap-drop'', ''cap_drop'', MaybeValue, AppendValue, VNone),
      (''--runtime'', ''runtime'', MaybeValue, SetValue, VNone)]"

abbreviation run_rows :: "row list" where
  "run_rows \<equiv>
     [(''--entrypoint'', ''entrypoint'', MaybeValue, SetValue, VNone),
      (''--interactive'', ''interactive'', NoValue, SetTrue, VBool False),
      (''--tty'', ''tty'', NoValue, SetTrue, VBool False)]"

abbreviation shell_row :: row where
  "shell_row \<equiv> (''--shell'', ''shell'', MaybeValue, SetValue, VText ''/bin/bash'')"

abbreviation main_rows :: "row list" where
  "main_rows \<equiv>
     [(''--log'', ''log_level'', OneValue, SetValue, VNone), (''--batch'', ''batch'', NoValue, SetTrue, VBool False),
      (''--quiet'', ''quiet'', NoValue, SetTrue, VBool False)]"

definition sub_rows :: "string \<Rightarrow> row list" where
  "sub_rows c = image_rows @ (if c = ''shell'' then [shell_row] else run_rows)"

definition no_choices :: "option_spec list \<Rightarrow> row \<Rightarrow> bool" where
  "no_choices specs r \<longleftrightarrow> opt_choices (option_of specs (fst r)) = None"

lemma rows_of_run: "list_all (\<lambda>r. describes (sub_options ''run'') r \<and> no_choices (sub_options ''run'') r) (sub_rows ''run'')"
  by code_simp

lemma rows_of_shell:
  "list_all (\<lambda>r. describes (sub_options ''shell'') r \<and> no_choices (sub_options ''shell'') r) (sub_rows ''shell'')"
  by code_simp

lemma rows_of_main: "list_all (describes main_options) main_rows"
  by code_simp

lemma rows_foreign: "list_all (\<lambda>r. foreign main_options (fst r)) (image_rows @ shell_row # run_rows)"
  by code_simp

lemma rows_of_sub:
  assumes "c \<in> set image_commands" and "r \<in> set (sub_rows c)"
  shows "describes (sub_options c) r" and "no_choices (sub_options c) r"
proof -
  have "sub_rows c = sub_rows (if c = ''shell'' then ''shell'' else ''run'')" by (simp add: sub_rows_def)
  with rows_of_run rows_of_shell assms(2) show "describes (sub_options c) r" "no_choices (sub_options c) r"
    unfolding sub_options_two [OF assms(1)] by (auto simp: list_all_iff split: if_splits)
qed

text \<open>The fields have the names of the rows, and the values that go with them.\<close>

definition fits_row :: "row \<Rightarrow> string \<times> string option list \<Rightarrow> bool" where
  "fits_row r f =
     (case r of (n, d, ar, ef, v) \<Rightarrow>
        fst f = n \<and> list_all (\<lambda>x. (x = None) = (ar = NoValue) \<and> (ef = SetTrue \<longrightarrow> x = None)) (snd f))"

lemma values_once: "list_all P (once x) \<longleftrightarrow> (\<forall>s. x = Some s \<longrightarrow> P (Some s))"
  by (cases x) (simp_all add: once_def)

lemma values_switch: "list_all P (switch b) \<longleftrightarrow> (b \<longrightarrow> P None)"
  by (simp add: switch_def)

lemma values_each: "list_all P (each l) \<longleftrightarrow> (\<forall>vs. l = Some vs \<longrightarrow> (\<forall>x \<in> set vs. P (Some (the x))))"
  by (cases l) (simp_all add: each_def list_all_iff)

lemmas value_lists = values_once values_switch values_each

lemma fields_fit:
  "list_all2 fits_row (sub_rows c) (sub_fields c a)" "list_all2 fits_row main_rows (main_fields a)"
  by (simp_all add: sub_rows_def sub_fields_def image_fields_def run_fields_def main_fields_def fits_row_def value_lists)

lemma field_row:
  assumes "list_all2 fits_row rs gs" and "(n, vs) \<in> set gs"
  obtains d ar ef v where "(n, d, ar, ef, v) \<in> set rs"
    and "\<forall>x \<in> set vs. (x = None) = (ar = NoValue) \<and> (ef = SetTrue \<longrightarrow> x = None)"
proof -
  from assms(2) obtain i where i: "i < length gs" "gs ! i = (n, vs)" by (auto simp: in_set_conv_nth)
  with list_all2_lengthD [OF assms(1)] list_all2_nthD2 [OF assms(1) i(1)]
  have len: "i < length rs" and fit: "fits_row (rs ! i) (n, vs)" by simp_all
  obtain m d ar ef v where r: "rs ! i = (m, d, ar, ef, v)" by (cases "rs ! i") auto
  from fit have "m = n" "\<forall>x \<in> set vs. (x = None) = (ar = NoValue) \<and> (ef = SetTrue \<longrightarrow> x = None)"
    by (auto simp: r fits_row_def list_all_iff)
  moreover have "(m, d, ar, ef, v) \<in> set rs" using len r by (metis nth_mem)
  ultimately show thesis using that by blast
qed

lemma valid_occurrences:
  assumes "list_all2 fits_row rs gs" and "\<And>r. r \<in> set rs \<Longrightarrow> describes specs r \<and> fst (snd (snd (snd r))) \<noteq> ShowHelp"
    and "\<And>n vs s. (n, vs) \<in> set gs \<Longrightarrow> Some s \<in> set vs \<Longrightarrow> check_choice (option_of specs n) s = Inr s"
  shows "\<forall>x \<in> set (occurrences specs gs). valid_setting specs x"
proof
  fix x assume "x \<in> set (occurrences specs gs)"
  then obtain n vs v where x: "x = (option_of specs n, n, v)" and f: "(n, vs) \<in> set gs" and v: "v \<in> set vs"
    by (auto simp: occurrences_def)
  from field_row [OF assms(1) f] obtain d ar ef w where r: "(n, d, ar, ef, w) \<in> set rs"
    and fit: "(v = None) = (ar = NoValue) \<and> (ef = SetTrue \<longrightarrow> v = None)" using v by metis
  from assms(2) [OF r] have "named specs n" "opt_arity (option_of specs n) = ar"
    "opt_effect (option_of specs n) = ef" "ef \<noteq> ShowHelp"
    by (auto simp: describes_def Let_def)
  with fit assms(3) [OF f] v show "valid_setting specs x"
    by (cases v) (auto simp: x valid_setting_def named_def option_of_def)
qed

lemma rows_shown: "r \<in> set (sub_rows c) \<union> set main_rows \<Longrightarrow> fst (snd (snd (snd r))) \<noteq> ShowHelp"
  by (auto simp: sub_rows_def split: if_splits)

lemma sub_valid:
  assumes "c \<in> set image_commands"
  shows "\<forall>x \<in> set (occurrences (sub_options c) (sub_fields c a)). valid_setting (sub_options c) x"
proof (rule valid_occurrences [OF fields_fit(1)])
  show "describes (sub_options c) r \<and> fst (snd (snd (snd r))) \<noteq> ShowHelp" if "r \<in> set (sub_rows c)" for r
    using rows_of_sub [OF assms that] rows_shown that by blast
  fix n vs s assume "(n, vs) \<in> set (sub_fields c a)"
  from field_row [OF fields_fit(1) this] obtain d ar ef v where "(n, d, ar, ef, v) \<in> set (sub_rows c)" by metis
  from rows_of_sub(2) [OF assms this] show "check_choice (option_of (sub_options c) n) s = Inr s"
    by (simp add: no_choices_def check_choice_def)
qed

lemma log_choices: "opt_choices (option_of main_options ''--log'') = Some [''DEBUG'', ''INFO'', ''WARNING'', ''ERROR'', ''CRITICAL'']"
  by code_simp

lemma main_valid:
  assumes "arg_log_level a \<in> {None, Some ''DEBUG'', Some ''INFO'', Some ''WARNING'', Some ''ERROR'', Some ''CRITICAL''}"
  shows "\<forall>x \<in> set (occurrences main_options (main_fields a)). valid_setting main_options x"
proof (rule valid_occurrences [OF fields_fit(2)])
  show "describes main_options r \<and> fst (snd (snd (snd r))) \<noteq> ShowHelp" if "r \<in> set main_rows" for r
    using rows_of_main rows_shown that by (simp only: list_all_iff) blast
  fix n vs s assume "(n, vs) \<in> set (main_fields a)" "Some s \<in> set vs"
  then have "n = ''--log'' \<and> arg_log_level a = Some s"
    by (auto simp: main_fields_def once_def switch_def split: option.splits if_splits)
  with assms show "check_choice (option_of main_options n) s = Inr s"
    by (auto simp: check_choice_def log_choices)
qed

subsection \<open>The values come back\<close>

lemma start_get:
  assumes "distinct (map opt_dest specs)" and "opt \<in> set specs" and "opt_effect opt \<noteq> ShowHelp"
  shows "dict_get (start_namespace specs) (opt_dest opt) = Some (opt_default opt)"
  using assms
proof (induction specs rule: rev_induct)
  case (snoc x specs)
  show ?case
  proof (cases "opt = x")
    case True
    with snoc.prems show ?thesis by (simp add: start_namespace_def update_conv')
  next
    case False
    with snoc.prems have mem: "opt \<in> set specs" by simp
    then have "opt_dest opt \<in> opt_dest ` set specs" by simp
    moreover have "opt_dest x \<notin> opt_dest ` set specs" using snoc.prems(1) by simp
    ultimately have "opt_dest x \<noteq> opt_dest opt" by metis
    with snoc.IH mem snoc.prems show ?thesis by (simp add: start_namespace_def update_conv')
  qed
qed simp

lemma dests_of_fields:
  assumes "list_all2 fits_row rs gs" and "\<And>r. r \<in> set rs \<Longrightarrow> describes specs r"
  shows "map (\<lambda>f. opt_dest (option_of specs (fst f))) gs = map (fst \<circ> snd) rs"
  using assms
proof (induction rs gs rule: list_all2_induct)
  case (Cons r rs f gs)
  obtain n d ar ef v where r: "r = (n, d, ar, ef, v)" by (cases r)
  with Cons.hyps(1) Cons.prems [of r] have "opt_dest (option_of specs (fst f)) = d"
    by (simp add: fits_row_def describes_def Let_def)
  with Cons.IH Cons.prems r show ?case by simp
qed simp

text \<open>The value of an option that was written, by the kind of option.\<close>

lemma entered_value:
  assumes "distinct (map (\<lambda>f. opt_dest (option_of specs (fst f))) gs)" and "(n, vs) \<in> set gs"
    and "describes specs (n, d, ar, ef, v)" and "distinct (map opt_dest specs)" and "ef \<noteq> ShowHelp"
  shows "dict_get (entered specs gs) d =
    (if vs = [] then Some v
     else dict_get (foldl apply_setting (start_namespace specs) (map (\<lambda>v. (option_of specs n, n, v)) vs)) d)"
proof -
  from assms(3) have opt: "named specs n" "opt_dest (option_of specs n) = d"
    "opt_effect (option_of specs n) = ef" "opt_default (option_of specs n) = v"
    by (auto simp: describes_def Let_def)
  then have "option_of specs n \<in> set specs"
    using find_option_in by (force simp: named_def option_of_def)
  with start_get [OF assms(4) this] assms(5) opt have "dict_get (start_namespace specs) d = Some v" by simp
  with entered_get [OF assms(1,2)] opt show ?thesis by simp
qed

lemma entered_once:
  assumes "distinct (map (\<lambda>f. opt_dest (option_of specs (fst f))) gs)" and "(n, once x) \<in> set gs"
    and "describes specs (n, d, ar, SetValue, v)" and "distinct (map opt_dest specs)"
  shows "dict_get (entered specs gs) d = Some (case x of None \<Rightarrow> v | Some s \<Rightarrow> VText s)"
proof -
  from assms(3) have "opt_dest (option_of specs n) = d" "opt_effect (option_of specs n) = SetValue"
    by (auto simp: describes_def Let_def)
  with entered_value [OF assms] show ?thesis
    by (cases x) (simp_all add: once_def apply_setting_def update_conv')
qed

lemma entered_switch:
  assumes "distinct (map (\<lambda>f. opt_dest (option_of specs (fst f))) gs)" and "(n, switch b) \<in> set gs"
    and "describes specs (n, d, ar, SetTrue, VBool False)" and "distinct (map opt_dest specs)"
  shows "dict_get (entered specs gs) d = Some (VBool b)"
proof -
  from assms(3) have "opt_dest (option_of specs n) = d" "opt_effect (option_of specs n) = SetTrue"
    by (auto simp: describes_def Let_def)
  with entered_value [OF assms] show ?thesis
    by (cases b) (simp_all add: switch_def apply_setting_def update_conv')
qed

lemma entered_each:
  assumes "distinct (map (\<lambda>f. opt_dest (option_of specs (fst f))) gs)" and "(n, each x) \<in> set gs"
    and "describes specs (n, d, ar, AppendValue, VNone)" and "distinct (map opt_dest specs)" and "x \<noteq> Some []"
  shows "dict_get (entered specs gs) d = Some (case x of None \<Rightarrow> VNone | Some ss \<Rightarrow> VList (map (\<lambda>x. Some (the x)) ss))"
proof -
  from assms(3) have opt: "opt_dest (option_of specs n) = d" "opt_effect (option_of specs n) = AppendValue"
    "opt_default (option_of specs n) = VNone" "named specs n"
    by (auto simp: describes_def Let_def)
  then have "option_of specs n \<in> set specs"
    using find_option_in by (force simp: named_def option_of_def)
  with start_get [OF assms(4) this] opt have "items (start_namespace specs) d = []" by (simp add: items_def)
  with entered_value [OF assms(1-4)] opt settings_append [OF opt(2), of "each x"] assms(5) show ?thesis
    by (cases x) (simp_all add: each_def)
qed

lemma distinct_rows: "distinct (map (fst \<circ> snd) (sub_rows ''run''))" "distinct (map (fst \<circ> snd) (sub_rows ''shell''))"
  "distinct (map (fst \<circ> snd) main_rows)"
  by code_simp+

lemma distinct_fields:
  assumes "c \<in> set image_commands"
  shows "distinct (map (\<lambda>f. opt_dest (option_of (sub_options c) (fst f))) (sub_fields c a))"
proof -
  have "map (\<lambda>f. opt_dest (option_of (sub_options c) (fst f))) (sub_fields c a) = map (fst \<circ> snd) (sub_rows c)"
    by (rule dests_of_fields [OF fields_fit(1)]) (rule rows_of_sub(1) [OF assms])
  moreover have "sub_rows c = sub_rows (if c = ''shell'' then ''shell'' else ''run'')" by (simp add: sub_rows_def)
  ultimately show ?thesis using distinct_rows by (simp split: if_splits)
qed

lemma main_described: "r \<in> set main_rows \<Longrightarrow> describes main_options r"
  using rows_of_main by (simp only: list_all_iff)

lemma distinct_main_fields: "distinct (map (\<lambda>f. opt_dest (option_of main_options (fst f))) (main_fields a))"
proof -
  have "map (\<lambda>f. opt_dest (option_of main_options (fst f))) (main_fields a) = map (fst \<circ> snd) main_rows"
    by (rule dests_of_fields [OF fields_fit(2)]) (rule main_described)
  then show ?thesis by (simp only: distinct_rows(3))
qed

subsection \<open>The line is read back\<close>

lemma command_positional: "c \<in> set image_commands \<Longrightarrow> parse_optional specs c = Inr Positional \<and> c \<noteq> [dash, dash]"
  by (auto simp: image_commands_def parse_optional_def dash_def)

lemma sub_foreign:
  assumes "x \<in> set (occurrences specs (sub_fields c a))"
  shows "readable main_options (show_setting x)"
proof -
  from assms obtain n vs v where x: "x = (option_of specs n, n, v)" and f: "(n, vs) \<in> set (sub_fields c a)"
    by (auto simp: occurrences_def)
  from field_row [OF fields_fit(1) f] obtain d ar ef w where "(n, d, ar, ef, w) \<in> set (sub_rows c)" by metis
  then have "(n, d, ar, ef, w) \<in> set (image_rows @ shell_row # run_rows)"
    by (simp only: sub_rows_def set_append split: if_splits) auto
  with rows_foreign have "foreign main_options n" by (simp only: list_all_iff) fastforce
  from foreign_readable [OF this main_table(2)] show ?thesis by (simp only: x)
qed

definition read_back :: "string \<Rightarrow> arguments \<Rightarrow> namespace" where
  "read_back c a =
     merge (dict_put ''sub_command'' (VText c) (entered main_options (main_fields a)))
       (dict_put ''tool'' (VList (map Some (tool_args a))) (entered (sub_options c) (sub_fields c a)))"

lemma parse_render:
  assumes "c \<in> set image_commands" and "sayable c a"
  shows "parse_command_line pl (render c a) = Inr (read_back c a)"
proof -
  let ?sub = "map show_setting (occurrences (sub_options c) (sub_fields c a)) @ tool_args a"
  let ?main = "occurrences main_options (main_fields a)"
  note c = command_positional [OF assms(1)]
  have tool: "\<forall>s \<in> set (tool_args a). readable main_options s \<and> readable (sub_options c) s"
    and first: "tool_args a = [] \<or> parse_optional (sub_options c) (hd (tool_args a)) = Inr Positional \<and> hd (tool_args a) \<noteq> [dash, dash]"
    and level: "arg_log_level a \<in> {None, Some ''DEBUG'', Some ''INFO'', Some ''WARNING'', Some ''ERROR'', Some ''CRITICAL''}"
    using assms(2) by (auto simp: sayable_def list_all_iff)
  have "\<forall>s \<in> set ?sub. readable main_options s" using tool sub_foreign by auto
  then obtain ts where ts: "classify main_options ?sub = Inr ts" using classify_readable by blast
  then have "classify main_options (c # ?sub) = Inr ((c, Positional) # ts)" using c by simp
  from settings_classified [OF main_table(2) main_valid [OF level] this]
  have all: "classify main_options (render c a) =
      Inr (map (\<lambda>(opt, n, v). (show_setting (opt, n, v), Known opt n (v \<noteq> None) v)) ?main @ (c, Positional) # ts)"
    by (simp only: render_def)
  have parsed: "parse_options main_options True
      (map (\<lambda>(opt, n, v). (show_setting (opt, n, v), Known opt n (v \<noteq> None) v)) ?main @ (c, Positional) # ts)
      (start_namespace main_options) [] = Inr (entered main_options (main_fields a), [], c # ?sub)"
    using settings_parsed [OF main_valid [OF level], of "(c, Positional) # ts"] classify_args [OF ts]
    by (simp add: entered_def)
  have "\<forall>s \<in> set (tool_args a). readable (sub_options c) s" using tool by blast
  then obtain us where us: "classify (sub_options c) (tool_args a) = Inr us" using classify_readable by blast
  have "us = [] \<or> snd (hd us) \<in> {Positional, DashDash}"
    using us first by (cases "tool_args a") (auto elim!: bindrE split: if_splits)
  from settings_read_back [OF sub_table(2) [OF assms(1)] sub_valid [OF assms(1)] us this]
  have sub: "parse_known (sub_options c) (Some ''tool'') ?sub =
      Inr (dict_put ''tool'' (VList (map Some (tool_args a))) (entered (sub_options c) (sub_fields c a)), [])"
    by (simp add: entered_def)
  have "render c a \<noteq> []" by (simp add: render_def)
  then show ?thesis
    by (simp add: parse_command_line_def all parsed find_parser_def assms(1) sub read_back_def del: parse_options.simps classify.simps not_None_eq)
qed

text \<open>What the namespace that is read back has under every name.\<close>

lemma entered_keys: "k \<notin> opt_dest ` set specs \<Longrightarrow> \<forall>f \<in> set gs. option_of specs (fst f) \<in> set specs \<Longrightarrow>
    dict_get (entered specs gs) k = None"
proof -
  assume k: "k \<notin> opt_dest ` set specs" and gs: "\<forall>f \<in> set gs. option_of specs (fst f) \<in> set specs"
  then have "\<forall>x \<in> set (occurrences specs gs). opt_dest (fst x) \<noteq> k" by (fastforce simp: occurrences_def)
  then have "filter (\<lambda>x. opt_dest (fst x) = k) (occurrences specs gs) = []" by (simp add: filter_empty_conv)
  then show "dict_get (entered specs gs) k = None"
    unfolding entered_def by (subst settings_under) (simp add: start_keys [OF k])
qed

lemma field_option: "c \<in> set image_commands \<Longrightarrow> f \<in> set (sub_fields c a) \<Longrightarrow> option_of (sub_options c) (fst f) \<in> set (sub_options c)"
proof -
  assume c: "c \<in> set image_commands" and f: "f \<in> set (sub_fields c a)"
  obtain n vs where f': "f = (n, vs)" by (cases f)
  from field_row [OF fields_fit(1) f [unfolded f']] obtain d ar ef w where "(n, d, ar, ef, w) \<in> set (sub_rows c)" by metis
  from rows_of_sub(1) [OF c this] have "named (sub_options c) n" by (simp add: describes_def Let_def)
  then show "option_of (sub_options c) (fst f) \<in> set (sub_options c)"
    using find_option_in by (force simp: f' named_def option_of_def)
qed

lemma entered_distinct: "distinct (map fst (entered specs gs))"
proof -
  have "distinct (map fst ns) \<Longrightarrow> distinct (map fst (foldl apply_setting ns xs))" for ns xs
    by (induction xs arbitrary: ns) (auto simp: apply_setting_def distinct_update split: prod.splits)
  then show ?thesis by (simp add: entered_def start_distinct)
qed

lemma read_back_get:
  assumes "c \<in> set image_commands"
  shows "dict_get (read_back c a) k =
    (if k = ''tool'' then Some (VList (map Some (tool_args a)))
     else case dict_get (entered (sub_options c) (sub_fields c a)) k of
         Some v \<Rightarrow> Some v
       | None \<Rightarrow> if k = ''sub_command'' then Some (VText c) else dict_get (entered main_options (main_fields a)) k)"
proof -
  have "distinct (map fst (dict_put ''tool'' v (entered (sub_options c) (sub_fields c a))))" for v
    by (simp add: distinct_update entered_distinct)
  from merge_get [OF this] show ?thesis
    by (auto simp: read_back_def update_conv' split: option.split)
qed

text \<open>What a row of the table of a command says of the namespace, and of the main table.\<close>

lemma sub_once:
  assumes "c \<in> set image_commands" and "(n, d, ar, SetValue, v) \<in> set (sub_rows c)" and "(n, once x) \<in> set (sub_fields c a)"
    and "d \<noteq> ''tool''"
  shows "dict_get (read_back c a) d = Some (case x of None \<Rightarrow> v | Some s \<Rightarrow> VText s)"
  using entered_once [OF distinct_fields [OF assms(1)] assms(3) rows_of_sub(1) [OF assms(1,2)]]
    sub_table(1) [OF assms(1)] assms(4)
  by (simp add: read_back_get [OF assms(1)] well_formed_def)

lemma sub_switch:
  assumes "c \<in> set image_commands" and "(n, d, ar, SetTrue, VBool False) \<in> set (sub_rows c)"
    and "(n, switch b) \<in> set (sub_fields c a)" and "d \<noteq> ''tool''"
  shows "dict_get (read_back c a) d = Some (VBool b)"
  using entered_switch [OF distinct_fields [OF assms(1)] assms(3) rows_of_sub(1) [OF assms(1,2)]]
    sub_table(1) [OF assms(1)] assms(4)
  by (simp add: read_back_get [OF assms(1)] well_formed_def)

lemma sub_each:
  assumes "c \<in> set image_commands" and "(n, d, ar, AppendValue, VNone) \<in> set (sub_rows c)"
    and "(n, each x) \<in> set (sub_fields c a)" and "d \<noteq> ''tool''" and "x \<noteq> Some []"
  shows "dict_get (read_back c a) d = Some (case x of None \<Rightarrow> VNone | Some ss \<Rightarrow> VList (map (\<lambda>x. Some (the x)) ss))"
  using entered_each [OF distinct_fields [OF assms(1)] assms(3) rows_of_sub(1) [OF assms(1,2)] _ assms(5)]
    sub_table(1) [OF assms(1)] assms(4)
  by (simp add: read_back_get [OF assms(1)] well_formed_def)

lemma main_get:
  assumes "c \<in> set image_commands" and "opt \<in> set main_options" and "opt_effect opt \<noteq> ShowHelp"
  shows "dict_get (read_back c a) (opt_dest opt) = dict_get (entered main_options (main_fields a)) (opt_dest opt)"
  using entered_keys [OF tables_apart(2) [OF assms], of "sub_fields c a"] field_option [OF assms(1)] tables_apart [OF assms]
  by (simp add: read_back_get [OF assms(1)])

lemma main_dests: "opt \<in> set main_options \<and> opt_effect opt \<noteq> ShowHelp \<Longrightarrow>
    opt_dest opt \<in> {''log_level'', ''batch'', ''quiet'', ''version''}"
  by (auto simp: main_options_def help_option_def text_option_def flag_option_def)

lemma text_back:
  assumes "c \<in> set image_commands" and "(n, d, ar, SetValue, VNone) \<in> set (sub_rows c)"
    and "(n, once x) \<in> set (sub_fields c a)" and "d \<noteq> ''tool''"
  shows "text_arg (read_back c a) d = x"
  using sub_once [OF assms] by (cases x) (simp_all add: text_arg_def)

lemma flag_back:
  assumes "c \<in> set image_commands" and "(n, d, ar, SetTrue, VBool False) \<in> set (sub_rows c)"
    and "(n, switch b) \<in> set (sub_fields c a)" and "d \<noteq> ''tool''"
  shows "flag_arg (read_back c a) d = b"
  using sub_switch [OF assms] by (simp add: flag_arg_def)

lemma list_back:
  assumes "c \<in> set image_commands" and "(n, d, ar, AppendValue, VNone) \<in> set (sub_rows c)"
    and "(n, each x) \<in> set (sub_fields c a)" and "d \<noteq> ''tool''" and "x \<noteq> Some [] \<and> None \<notin> set (or_empty x)"
  shows "list_arg (read_back c a) d = x"
proof -
  have "map (\<lambda>x. Some (the x)) ss = ss" if "None \<notin> set ss" for ss :: "string option list"
    using that by (intro map_idI) (metis option.collapse)
  with sub_each [OF assms(1-4) conjunct1 [OF assms(5)]] assms(5) show ?thesis
    by (cases x) (simp_all add: list_arg_def or_empty_def)
qed

lemmas row_facts = sub_rows_def sub_fields_def image_fields_def run_fields_def

lemma texts_back:
  assumes "c \<in> set image_commands"
  shows "text_arg (read_back c a) ''path'' = arg_path a"
    and "text_arg (read_back c a) ''input_tar'' = arg_in a"
    and "text_arg (read_back c a) ''output_tar'' = arg_out a"
    and "text_arg (read_back c a) ''network'' = arg_network a"
    and "text_arg (read_back c a) ''user'' = arg_user a"
    and "text_arg (read_back c a) ''runtime'' = arg_runtime a"
proof -
  note entry = text_back [OF assms]
  show "text_arg (read_back c a) ''path'' = arg_path a"
    by (rule entry [where n = "''--path''" and ar = OneValue]) (simp_all add: row_facts)
  show "text_arg (read_back c a) ''input_tar'' = arg_in a"
    by (rule entry [where n = "''--in''" and ar = MaybeValue]) (simp_all add: row_facts)
  show "text_arg (read_back c a) ''output_tar'' = arg_out a"
    by (rule entry [where n = "''--out''" and ar = MaybeValue]) (simp_all add: row_facts)
  show "text_arg (read_back c a) ''network'' = arg_network a"
    by (rule entry [where n = "''--network''" and ar = MaybeValue]) (simp_all add: row_facts)
  show "text_arg (read_back c a) ''user'' = arg_user a"
    by (rule entry [where n = "''--user''" and ar = MaybeValue]) (simp_all add: row_facts)
  show "text_arg (read_back c a) ''runtime'' = arg_runtime a"
    by (rule entry [where n = "''--runtime''" and ar = MaybeValue]) (simp_all add: row_facts)
qed

lemma flags_back:
  assumes "c \<in> set image_commands"
  shows "flag_arg (read_back c a) ''pull'' = arg_pull a"
    and "flag_arg (read_back c a) ''no_defaults'' = arg_no_defaults a"
    and "flag_arg (read_back c a) ''no_implicit_output'' = arg_no_implicit a"
    and "flag_arg (read_back c a) ''create_image'' = arg_create_image a"
proof -
  show "flag_arg (read_back c a) ''pull'' = arg_pull a"
    by (rule flag_back [OF assms, where n = "''--pull''" and ar = NoValue]) (simp_all add: row_facts)
  show "flag_arg (read_back c a) ''no_defaults'' = arg_no_defaults a"
    by (rule flag_back [OF assms, where n = "''--no-defaults''" and ar = NoValue]) (simp_all add: row_facts)
  show "flag_arg (read_back c a) ''no_implicit_output'' = arg_no_implicit a"
    by (rule flag_back [OF assms, where n = "''--no-implicit-output''" and ar = NoValue]) (simp_all add: row_facts)
  show "flag_arg (read_back c a) ''create_image'' = arg_create_image a"
    by (rule flag_back [OF assms, where n = "''--create-image''" and ar = NoValue]) (simp_all add: row_facts)
qed

lemma lists_back:
  assumes "c \<in> set image_commands" and "sayable c a"
  shows "list_arg (read_back c a) ''in_filter'' = arg_in_filter a"
    and "list_arg (read_back c a) ''out_filter'' = arg_out_filter a"
    and "list_arg (read_back c a) ''output_dir'' = arg_mkdir a"
    and "list_arg (read_back c a) ''explicit_output'' = arg_explicit a"
    and "list_arg (read_back c a) ''cap_add'' = arg_cap_add a"
    and "list_arg (read_back c a) ''cap_drop'' = arg_cap_drop a"
proof -
  have vals: "list_all (\<lambda>l. l \<noteq> Some [] \<and> None \<notin> set (or_empty l))
      [arg_in_filter a, arg_out_filter a, arg_mkdir a, arg_explicit a, arg_cap_add a, arg_cap_drop a]"
    using assms(2) unfolding sayable_def by blast
  note entry = list_back [OF assms(1), where ar = MaybeValue]
  show "list_arg (read_back c a) ''in_filter'' = arg_in_filter a"
    using vals by (intro entry [where n = "''--in-filter''"]) (auto simp: row_facts)
  show "list_arg (read_back c a) ''out_filter'' = arg_out_filter a"
    using vals by (intro entry [where n = "''--out-filter''"]) (auto simp: row_facts)
  show "list_arg (read_back c a) ''output_dir'' = arg_mkdir a"
    using vals by (intro entry [where n = "''--mkdir''"]) (auto simp: row_facts)
  show "list_arg (read_back c a) ''explicit_output'' = arg_explicit a"
    using vals by (intro entry [where n = "''--explicit-output''"]) (auto simp: row_facts)
  show "list_arg (read_back c a) ''cap_add'' = arg_cap_add a"
    using vals by (intro entry [where n = "''--cap-add''"]) (auto simp: row_facts)
  show "list_arg (read_back c a) ''cap_drop'' = arg_cap_drop a"
    using vals by (intro entry [where n = "''--cap-drop''"]) (auto simp: row_facts)
qed

text \<open>Names that a command has no option for.\<close>

lemma absent_back:
  assumes "c \<in> set image_commands" and "d \<notin> opt_dest ` set (sub_options c)" and "d \<notin> opt_dest ` set main_options"
    and "d \<noteq> ''tool''" and "d \<noteq> ''sub_command''"
  shows "dict_get (read_back c a) d = None"
proof -
  have "\<forall>f \<in> set (main_fields a). option_of main_options (fst f) \<in> set main_options"
  proof
    fix f assume "f \<in> set (main_fields a)"
    then have "fst f \<in> {''--log'', ''--batch'', ''--quiet''}" by (auto simp: main_fields_def)
    moreover have "list_all (\<lambda>n. option_of main_options n \<in> set main_options) [''--log'', ''--batch'', ''--quiet'']" by code_simp
    ultimately show "option_of main_options (fst f) \<in> set main_options" by auto
  qed
  from entered_keys [OF assms(3) this] entered_keys [OF assms(2), of "sub_fields c a"] field_option [OF assms(1)] assms(4,5)
  show ?thesis by (simp add: read_back_get [OF assms(1)])
qed

lemma cond_back:
  assumes "c \<in> set image_commands" and "sayable c a"
  shows "text_arg (read_back c a) ''entrypoint'' = arg_entrypoint a"
    and "flag_arg (read_back c a) ''interactive'' = arg_interactive a"
    and "flag_arg (read_back c a) ''tty'' = arg_tty a"
    and "or_empty (text_arg (read_back c a) ''shell'') = arg_shell a"
proof -
  note two = sub_options_two [OF assms(1)]
  have "text_arg (read_back c a) ''entrypoint'' = arg_entrypoint a \<and> flag_arg (read_back c a) ''interactive'' = arg_interactive a \<and>
      flag_arg (read_back c a) ''tty'' = arg_tty a \<and> or_empty (text_arg (read_back c a) ''shell'') = arg_shell a"
  proof (cases "c = ''shell''")
    case True
    have off: "list_all (\<lambda>d. d \<notin> opt_dest ` set (sub_options ''shell'') \<and> d \<notin> opt_dest ` set main_options)
        [''entrypoint'', ''interactive'', ''tty'']" by code_simp
    have none: "dict_get (read_back c a) d = None" if "d \<in> {''entrypoint'', ''interactive'', ''tty''}" for d
      using that off True by (intro absent_back [OF assms(1)]) (elim insertE emptyE; simp)+
    have "once (Some (arg_shell a)) = [Some (arg_shell a)]" by (simp add: once_def)
    then have "dict_get (read_back c a) ''shell'' = Some (VText (arg_shell a))"
      using sub_once [OF assms(1), of "''--shell''" "''shell''" MaybeValue "VText ''/bin/bash''" "Some (arg_shell a)" a] True
      by (simp add: row_facts)
    with none assms(2) True show ?thesis by (simp add: text_arg_def flag_arg_def or_empty_def sayable_def)
  next
    case False
    have off: "''shell'' \<notin> opt_dest ` set (sub_options ''run'')" "''shell'' \<notin> opt_dest ` set main_options" by code_simp+
    have "dict_get (read_back c a) ''shell'' = None"
      using off False by (intro absent_back [OF assms(1)]) (simp_all add: two)
    moreover have "text_arg (read_back c a) ''entrypoint'' = arg_entrypoint a"
      using False by (intro text_back [OF assms(1), where n = "''--entrypoint''" and ar = MaybeValue]) (simp_all add: row_facts)
    moreover have "flag_arg (read_back c a) ''interactive'' = arg_interactive a"
      using False by (intro flag_back [OF assms(1), where n = "''--interactive''" and ar = NoValue]) (simp_all add: row_facts)
    moreover have "flag_arg (read_back c a) ''tty'' = arg_tty a"
      using False by (intro flag_back [OF assms(1), where n = "''--tty''" and ar = NoValue]) (simp_all add: row_facts)
    ultimately show ?thesis using assms(2) False by (simp add: text_arg_def or_empty_def sayable_def)
  qed
  then show "text_arg (read_back c a) ''entrypoint'' = arg_entrypoint a"
    "flag_arg (read_back c a) ''interactive'' = arg_interactive a" "flag_arg (read_back c a) ''tty'' = arg_tty a"
    "or_empty (text_arg (read_back c a) ''shell'') = arg_shell a" by simp_all
qed

lemma main_back:
  assumes "c \<in> set image_commands"
  shows "text_arg (read_back c a) ''log_level'' = arg_log_level a"
    and "flag_arg (read_back c a) ''batch'' = arg_batch a" and "flag_arg (read_back c a) ''quiet'' = arg_quiet a"
    and "\<not> flag_arg (read_back c a) ''version''"
proof -
  have "list_all (\<lambda>d. d \<in> opt_dest ` set (filter (\<lambda>opt. opt_effect opt \<noteq> ShowHelp) main_options))
      [''log_level'', ''batch'', ''quiet'', ''version'']" by code_simp
  then have get: "dict_get (read_back c a) d = dict_get (entered main_options (main_fields a)) d"
    if "d \<in> {''log_level'', ''batch'', ''quiet'', ''version''}" for d
    using that main_get [OF assms] by fastforce
  have dis: "distinct (map opt_dest main_options)" using main_table(1) by (simp add: well_formed_def)
  have "dict_get (entered main_options (main_fields a)) ''log_level'' = Some (case arg_log_level a of None \<Rightarrow> VNone | Some s \<Rightarrow> VText s)"
    by (rule entered_once [OF distinct_main_fields _ main_described dis, where n = "''--log''" and ar = OneValue])
      (simp_all add: main_fields_def)
  then show "text_arg (read_back c a) ''log_level'' = arg_log_level a"
    by (cases "arg_log_level a") (simp_all add: text_arg_def get)
  have "dict_get (entered main_options (main_fields a)) ''batch'' = Some (VBool (arg_batch a))"
    by (rule entered_switch [OF distinct_main_fields _ main_described dis, where n = "''--batch''" and ar = NoValue])
      (simp_all add: main_fields_def)
  then show "flag_arg (read_back c a) ''batch'' = arg_batch a" by (simp add: flag_arg_def get)
  have "dict_get (entered main_options (main_fields a)) ''quiet'' = Some (VBool (arg_quiet a))"
    by (rule entered_switch [OF distinct_main_fields _ main_described dis, where n = "''--quiet''" and ar = NoValue])
      (simp_all add: main_fields_def)
  then show "flag_arg (read_back c a) ''quiet'' = arg_quiet a" by (simp add: flag_arg_def get)
  have "list_all (\<lambda>n. opt_dest (option_of main_options n) \<noteq> ''version'') [''--log'', ''--batch'', ''--quiet'']"
    and v: "dict_get (start_namespace main_options) ''version'' = Some (VBool False)" by code_simp+
  then have "filter (\<lambda>x. opt_dest (fst x) = ''version'') (occurrences main_options (main_fields a)) = []"
    by (auto simp: occurrences_def main_fields_def filter_empty_conv)
  then have "dict_get (entered main_options (main_fields a)) ''version'' = Some (VBool False)"
    unfolding entered_def by (subst settings_under) (simp add: v)
  then show "\<not> flag_arg (read_back c a) ''version''" by (simp add: flag_arg_def get)
qed

lemma read_back_is:
  assumes "c \<in> set image_commands" and "sayable c a"
  shows "arguments_of (read_back c a) = a"
    and "text_arg (read_back c a) ''sub_command'' = Some c" and "\<not> flag_arg (read_back c a) ''version''"
proof -
  have tool: "words_arg (read_back c a) ''tool'' = tool_args a"
    by (simp add: words_arg_def list_arg_def read_back_get [OF assms(1)] or_empty_def comp_def)
  show "arguments_of (read_back c a) = a"
    using cond_back(4) [OF assms]
    by (simp add: arguments_of_def tool texts_back [OF assms(1)] flags_back [OF assms(1)] lists_back [OF assms]
        cond_back(1-3) [OF assms] main_back [OF assms(1)])
  show "\<not> flag_arg (read_back c a) ''version''" by (rule main_back(4) [OF assms(1)])
  show "text_arg (read_back c a) ''sub_command'' = Some c"
    using entered_keys [OF sub_table(4) [OF assms(1)], of "sub_fields c a"] field_option [OF assms(1)]
    by (simp add: text_arg_def read_back_get [OF assms(1)])
qed

text \<open>
  C19: A command line written from given arguments is read back as these arguments: the options in full
  with their values after an equals sign, then the tool and its arguments.
\<close>

theorem command_line_roundtrip:
  assumes "c \<in> set image_commands" and "sayable c a"
  shows "\<exists>ns. parse_command_line pl (render c a) = Inr ns \<and> arguments_of ns = a \<and>
    text_arg ns ''sub_command'' = Some c \<and> \<not> flag_arg ns ''version''"
  using parse_render [OF assms] read_back_is [OF assms] by blast

text \<open>
  C3: From the command line to the exit code: the options and the tool written on the command line of
  \<^verbatim>\<open>run\<close>, \<^verbatim>\<open>test\<close> or \<^verbatim>\<open>shell\<close> reach the tool as they were meant, and nothing else happens.
\<close>

theorem main_program_runs_tool:
  assumes "kind_of c = Some k" and "sayable c a"
  shows "main_program w constr env place (render c a) h f = main_tool constr env place k a h f"
proof -
  from assms(1) have c: "c \<in> set image_commands" by (auto simp: kind_of_def image_commands_def split: if_splits)
  with read_back_is [OF c assms(2)] parse_render [OF c assms(2)] assms(1) show ?thesis
    by (auto simp: main_program_def dispatch_def kind_of_def split: if_splits)
qed

section \<open>Examples\<close>

definition said_args :: arguments where
  "said_args = (demo_args [''busybox'', ''cat'', ''--in''])
     \<lparr>arg_batch := False, arg_pull := True, arg_in_filter := Some [Some ''*.txt'', Some ''^a''], arg_network := Some ''host'',
      arg_shell := []\<rparr>"

lemma said: "sayable ''run'' said_args" "kind_of ''run'' = Some RunCommand"
  by code_simp+

theorem command_line_roundtrip_witness:
  "\<exists>ns. parse_command_line no_list
      [''run'', ''--pull'', ''--in-filter=*.txt'', ''--in-filter=^a'', ''--network=host'', ''busybox'', ''cat'', ''--in''] = Inr ns \<and>
    arguments_of ns = said_args"
proof -
  have "render ''run'' said_args =
      [''run'', ''--pull'', ''--in-filter=*.txt'', ''--in-filter=^a'', ''--network=host'', ''busybox'', ''cat'', ''--in'']"
    by code_simp
  with command_line_roundtrip [OF demo_parses(3) said(1), of no_list] show ?thesis by auto
qed

theorem main_program_runs_tool_witness:
  "main_program demo_outside demo_make (demo_env hello two_polls 3) demo_place
     (render ''run'' said_args) tool_host local_busybox =
   main_tool demo_make (demo_env hello two_polls 3) demo_place RunCommand said_args tool_host local_busybox"
  by (rule main_program_runs_tool [OF said(2,1)])

end
