(* ===== verification/Whole_Program.thy ===== *)
theory Whole_Program
  imports Command_Line
begin

text \<open>
  What the program as a whole, from the strings of the command line, changes on the host: the
  working directory, the archive of \<^verbatim>\<open>--out\<close>, and the log of commands, to which it only adds.
\<close>

section \<open>The places of the program\<close>

definition archive_place :: "host \<Rightarrow> ppath \<Rightarrow> loc" where
  "archive_place h f = collapse (base_of h f) (pparts f)"

definition own_place :: "string option \<Rightarrow> host \<Rightarrow> loc \<Rightarrow> bool" where
  "own_place x h l \<longleftrightarrow> prefix (cwd h) l \<or>
     (case archive_file x of None \<Rightarrow> False | Some f \<Rightarrow> l = archive_place h f)"

definition in_place :: "string option \<Rightarrow> host \<Rightarrow> host \<Rightarrow> bool" where
  "in_place x h h' \<longleftrightarrow> cwd h' = cwd h \<and> (\<forall>l. \<not> own_place x h l \<longrightarrow> node_at h' l = node_at h l)"

lemma own_place_cwd:
  assumes "cwd h' = cwd h"
  shows "own_place x h' = own_place x h"
  by (rule ext) (simp add: own_place_def archive_place_def assms base_of_cwd [OF assms] cong: option.case_cong)

lemma in_place_refl [simp]: "in_place x h h"
  by (simp add: in_place_def)

lemma in_place_trans: "in_place x h h' \<Longrightarrow> in_place x h' h'' \<Longrightarrow> in_place x h h''"
  using own_place_cwd [of h' h x] by (simp add: in_place_def)

lemma stays_in_place: "stays x h h' \<Longrightarrow> in_place x h h'"
  by (auto simp: stays_def in_place_def own_place_def archive_place_def keeps_outside_def writes_only_def
      split: option.splits dest!: locate_collapse)

lemma keeps_in_place: "(\<And>h. in_place x h (snd (m h))) \<Longrightarrow> keeps (in_place x h0) m"
  by (blast intro: keepsI in_place_trans)

section \<open>The check\<close>

lemma changes_in_place: "only_changes {place_of h p} h h' \<Longrightarrow> in_place x h h'"
  unfolding only_changes_def in_place_def own_place_def place_of_def by (metis prefixI singletonD)

lemma mkdir_in_place: "mkdir_ok now p h = Inr h' \<Longrightarrow> inside_path p \<Longrightarrow> in_place x h h'"
  by (rule changes_in_place [of h p])
    (auto simp: only_changes_def inside_path_def place_of_def collapse_plain base_of_def is_absolute_def
      dest: mkdir_ok_frame)

lemma attempt_in_place: "(\<And>h'. f h = Inr h' \<Longrightarrow> in_place x h h') \<Longrightarrow> in_place x h (snd (attempt f h))"
  by (simp add: attempt_def split: sum.split)

lemma remove_in_place:
  assumes "inside_path p"
  shows "in_place x h (snd (when_exists p (unlink p) h))" and "in_place x h (snd (when_exists p (rmdir p) h))"
  using unlink_changes [OF _ assms] rmdir_changes [OF _ assms]
  by (auto simp: when_exists_def give_def intro!: attempt_in_place intro: changes_in_place [of h p])

lemma check_in_place:
  assumes "\<And>args h. in_place x h (snd (tool args h))"
  shows "in_place x h (snd (run_check now tool args h))"
proof -
  have "keeps (in_place x h) (attempt (mkdir_ok now p))" "keeps (in_place x h) (attempt (write_file now p d))"
    "keeps (in_place x h) (when_exists p (unlink p))" "keeps (in_place x h) (when_exists p (rmdir p))"
    if "inside_path p" for p d
    using that by (auto intro!: keeps_in_place attempt_in_place remove_in_place
        elim: mkdir_in_place intro: changes_in_place [of _ p] dest: write_changes)
  note steps = this [OF check_paths_inside(1)] this [OF check_paths_inside(2)]
    this [OF check_paths_inside(3)] this [OF check_paths_inside(4)]
  have "keeps (in_place x h) read_output" by (rule keeps_in_place) (simp add: read_output_def)
  moreover have "keeps (in_place x h) (tool as)" for as using assms by (rule keeps_in_place)
  ultimately have "keeps (in_place x h) (check_body now tool (check_args args))"
    unfolding check_body_def by (intro keeps_and_then steps keeps_simple)
  moreover have "keeps (in_place x h) cleanup"
    unfolding cleanup_def by (intro keeps_and_then steps)
  ultimately have "keeps (in_place x h) (run_check now tool args)"
    unfolding run_check_def by (auto intro!: keeps_and_then keeps_finally)
  from keeps_apply [OF this] show ?thesis by simp
qed

section \<open>The tool\<close>

lemma same_archive: "archive_file x = archive_file y \<Longrightarrow> in_place x = in_place y"
  by (simp add: in_place_def own_place_def fun_eq_iff)

lemma run_in_place:
  assumes "safe_diff (a_container env)" and "or_empty (output_filters st) = parse_matchers ms"
  shows "in_place (output_tar st) (files st) (files (snd (run env args st)))"
proof -
  obtain r st' where "run_tool env args (st\<lparr>buffer_output := False\<rparr>) = (r, st')" by fastforce
  with run_tool_stays [OF assms(1) _ this, of ms] assms(2) show ?thesis
    by (simp add: run_def stays_in_place)
qed

lemma run_command_in_place:
  assumes "safe_diff (a_container env)" and "or_empty (output_filters st) = parse_matchers ms"
  shows "in_place (output_tar st) (files st) (snd (run_command env k a st))"
proof (cases k)
  case TestCommand
  have "in_place (output_tar st) h (snd (tool_as_step env st args h))" for args h
    using run_in_place [OF assms(1), of "st\<lparr>entrypoint := Some ''/usr/bin/env'', files := h\<rparr>" ms args] assms(2)
    by (simp add: tool_as_step_def case_prod_beta)
  with TestCommand show ?thesis by (simp add: run_command_def check_in_place split: sum.split)
qed (use run_in_place [OF assms(1), of "st\<lparr>shell := arg_shell a\<rparr>" ms] run_in_place [OF assms] assms(2) in
  \<open>simp_all add: run_command_def case_prod_beta Let_def\<close>)

lemma tool_configured:
  assumes "configure_tool k a st = Inr st1"
  obtains ms where "files st1 = files st" and "archive_file (output_tar st1) = archive_file (arg_out a)"
    and "or_empty (output_filters st1) = parse_matchers ms"
proof -
  from assms obtain x where "parse_filters (arg_out_filter a) = Inr x" and "output_filters st1 = x"
      "files st1 = files st" "output_tar st1 = (if present (arg_out a) then arg_out a else None)"
    by (auto simp: configure_tool_def Let_def elim!: bindrE split: if_splits)
  moreover from this(1) have "\<exists>ms. or_empty x = parse_matchers ms"
  proof (cases x)
    case None
    then show ?thesis by (intro exI [of _ "[]"]) (simp add: or_empty_def parse_matchers_def)
  next
    case (Some fs)
    with \<open>parse_filters _ = Inr x\<close> show ?thesis
      by (auto simp: parse_filters_def or_empty_def split: option.splits if_splits)
  qed
  moreover have "archive_file (if present y then y else None) = archive_file y" for y
    by (auto simp: archive_file_def present_def split: option.split)
  ultimately show thesis using that by metis
qed

section \<open>The program\<close>

text \<open>What a host may become: changes at the own places, and elsewhere only what the log adds.\<close>

definition allowed :: "log_place \<Rightarrow> string option \<Rightarrow> host \<Rightarrow> host \<Rightarrow> bool" where
  "allowed place x h h' \<longleftrightarrow> cwd h' = cwd h \<and>
     (\<forall>l. own_place x h l \<or> node_at h' l = node_at h l \<or>
       node_at h l = None \<and> (\<exists>conf log n. configuration_of place h = Inr conf \<and> is_command_log conf \<and>
         exit_code log = 0 \<and> node_at h' l = Some n \<and> log_node place log n))"

lemma in_place_allowed: "in_place x h h' \<Longrightarrow> allowed place x h h'"
  by (auto simp: in_place_def allowed_def)

lemma finish_allowed:
  assumes "in_place x h g" and "configuration_of place h = Inr conf"
  shows "allowed place x h (left_host (finish conf place log g))"
proof (cases "exit_code log = 0 \<and> is_command_log conf")
  case True
  have "left_host (finish conf place log g) = snd (keep_log place log g)"
    using True by (simp add: finish_def stopped_def split: prod.split sum.split)
  with keep_log_only_adds [of place log g] assms True show ?thesis
    unfolding only_adds_def in_place_def allowed_def by metis
next
  case False
  then have "left_host (finish conf place log g) = g" by (auto simp: finish_def)
  with assms(1) show ?thesis by (simp add: in_place_allowed)
qed

lemma main_tool_allowed:
  assumes "safe_diff (a_container env)"
  shows "allowed place (arg_out a) h (left_host (main_tool (make_tool new config_of t) env place k a h f))"
proof -
  have same: "allowed place (arg_out a) h h" by (simp add: in_place_allowed)
  have "allowed place (arg_out a) h (left_host (case run_command env k a st1 of
        (Inl e, h') \<Rightarrow> stopped e h' | (Inr log, h') \<Rightarrow> finish conf place log h'))"
    if conf: "configuration_of place h = Inr conf" and made: "fst (make_tool new config_of t conf a h f) = Inr st"
      and st1: "configure_tool k a st = Inr st1" for conf st st1
  proof -
    from st1 obtain ms where c: "files st1 = files st" "archive_file (output_tar st1) = archive_file (arg_out a)"
      "or_empty (output_filters st1) = parse_matchers ms" by (rule tool_configured)
    from made have "files st = h" by (metis make_tool_files prod.collapse)
    with run_command_in_place [OF assms c(3), of k a] c(1) same_archive [OF c(2)]
    have g: "in_place (arg_out a) h (snd (run_command env k a st1))" by simp
    with finish_allowed [OF g conf] in_place_allowed [OF g] show ?thesis
      by (auto simp: stopped_def split: prod.splits sum.splits)
  qed
  with same show ?thesis by (simp add: main_tool_def stopped_def split: sum.split)
qed

text \<open>
  C1: Whatever the command line says and however the program ends, nothing outside the working
  directory of the host is changed or removed, but for the archive of \<^verbatim>\<open>--out\<close>; what is new there
  is what the log of commands holds for a command that has succeeded, and only where the
  configuration asks for the log.  (\<^verbatim>\<open>list\<close> is another package's command; the container reports no
  changed path with \<open>..\<close> below its working directory.)
\<close>

theorem program_stays_inside:
  assumes "safe_diff (a_container env)" and "parse_command_line (list_parser w) argv = Inr ns"
    and "text_arg ns ''sub_command'' \<noteq> Some ''list''"
    and "h' = left_host (main_program w (make_tool new config_of t) env place argv h f)"
    and "\<not> prefix (cwd h) l" and "\<forall>p. archive_file (arg_out (arguments_of ns)) = Some p \<longrightarrow> l \<noteq> archive_place h p"
  shows "node_at h' l = node_at h l \<or>
    node_at h l = None \<and> (\<exists>conf log n. configuration_of place h = Inr conf \<and> is_command_log conf \<and>
      exit_code log = 0 \<and> node_at h' l = Some n \<and> log_node place log n)"
proof -
  have same: "allowed place x h h" for x by (simp add: in_place_allowed)
  have "allowed place (arg_out (arguments_of ns)) h h'"
    using main_tool_allowed [OF assms(1)] same assms(2-4)
    by (auto simp: main_program_def dispatch_def other_command_def print_result_def printed_def stopped_def
        Let_def split: option.split sum.split)
  moreover have "\<not> own_place (arg_out (arguments_of ns)) h l"
    using assms(5,6) by (simp add: own_place_def split: option.split)
  ultimately show ?thesis unfolding allowed_def by blast
qed

text \<open>The example host with a file outside the working directory.\<close>

definition wide_host :: host where
  "wide_host = tool_host\<lparr>tree := ([''etc''], FileNode [1] 0) # tree tool_host\<rparr>"

theorem program_stays_inside_witness:
  "node_at (left_host (main_program demo_outside demo_make (demo_env hello two_polls 0) demo_place
     demo_line wide_host local_busybox)) [''etc''] = Some (FileNode [1] 0)"
proof -
  have safe: "safe_diff (a_container (demo_env hello two_polls 0))"
    and ns: "parse_command_line (list_parser demo_outside) demo_line = Inr demo_parsed"
    and run: "text_arg demo_parsed ''sub_command'' \<noteq> Some ''list''"
    and out: "\<not> prefix (cwd wide_host) [''etc'']"
    and x: "archive_file (arg_out (arguments_of demo_parsed)) = None"
    and at: "node_at wide_host [''etc''] = Some (FileNode [1] 0)"
    by code_simp+
  from x have "\<forall>p. archive_file (arg_out (arguments_of demo_parsed)) = Some p \<longrightarrow> [''etc''] \<noteq> archive_place wide_host p"
    by simp
  from program_stays_inside [OF safe ns run refl out this] at show ?thesis
    by (auto simp: demo_make_def)
qed

end
