(* ===== verification/Download_Content.thy ===== *)
theory Download_Content
  imports Tar_Download
begin

text \<open>
  The log of a download tells the truth: what it says of a file that was downloaded is so on the
  host when the download is over, although later members have been stored since.
\<close>

section \<open>Files that a copy leaves alone\<close>

definition holds :: "loc \<Rightarrow> ppath \<Rightarrow> node \<Rightarrow> host \<Rightarrow> bool" where
  "holds c p n h \<longleftrightarrow> cwd h = c \<and> locate h p = Inr (c @ pparts p) \<and> node_at h (c @ pparts p) = Some n"

lemma holds_found: "inside_path p \<Longrightarrow> holds c p n h \<longleftrightarrow> cwd h = c \<and> find_node h p = Some n"
  by (auto simp: holds_def find_node_def place_of_def dest: locate_inside split: sum.splits)

lemma holds_changes:
  "only_changes S h h' \<Longrightarrow> dirs_stay h h' \<Longrightarrow> c @ pparts q \<notin> S \<Longrightarrow> holds c q n h \<Longrightarrow> holds c q n h'"
  by (auto simp: only_changes_def holds_def intro: locate_stays)

lemma only_adds_holds: "only_adds P h h' \<Longrightarrow> holds c q n h \<Longrightarrow> holds c q n h'"
  using only_adds_dirs_stay locate_stays unfolding only_adds_def holds_def by (metis option.distinct(1))

lemma make_parents_holds: "keeps (holds c q n) (make_parents now p)"
  using only_adds_holds [OF make_parents_only_adds] by (simp add: keeps_def)

lemma attempt_holds:
  assumes "\<And>h h'. cwd h = c \<Longrightarrow> f h = Inr h' \<Longrightarrow> only_changes (S h) h h' \<and> dirs_stay h h'"
    and "\<And>h. cwd h = c \<Longrightarrow> c @ pparts q \<notin> S h"
  shows "keeps (holds c q n) (attempt f)"
proof (rule keeps_attempt)
  fix h h' assume h: "holds c q n h" and f: "f h = Inr h'"
  from h have "cwd h = c" by (simp add: holds_def)
  with assms f h show "holds c q n h'" by (blast intro: holds_changes)
qed

lemma copy_holds:
  assumes p: "inside_path p" and q: "pparts q \<noteq> pparts p" "pparts q \<noteq> pparts (temp_name p)"
  shows "keeps (holds c q n) (copy_to_host sha now modified p data)"
proof -
  note t = temp_inside [OF p]
  have "keeps (holds c q n) (attempt (write_file now r d))" "keeps (holds c q n) (attempt (unlink r))"
    if "inside_path r" "pparts q \<noteq> pparts r" for r d
    using write_changes [OF _ that(1)] unlink_changes [OF _ that(1)] that(2) write_dirs_stay unlink_dirs_stay
    by (auto intro!: attempt_holds [where S = "\<lambda>h. {place_of h r}"] simp: place_of_def)
  moreover have "keeps (holds c q n) (attempt (rename_file (temp_name p) p))"
    using rename_changes(1) [OF _ t(1) p t(2)] q rename_dirs_stay
    by (intro attempt_holds [where S = "\<lambda>h. {place_of h (temp_name p), place_of h p}"]) (auto simp: place_of_def)
  ultimately show ?thesis
    using p t(1) q by (intro copy_to_host_keeps make_parents_holds) simp_all
qed

text \<open>After a copy the path leads to the file.\<close>

lemma copy_locates:
  assumes c: "copy_to_host sha now modified p data h = (Inr md, h')" and p: "inside_path p"
  shows "\<exists>l. locate h' p = Inr l"
  using c p
proof (cases rule: copy_to_host_cases)
  case (fresh h1)
  from fresh(4) obtain l where "locate h1 p = Inr l" by (auto elim: write_file_Inr)
  from locate_stays [OF this] write_changes [OF fresh(4) p] write_dirs_stay [OF fresh(4)]
  show ?thesis by (auto simp: only_changes_def)
next
  case (replaced h1 h2 h3)
  from replaced(6) obtain l where "locate h3 p = Inr l" by (auto elim: rename_file_Inr)
  from locate_stays [OF this] rename_changes(1) [OF replaced(6) temp_inside(1) [OF p] p temp_inside(2) [OF p]]
    rename_dirs_stay [OF replaced(6)]
  show ?thesis by (auto simp: only_changes_def)
next
  case (identical h1 h2 d)
  from identical(6) obtain l where "locate h2 p = Inr l" by (auto simp: read_file_def elim: bindrE)
  from locate_stays [OF this] unlink_changes [OF identical(8) temp_inside(1) [OF p]] unlink_dirs_stay [OF identical(8)]
  show ?thesis by (auto simp: only_changes_def)
qed

lemma copy_finds:
  assumes c: "copy_to_host sha now modified p data h = (Inr md, h')" and p: "inside_path p"
  shows "md = sha data \<and> cwd h' = cwd h \<and> (\<exists>d t. find_node h' p = Some (FileNode d t) \<and> sha d = sha data)"
proof -
  from copy_to_host_copied [OF c p] have md: "md = sha data" and k: "copied sha now modified p data h h'" by blast+
  from k have "cwd h' = cwd h" by (simp add: copied_def)
  moreover obtain l where l: "locate h' p = Inr l" using copy_locates [OF c p] by blast
  from locate_inside [OF p l] calculation have "l = place_of h p" by (simp add: place_of_def)
  with l k have "\<exists>d t. find_node h' p = Some (FileNode d t) \<and> sha d = sha data"
    using same_content_node [OF p] unfolding copied_def find_node_def by (auto split: if_splits)
  ultimately show ?thesis using md by blast
qed

lemma keeps_on_host: "keeps P m \<Longrightarrow> keeps (\<lambda>st. P (fs st)) (on_host m)"
  by (simp add: keeps_def on_host_def split: prod.split) (metis snd_conv)

lemma log_download_holds: "keeps (\<lambda>st. P (fs st)) (log_download p md t)"
  by (simp add: keeps_def log_download_def)

lemma add_to_archive_holds: "keeps (\<lambda>st. P (fs st)) (add_to_archive sha p m ms)"
  by (simp add: keeps_def add_to_archive_def Let_def split: sum.split prod.split)

lemma store_member_holds:
  assumes p: "inside_path p" and l: "pparts l \<noteq> pparts p" "pparts l \<noteq> pparts (temp_name p)"
  shows "keeps (\<lambda>st. holds c l n (fs st)) (store_member sha now local_time stats p m)"
proof -
  note parts = keeps_on_host [OF copy_holds [OF p l]] keeps_on_host [OF make_parents_holds]
    keeps_on_host [OF keeps_ask] log_download_holds add_to_archive_holds
  show ?thesis
  proof (rule keepsI)
    fix st :: download_state assume st: "holds c l n (fs st)"
    have run: "holds c l n (fs (snd (a st)))" if "keeps (\<lambda>st. holds c l n (fs st)) a" for a :: "(download_state, unit) action"
      using keeps_apply [OF that] st by blast
    have "holds c l n (fs (snd (and_then (on_host (make_parents now p)) (\<lambda>_.
        and_then (on_host (ask (mtime_of p))) (\<lambda>t. log_download p '''' (local_time t))) st)))"
      by (intro run keeps_and_then parts)
    with st run [OF keeps_and_then [OF parts(1) log_download_holds]] run [OF log_download_holds]
      run [OF keeps_and_then [OF add_to_archive_holds log_download_holds]]
    show "holds c l n (fs (snd (store_member sha now local_time stats p m st)))"
      by (simp add: store_member_def give_def split: prod.split option.split)
  qed
qed

section \<open>What is logged\<close>

definition stored_as :: "(bytes \<Rightarrow> string) \<Rightarrow> host \<Rightarrow> ppath \<Rightarrow> file_log \<Rightarrow> host \<Rightarrow> bool" where
  "stored_as sha h p f h' \<longleftrightarrow> path f = resolve h p \<and>
     (\<exists>d t. find_node h' p = Some (FileNode d t) \<and> sha d = digest f)"

lemma store_member_logs:
  assumes p: "inside_path p" and none: "written st = None"
  shows "\<exists>fs'. out_log (snd (store_member sha now local_time stats p m st)) = out_log st @ fs' \<and>
    (\<forall>f \<in> set fs'. digest f \<noteq> '''' \<longrightarrow> stored_as sha (fs st) p f (fs (snd (store_member sha now local_time stats p m st))))"
proof -
  have same: "\<exists>fs'. out_log st = out_log st @ fs' \<and> (\<forall>f \<in> set fs'. Q f)" for Q by (rule exI [of _ "[]"]) simp
  have empty: "\<exists>fs'. out_log (snd (log_download p '''' t st')) = out_log st @ fs' \<and> (\<forall>f \<in> set fs'. digest f \<noteq> '''' \<longrightarrow> Q f)"
    if "out_log st' = out_log st" for t st' Q
    using that by (intro exI [of _ "[new_file_log (resolve (fs st') p) '''' (Some t)]"])
      (simp add: log_download_def new_file_log_def)
  have regular: "\<exists>fs'. out_log st' = out_log st @ fs' \<and>
      (\<forall>f \<in> set fs'. digest f \<noteq> '''' \<longrightarrow> stored_as sha (fs st) p f (fs st'))"
    if st': "st' = snd (and_then (on_host (copy_to_host sha now modified p d)) (\<lambda>md. log_download p md t) st)" for modified d t st'
  proof (cases "copy_to_host sha now modified p d (fs st)")
    case (Pair r h)
    show ?thesis
    proof (cases r)
      case (Inl e)
      with Pair st' same show ?thesis by (simp add: and_then_snd on_host_def)
    next
      case (Inr md)
      with Pair copy_finds [OF _ p] have md: "md = sha d" "cwd h = cwd (fs st)"
        "\<exists>d' t. find_node h p = Some (FileNode d' t) \<and> sha d' = sha d" by blast+
      then have "resolve h p = resolve (fs st) p" by (simp add: resolve_def base_of_def)
      then show ?thesis
        using Pair Inr md st'
        by (intro exI [of _ "[new_file_log (resolve (fs st) p) md (Some t)]"])
          (simp add: and_then_snd on_host_def log_download_def stored_as_def new_file_log_def)
    qed
  qed
  obtain modified unmodified where "check_if_modified stats p m = (modified, unmodified)" by fastforce
  with none same show ?thesis
    by (auto simp: store_member_def give_def regular empty and_then_snd on_host_def ask_def
        split: prod.split sum.split intro: regular [OF refl])
qed

lemma found_read: "find_node h p = Some (FileNode d t) \<Longrightarrow> read_file h p = Inr d"
  by (auto simp: find_node_def read_file_def split: sum.splits)

section \<open>The loop\<close>

text \<open>
  The places of the names are pairwise different, and none is the temporary file of another.
\<close>

definition apart :: "string \<Rightarrow> string list \<Rightarrow> bool" where
  "apart w xs \<longleftrightarrow> list_all (\<lambda>x. list_all (\<lambda>y.
     case (host_place w x, host_place w y) of
       (Some p, Some q) \<Rightarrow> (x = y \<or> p \<noteq> q) \<and> q \<noteq> temp_name p
     | _ \<Rightarrow> True) xs) xs"

lemma apartD:
  assumes "apart w xs" and "x \<in> set xs" and "y \<in> set xs" and "host_place w x = Some p" and "host_place w y = Some q"
  shows "x \<noteq> y \<Longrightarrow> p \<noteq> q" and "q \<noteq> temp_name p"
  using assms by (auto simp: apart_def list_all_iff split: option.splits)

lemma other_place: "inside_path p \<Longrightarrow> inside_path q \<Longrightarrow> p \<noteq> q \<Longrightarrow> pparts p \<noteq> pparts q"
  by (cases p; cases q) (simp add: inside_path_def)

definition truthful :: "(bytes \<Rightarrow> string) \<Rightarrow> host \<Rightarrow> string \<Rightarrow> string set \<Rightarrow> download_state \<Rightarrow> bool" where
  "truthful sha h w W st \<longleftrightarrow> cwd (fs st) = cwd h \<and> written st = None \<and> wanted st \<subseteq> W \<and>
     (\<forall>f \<in> set (out_log st). digest f \<noteq> '''' \<longrightarrow>
        (\<exists>x \<in> W - wanted st. \<exists>p. host_place w x = Some p \<and> stored_as sha h p f (fs st)))"

lemma download_member_truthful:
  assumes W: "\<forall>x \<in> set xs. startswith x w \<and> safe_name w x" and a: "apart w xs"
  shows "keeps (truthful sha h w (set xs)) (download_member sha now local_time stats w f m)"
proof (rule keepsI)
  fix st assume t: "truthful sha h w (set xs) st"
  let ?x = "cont_name f m" and ?st' = "snd (download_member sha now local_time stats w f m st)"
  let ?st1 = "st\<lparr>wanted := wanted st - {?x}, ticks := Suc (ticks st)\<rparr>"
  show "truthful sha h w (set xs) ?st'"
  proof (cases "?x \<in> wanted st \<and> host_place w ?x \<noteq> None")
    case False
    with t have "?st' = st \<or> ?st' = ?st1" by (auto simp: download_member_def give_def Let_def)
    with t show ?thesis unfolding truthful_def by fastforce
  next
    case True
    then obtain p where x: "?x \<in> wanted st" and p: "host_place w ?x = Some p" by blast
    from x t have xW: "?x \<in> set xs" by (auto simp: truthful_def)
    have ip: "inside_path p" using W xW p by (auto intro: host_place_inside)
    have st': "?st' = snd (store_member sha (now (ticks st)) local_time stats p m ?st1)"
      using x p by (simp add: download_member_def Let_def)
    have none: "written ?st1 = None" using t by (simp add: truthful_def)
    from store_member_effect [OF ip, of ?st1]
    have eff: "cwd (fs ?st') = cwd (fs st)" "wanted ?st' = wanted st - {?x}" "written ?st' = None"
      using none unfolding st' by (simp_all add: member_effect_def keeps_outside_def)
    have old: "stored_as sha h q g (fs ?st')"
      if "stored_as sha h q g (fs st)" "host_place w y = Some q" "y \<in> set xs" "y \<noteq> ?x" for y q g
    proof -
      have iq: "inside_path q" using W that(2,3) by (auto intro: host_place_inside)
      from apartD [OF a xW that(3) p that(2)] that(4) have "q \<noteq> p" "q \<noteq> temp_name p" by blast+
      with iq ip temp_inside(1) [OF ip] have l: "pparts q \<noteq> pparts p" "pparts q \<noteq> pparts (temp_name p)"
        by (simp_all add: other_place)
      from that(1) obtain n where "find_node (fs st) q = Some n"
        and n: "path g = resolve h q" "\<exists>d t. n = FileNode d t \<and> sha d = digest g"
        unfolding stored_as_def by blast
      with t iq have "holds (cwd h) q n (fs ?st1)" by (simp add: holds_found truthful_def)
      from keeps_apply [OF store_member_holds [OF ip l] this] n iq show ?thesis
        unfolding stored_as_def st' holds_found [OF iq] by metis
    qed
    have same: "resolve (fs st) p = resolve h p"
      using t by (simp add: truthful_def resolve_def base_of_def)
    then have conv: "stored_as sha (fs st) p g g' = stored_as sha h p g g'" for g g'
      by (simp add: stored_as_def)
    from store_member_logs [OF ip none, of sha "now (ticks st)" local_time stats m]
    obtain new where log: "out_log ?st' = out_log st @ new"
      and new: "\<forall>g \<in> set new. digest g \<noteq> '''' \<longrightarrow> stored_as sha h p g (fs ?st')"
      unfolding st' by (auto simp: conv)
    have "\<exists>y \<in> set xs - wanted ?st'. \<exists>q. host_place w y = Some q \<and> stored_as sha h q g (fs ?st')"
      if g: "g \<in> set (out_log ?st')" "digest g \<noteq> ''''" for g
    proof (cases "g \<in> set new")
      case True
      with new g(2) p xW eff(2) show ?thesis by auto
    next
      case False
      with g log t obtain y q where "y \<in> set xs - wanted st" "host_place w y = Some q" "stored_as sha h q g (fs st)"
        unfolding truthful_def by auto
      with old [OF this(3,2)] x eff(2) show ?thesis by auto
    qed
    with eff t show ?thesis by (auto simp: truthful_def)
  qed
qed

lemma download_files_truthful:
  assumes "download_files sha now local_time stats c tar_text (parse_matchers ms) nd paths implicit x h = (r, st)"
    and "safe_diff c" and "select_files c (parse_matchers ms) nd = Inr cands" and "apart (work_dir_of c) cands"
    and "\<not> given_file x"
  shows "truthful sha h (work_dir_of c) (set cands) st"
proof -
  have safe: "\<forall>x \<in> set cands. startswith x (work_dir_of c) \<and> safe_name (work_dir_of c) x"
    using select_files_inside [OF assms(3)] assms(2)
    by (fastforce simp: safe_diff_def list_all_iff split: if_splits)
  have "archive_file x = None" using assms(5) archive_given by (cases "archive_file x") auto
  with assms(1,3,5) have "fetch_selected sha now local_time stats c paths implicit (begin_download False h cands) = (r, st)"
    by (simp add: download_files_def in_archive_def)
  moreover have "truthful sha h (work_dir_of c) (set cands) (begin_download False h cands)"
    by (simp add: truthful_def begin_download_def)
  ultimately show ?thesis
    using keepsD [OF fetch_selected_keeps [OF download_member_truthful [OF safe assms(4)]]] by blast
qed

text \<open>
  C9: What the log says of a file downloaded to its place on the host is so: after the download, also
  after one that an error has ended, the logged path is that of a selected name and leads to a file
  of the host, whose content has the digest that was logged.  The download is one without \<^verbatim>\<open>--out\<close>,
  from a container that reports no changed path with \<open>..\<close> below its working directory, and the
  selected names have different places on the host, none of them the temporary file of another.
\<close>

theorem logged_downloads_are_there:
  assumes "download_files sha now local_time stats c tar_text (parse_matchers ms) nd paths implicit None h = (r, st)"
    and "safe_diff c" and "select_files c (parse_matchers ms) nd = Inr cands" and "apart (work_dir_of c) cands"
    and "f \<in> set (out_log st)" and "digest f \<noteq> ''''"
  shows "\<exists>x \<in> set cands. \<exists>p d. host_place (work_dir_of c) x = Some p \<and> path f = resolve h p \<and>
    read_file (fs st) p = Inr d \<and> sha d = digest f"
proof -
  have "truthful sha h (work_dir_of c) (set cands) st"
    by (rule download_files_truthful [OF assms(1-4)]) (simp add: given_file_def)
  with assms(5,6) show ?thesis unfolding truthful_def stored_as_def using found_read by blast
qed

theorem logged_downloads_are_there_witness:
  "\<exists>d. read_file (fs (snd (demo_download None))) (PPath '''' [''d'', ''f'']) = Inr d \<and>
    decode_text d = digest (hd (out_log (snd (demo_download None))))"
proof -
  let ?st = "snd (demo_download None)"
  have d: "download_files decode_text (\<lambda>k. 9) (\<lambda>t. DateTime 1 1 1 0 0 0 0) [] demo_container demo_text
      (parse_matchers [''^*.tmp'']) False [] True None download_host = (fst (demo_download None), ?st)"
    by (simp add: demo_download_def)
  have s: "safe_diff demo_container" "select_files demo_container (parse_matchers [''^*.tmp'']) False = Inr [''/w/d/f'']"
    "apart (work_dir_of demo_container) [''/w/d/f'']" "hd (out_log ?st) \<in> set (out_log ?st)" "digest (hd (out_log ?st)) \<noteq> ''''"
    "host_place (work_dir_of demo_container) ''/w/d/f'' = Some (PPath '''' [''d'', ''f''])"
    by code_simp+
  from logged_downloads_are_there [OF d s(1-5)] s(6) show ?thesis by auto
qed

end
