(* ===== verification/Command_Inspector.thy ===== *)
theory Command_Inspector
  imports Command_Log "HOL-Library.Multiset"
begin

text \<open>
  \<^verbatim>\<open>cincan/command_inspector.py\<close>: from a file back to the commands that produced it (fan-in) and
  on to the commands that used it (fan-out), as trees with files and commands in turns, and the
  text they are shown as.  SHA-256 is the parameter \<open>sha\<close>; \<open>entries\<close> is the command log.
\<close>

section \<open>Trees\<close>

text \<open>
  The two classes \<^verbatim>\<open>CommandDependency\<close> and \<^verbatim>\<open>FileDependency\<close> refer to each other: a command node is over the type of
  its files, and a file holds commands over files.
\<close>

datatype 'f command_dep = CmdDep (dep_command: command_log) (cmd_out: bool) (cmd_next: "'f list")

datatype file_dep =
  FileDep (dep_file: ppath) (dep_digest: string) (dep_out: bool) (dep_next: "file_dep command_dep list")

type_synonym cmd_dep = "file_dep command_dep"

section \<open>Digests and paths\<close>

definition hash_of :: "(bytes \<Rightarrow> string) \<Rightarrow> host \<Rightarrow> ppath \<Rightarrow> string" where
  "hash_of sha h file =
     (if \<not> is_file h file then ''''
      else case read_file h file of Inl e \<Rightarrow> '''' | Inr d \<Rightarrow> fst (hash_file sha d))"

definition work_path :: "host \<Rightarrow> ppath \<Rightarrow> ppath \<Rightarrow> ppath" where
  "work_path h work_dir p =
     (if startswith (as_posix p) ''/dev/'' then p
      else case relative_to p work_dir of Inr r \<Rightarrow> r | Inl e \<Rightarrow> resolve h p)"

text \<open>\<^verbatim>\<open>file.as_posix() + ':' + file_digest\<close>, the key of a file that is already covered.\<close>

definition file_check :: "ppath \<Rightarrow> string \<Rightarrow> string" where
  "file_check file d = as_posix file @ '':'' @ d"

section \<open>The search\<close>

text \<open>A loop that collects results while a set grows.\<close>

fun map_state :: "('a \<Rightarrow> 's \<Rightarrow> 'b \<times> 's) \<Rightarrow> 'a list \<Rightarrow> 's \<Rightarrow> 'b list \<times> 's" where
  "map_state f [] s = ([], s)"
| "map_state f (x # xs) s =
     (case f x s of (y, s1) \<Rightarrow> case map_state f xs s1 of (ys, s2) \<Rightarrow> (y # ys, s2))"

text \<open>
  \<^verbatim>\<open>fanin\<close> and \<^verbatim>\<open>fanout\<close> share their shape.  \<open>here\<close> are the files of a command that are compared
  with the file at hand, \<open>there\<close> those the search goes on with.  The set of covered files is
  created when \<^verbatim>\<open>None\<close> is passed, and one object from then on; the recursion is on the depth.
\<close>

primrec fan ::
  "nat \<Rightarrow> bool \<Rightarrow> (command_log \<Rightarrow> file_log list) \<Rightarrow> (command_log \<Rightarrow> file_log list) \<Rightarrow>
   (bytes \<Rightarrow> string) \<Rightarrow> host \<Rightarrow> ppath \<Rightarrow> command_log list \<Rightarrow>
   ppath \<Rightarrow> string option \<Rightarrow> string set \<Rightarrow> file_dep \<times> string set" where
  "fan 0 out here there sha h work_dir entries = (\<lambda>file dgst covered.
     let file_digest = (case dgst of None \<Rightarrow> hash_of sha h file
                        | Some d \<Rightarrow> if d = '''' then hash_of sha h file else d)
     in (FileDep (work_path h work_dir file) file_digest out [], covered))"
| "fan (Suc depth) out here there sha h work_dir entries = (\<lambda>file dgst covered.
     let file_digest = (case dgst of None \<Rightarrow> hash_of sha h file
                        | Some d \<Rightarrow> if d = '''' then hash_of sha h file else d);
         check = file_check file file_digest
     in if check \<in> covered then (FileDep (work_path h work_dir file) file_digest out [], covered)
        else
          case map_state (\<lambda>cmd covered.
                 case map_state (\<lambda>f covered. fan depth out here there sha h work_dir entries
                                   (path f) (Some (digest f)) covered) (there cmd) covered of
                   (nexts, covered') \<Rightarrow> (CmdDep cmd out nexts, covered'))
                 (filter (\<lambda>cmd. list_ex (\<lambda>f. digest f = file_digest) (here cmd))
                    (list_entries True entries))
                 (insert check covered) of
            (cmds, covered') \<Rightarrow> (FileDep (work_path h work_dir file) file_digest out cmds, covered'))"

definition fanin ::
  "(bytes \<Rightarrow> string) \<Rightarrow> host \<Rightarrow> ppath \<Rightarrow> command_log list \<Rightarrow> ppath \<Rightarrow> int \<Rightarrow> file_dep" where
  "fanin sha h work_dir entries file depth =
     fst (fan (nat depth) False out_files in_files sha h work_dir entries file None {})"

definition fanout ::
  "(bytes \<Rightarrow> string) \<Rightarrow> host \<Rightarrow> ppath \<Rightarrow> command_log list \<Rightarrow> ppath \<Rightarrow> int \<Rightarrow> file_dep" where
  "fanout sha h work_dir entries file depth =
     fst (fan (nat depth) True in_files out_files sha h work_dir entries file None {})"

section \<open>Text\<close>

definition indent :: "string \<Rightarrow> string" where
  "indent s = replaced [CHR 0x0A] (CHR 0x0A # ''    '') s"

definition branches :: "string \<Rightarrow> string list \<Rightarrow> string" where
  "branches p nexts = (if nexts = [] then '''' else p @ joined p nexts)"

text \<open>The text of a command node, from the texts of its files.\<close>

primrec show_command_dep :: "string command_dep \<Rightarrow> string" where
  "show_command_dep (CmdDep cmd out nexts) =
     joined '' '' (quote_args (command cmd)) @
     branches (CHR 0x0A # (if out then ''|-->'' else ''^---'')) (map indent nexts)"

primrec show_file_dep :: "file_dep \<Rightarrow> string" where
  "show_file_dep (FileDep file d out nexts) =
     as_posix file @ (if d \<noteq> '''' then '' '' @ take 16 d else ''/'') @
     branches (CHR 0x0A # (if out then ''|-- '' else ''^-- ''))
       (map indent (map show_command_dep (map (map_command_dep show_file_dep) nexts)))"

definition show_cmd_dep :: "cmd_dep \<Rightarrow> string" where
  "show_cmd_dep cmd = show_command_dep (map_command_dep show_file_dep cmd)"

text \<open>The two methods \<^verbatim>\<open>__str__\<close> in terms of each other.\<close>

lemma show_nodes:
  "show_file_dep (FileDep file d out cmds) =
     as_posix file @ (if d \<noteq> '''' then '' '' @ take 16 d else ''/'') @
     branches (CHR 0x0A # (if out then ''|-- '' else ''^-- '')) (map indent (map show_cmd_dep cmds))"
  "show_cmd_dep (CmdDep cmd out nexts) =
     joined '' '' (quote_args (command cmd)) @
     branches (CHR 0x0A # (if out then ''|-->'' else ''^---'')) (map indent (map show_file_dep nexts))"
  by (simp_all add: show_cmd_dep_def o_def)

section \<open>What the search finds\<close>

text \<open>
  Some of the entries of the log, newest first, entries of the same time in the order of the log.
\<close>

definition newest_first :: "(command_log \<Rightarrow> bool) \<Rightarrow> command_log list \<Rightarrow> command_log list \<Rightarrow> bool" where
  "newest_first P entries cmds \<longleftrightarrow>
     mset cmds = filter_mset P (mset entries) \<and> sorted_wrt (\<lambda>a b. log_time b \<le> log_time a) cmds \<and>
     (\<forall>t. filter (\<lambda>c. log_time c = t) cmds = filter (\<lambda>c. P c \<and> log_time c = t) entries)"

text \<open>
  A tree is right when the commands below a file are the entries of the log with a file of its digest,
  newest first, if there are any, and the files below a command are the files of that command, in
  order: each with the path it is shown by, and with the digest that was logged, or that the file
  has now where none was logged.  The whole tree goes in one direction, \<open>out\<close>.
\<close>

definition right_nexts ::
  "(bytes \<Rightarrow> string) \<Rightarrow> host \<Rightarrow> ppath \<Rightarrow> (command_log \<Rightarrow> file_log list) \<Rightarrow> cmd_dep \<Rightarrow> bool" where
  "right_nexts sha h w there cmd \<longleftrightarrow>
     list_all2 (\<lambda>f n. dep_file n = work_path h w (path f) \<and> dep_out n = cmd_out cmd \<and>
         dep_digest n = (if digest f = '''' then hash_of sha h (path f) else digest f))
       (there (dep_command cmd)) (cmd_next cmd)"

primrec right_file ::
  "(bytes \<Rightarrow> string) \<Rightarrow> host \<Rightarrow> ppath \<Rightarrow> (command_log \<Rightarrow> file_log list) \<Rightarrow> (command_log \<Rightarrow> file_log list) \<Rightarrow>
     command_log list \<Rightarrow> file_dep \<Rightarrow> bool" where
  "right_file sha h w here there entries (FileDep fl d out nexts) \<longleftrightarrow>
     (nexts = [] \<or> newest_first (\<lambda>cmd. \<exists>f \<in> set (here cmd). digest f = d) entries (map dep_command nexts)) \<and>
     list_all (\<lambda>c. cmd_out c = out) nexts \<and> list_all (right_nexts sha h w there) nexts \<and>
     list_all (pred_command_dep (right_file sha h w here there entries)) nexts"

definition right_cmd ::
  "(bytes \<Rightarrow> string) \<Rightarrow> host \<Rightarrow> ppath \<Rightarrow> (command_log \<Rightarrow> file_log list) \<Rightarrow> (command_log \<Rightarrow> file_log list) \<Rightarrow>
     command_log list \<Rightarrow> cmd_dep \<Rightarrow> bool" where
  "right_cmd sha h w here there entries cmd \<longleftrightarrow>
     right_nexts sha h w there cmd \<and> pred_command_dep (right_file sha h w here there entries) cmd"

lemma list_entries_newest_first:
  "newest_first (\<lambda>cmd. \<exists>f \<in> set (here cmd). digest f = d) entries
     (filter (\<lambda>cmd. list_ex (\<lambda>f. digest f = d) (here cmd)) (list_entries True entries))"
proof -
  let ?xs = "list_entries True entries" and ?P = "\<lambda>cmd. \<exists>f \<in> set (here cmd). digest f = d"
  have s: "mset ?xs = mset entries" by (simp add: list_entries_def)
  from log_entries_sorted_stably [of True entries] have "sorted (rev (map log_time ?xs))" by simp
  then have "sorted_wrt (\<lambda>a b. log_time b \<le> log_time a) ?xs"
    by (simp add: sorted_wrt_rev sorted_wrt_map)
  then have "sorted_wrt (\<lambda>a b. log_time b \<le> log_time a) (filter ?P ?xs)"
    by (rule sorted_wrt_filter)
  moreover have "filter (\<lambda>c. log_time c = t) (filter ?P ?xs) = filter (\<lambda>c. ?P c \<and> log_time c = t) entries" for t
  proof -
    have "filter (\<lambda>c. log_time c = t) (filter ?P ?xs) = filter ?P (filter (\<lambda>c. log_time c = t) ?xs)"
      by (simp add: conj_commute)
    also have "\<dots> = filter ?P (filter (\<lambda>c. log_time c = t) entries)"
      using log_entries_sorted_stably [of True entries t] by simp
    finally show ?thesis by (simp add: conj_commute)
  qed
  ultimately show ?thesis using s by (simp add: newest_first_def list_ex_iff)
qed

definition highest :: "nat command_dep \<Rightarrow> nat" where
  "highest cmd = fold max (cmd_next cmd) 0"

primrec file_height :: "file_dep \<Rightarrow> nat" where
  "file_height (FileDep fl d out nexts) =
     (if nexts = [] then 0 else Suc (fold max (map highest (map (map_command_dep file_height) nexts)) 0))"

definition cmd_height :: "cmd_dep \<Rightarrow> nat" where
  "cmd_height cmd = highest (map_command_dep file_height cmd)"

lemma cmd_node_simps [simp]:
  "right_cmd sha h w here there entries (CmdDep cmd out nexts) \<longleftrightarrow>
     list_all2 (\<lambda>f n. dep_file n = work_path h w (path f) \<and> dep_out n = out \<and>
         dep_digest n = (if digest f = '''' then hash_of sha h (path f) else digest f)) (there cmd) nexts \<and>
     list_all (right_file sha h w here there entries) nexts"
  "cmd_height (CmdDep cmd out nexts) = fold max (map file_height nexts) 0"
  by (simp_all add: right_cmd_def right_nexts_def cmd_height_def highest_def)

lemma map_state_collect:
  assumes "map_state f xs s = (ys, s')" and "\<And>x s y s'. x \<in> set xs \<Longrightarrow> f x s = (y, s') \<Longrightarrow> P x y"
  shows "list_all2 P xs ys"
  using assms
proof (induction xs arbitrary: ys s s')
  case (Cons x xs)
  obtain y s1 where y: "f x s = (y, s1)" by fastforce
  obtain zs s2 where zs: "map_state f xs s1 = (zs, s2)" by fastforce
  from Cons.prems(1) y zs have "ys = y # zs" by simp
  moreover have "list_all2 P xs zs" by (rule Cons.IH [OF zs]) (rule Cons.prems(2), simp_all)
  ultimately show ?case using Cons.prems(2) [OF _ y] by simp
qed simp

lemma map_state_grows:
  assumes "map_state f xs s = (ys, s')" and "\<And>x s y s'. x \<in> set xs \<Longrightarrow> f x s = (y, s') \<Longrightarrow> s \<subseteq> s'"
  shows "s \<subseteq> s'"
  using assms
proof (induction xs arbitrary: ys s s')
  case (Cons x xs)
  obtain y s1 where y: "f x s = (y, s1)" by fastforce
  obtain zs s2 where zs: "map_state f xs s1 = (zs, s2)" by fastforce
  have "s1 \<subseteq> s2" by (rule Cons.IH [OF zs]) (rule Cons.prems(2), simp_all)
  with Cons.prems(1) y zs Cons.prems(2) [OF _ y] show ?case by auto
qed simp

lemma fold_max_le: "list_all (\<lambda>x. x \<le> b) xs \<Longrightarrow> a \<le> b \<Longrightarrow> fold max xs a \<le> (b::nat)"
  by (induction xs arbitrary: a) auto

text \<open>One call of the search, taken apart.\<close>

definition digest_of :: "(bytes \<Rightarrow> string) \<Rightarrow> host \<Rightarrow> ppath \<Rightarrow> string option \<Rightarrow> string" where
  "digest_of sha h fl dgst =
     (case dgst of None \<Rightarrow> hash_of sha h fl | Some d \<Rightarrow> if d = '''' then hash_of sha h fl else d)"

lemma fan_Suc_cases:
  assumes "fan (Suc depth) out here there sha h w entries fl dgst covered = (t, covered')"
  obtains "t = FileDep (work_path h w fl) (digest_of sha h fl dgst) out []" and "covered' = covered"
  | cmds where "t = FileDep (work_path h w fl) (digest_of sha h fl dgst) out cmds"
      and "map_state (\<lambda>cmd covered.
                 case map_state (\<lambda>f covered. fan depth out here there sha h w entries
                                   (path f) (Some (digest f)) covered) (there cmd) covered of
                   (nexts, covered') \<Rightarrow> (CmdDep cmd out nexts, covered'))
                 (filter (\<lambda>cmd. list_ex (\<lambda>f. digest f = digest_of sha h fl dgst) (here cmd)) (list_entries True entries))
                 (insert (file_check fl (digest_of sha h fl dgst)) covered) = (cmds, covered')"
proof (cases "file_check fl (digest_of sha h fl dgst) \<in> covered")
  case True
  with assms that(1) show ?thesis by (simp add: Let_def digest_of_def [symmetric])
next
  case False
  let ?d = "digest_of sha h fl dgst"
  let ?m = "map_state (\<lambda>cmd covered.
               case map_state (\<lambda>f covered. fan depth out here there sha h w entries
                                 (path f) (Some (digest f)) covered) (there cmd) covered of
                 (nexts, covered') \<Rightarrow> (CmdDep cmd out nexts, covered'))
               (filter (\<lambda>cmd. list_ex (\<lambda>f. digest f = ?d) (here cmd)) (list_entries True entries))
               (insert (file_check fl ?d) covered)"
  obtain cmds c where m: "?m = (cmds, c)" by (cases ?m)
  with assms False have "t = FileDep (work_path h w fl) ?d out cmds" "c = covered'"
    by (simp_all add: Let_def digest_of_def [symmetric])
  with m that(2) show ?thesis by blast
qed

text \<open>What one call establishes about its tree and the covered set.\<close>

definition good_call :: "nat \<Rightarrow> bool \<Rightarrow> (command_log \<Rightarrow> file_log list) \<Rightarrow> (command_log \<Rightarrow> file_log list) \<Rightarrow>
    (bytes \<Rightarrow> string) \<Rightarrow> host \<Rightarrow> ppath \<Rightarrow> command_log list \<Rightarrow> ppath \<Rightarrow> string option \<Rightarrow> string set \<Rightarrow>
    file_dep \<times> string set \<Rightarrow> bool" where
  "good_call n out here there sha h w entries fl dgst covered r \<longleftrightarrow>
     right_file sha h w here there entries (fst r) \<and> file_height (fst r) \<le> n \<and> covered \<subseteq> snd r \<and>
     dep_file (fst r) = work_path h w fl \<and> dep_digest (fst r) = digest_of sha h fl dgst \<and> dep_out (fst r) = out"

lemma good_call_step:
  assumes IH: "\<And>fl dgst covered. good_call n out here there sha h w entries fl dgst covered
      (fan n out here there sha h w entries fl dgst covered)"
    and f: "(case map_state (\<lambda>f covered. fan n out here there sha h w entries
                               (path f) (Some (digest f)) covered) (there cmd) s of
              (nexts, covered') \<Rightarrow> (CmdDep cmd out nexts, covered')) = (y, s')"
  shows "dep_command y = cmd \<and> cmd_out y = out \<and> right_cmd sha h w here there entries y \<and> cmd_height y \<le> n \<and> s \<subseteq> s'"
proof -
  let ?go = "\<lambda>f covered. fan n out here there sha h w entries (path f) (Some (digest f)) covered"
  let ?fits = "\<lambda>f t. dep_file t = work_path h w (path f) \<and> dep_out t = out \<and>
      dep_digest t = (if digest f = '''' then hash_of sha h (path f) else digest f)"
  obtain nexts where m: "map_state ?go (there cmd) s = (nexts, s')" and y: "y = CmdDep cmd out nexts"
    using f by (cases "map_state ?go (there cmd) s") auto
  have "list_all2 (\<lambda>f t. right_file sha h w here there entries t \<and> file_height t \<le> n \<and> ?fits f t) (there cmd) nexts"
  proof (rule map_state_collect [OF m])
    fix x c t c' assume "?go x c = (t, c')"
    with IH [of "path x" "Some (digest x)" c]
    show "right_file sha h w here there entries t \<and> file_height t \<le> n \<and> ?fits x t"
      by (auto simp: good_call_def digest_of_def)
  qed
  then have "list_all2 ?fits (there cmd) nexts"
    and "list_all (right_file sha h w here there entries) nexts" and "list_all (\<lambda>t. file_height t \<le> n) nexts"
    by (auto simp: list_all2_conv_all_nth list_all_length)
  moreover have "s \<subseteq> s'"
  proof (rule map_state_grows [OF m])
    fix x c t c' assume "?go x c = (t, c')"
    with IH [of "path x" "Some (digest x)" c] show "c \<subseteq> c'" by (auto simp: good_call_def)
  qed
  ultimately show ?thesis
    using y by (simp add: list_all_iff list.pred_map o_def) (rule fold_max_le, auto simp: list_all_iff)
qed

lemma fan_good:
  "good_call n out here there sha h w entries fl dgst covered (fan n out here there sha h w entries fl dgst covered)"
proof (induction n arbitrary: fl dgst covered)
  case 0
  show ?case by (auto simp: good_call_def digest_of_def Let_def split: option.splits)
next
  case (Suc n)
  let ?d = "digest_of sha h fl dgst"
  obtain t covered' where r: "fan (Suc n) out here there sha h w entries fl dgst covered = (t, covered')"
    by fastforce
  from r show ?case
  proof (cases rule: fan_Suc_cases)
    case 1
    then show ?thesis unfolding r by (auto simp: good_call_def)
  next
    case (2 cmds)
    let ?es = "filter (\<lambda>cmd. list_ex (\<lambda>f. digest f = ?d) (here cmd)) (list_entries True entries)"
    have "list_all2 (\<lambda>cmd y. dep_command y = cmd \<and> cmd_out y = out \<and> right_cmd sha h w here there entries y \<and>
        cmd_height y \<le> n) ?es cmds"
      by (rule map_state_collect [OF 2(2)]) (use good_call_step [OF Suc.IH] in blast)
    then have "map dep_command cmds = ?es" and "list_all (right_cmd sha h w here there entries) cmds"
      and out: "list_all (\<lambda>c. cmd_out c = out) cmds" and height: "list_all (\<lambda>y. cmd_height y \<le> n) cmds"
      by (auto simp: list_all2_conv_all_nth list_all_length list_eq_iff_nth_eq)
    then have "right_file sha h w here there entries t"
      using 2(1) list_entries_newest_first [of here ?d entries] by (simp add: list_all_iff right_cmd_def)
    moreover have "fold max (map highest (map (map_command_dep file_height) cmds)) 0 \<le> n"
      using height by (intro fold_max_le) (auto simp: list_all_iff cmd_height_def)
    moreover have "insert (file_check fl ?d) covered \<subseteq> covered'"
      by (rule map_state_grows [OF 2(2)]) (use good_call_step [OF Suc.IH] in blast)
    ultimately show ?thesis unfolding r using 2(1) by (auto simp: good_call_def)
  qed
qed

text \<open>At the root nothing is covered yet: every command with a file of the digest is there.\<close>

lemma fan_root:
  "map dep_command (dep_next (fst (fan (Suc n) out here there sha h w entries fl None {}))) =
     filter (\<lambda>cmd. list_ex (\<lambda>f. digest f = hash_of sha h fl) (here cmd)) (list_entries True entries) \<and>
   dep_digest (fst (fan (Suc n) out here there sha h w entries fl None {})) = hash_of sha h fl"
proof -
  let ?d = "hash_of sha h fl"
  let ?step = "\<lambda>cmd covered.
       case map_state (\<lambda>f covered. fan n out here there sha h w entries
                         (path f) (Some (digest f)) covered) (there cmd) covered of
         (nexts, covered') \<Rightarrow> (CmdDep cmd out nexts, covered')"
  let ?es = "filter (\<lambda>cmd. list_ex (\<lambda>f. digest f = ?d) (here cmd)) (list_entries True entries)"
  obtain cmds c where m: "map_state ?step ?es {file_check fl ?d} = (cmds, c)" by fastforce
  have "list_all2 (\<lambda>cmd y. dep_command y = cmd) ?es cmds"
    by (rule map_state_collect [OF m]) (auto split: prod.splits)
  then have "map dep_command cmds = ?es" by (rule list_all2_map_back)
  with m show ?thesis by (simp add: Let_def)
qed

section \<open>Properties\<close>

text \<open>
  C30: the fan-in of a file is right: the commands below a file are the entries of the log that wrote a
  file of its digest, newest first, and below the file that was asked for all of them are there if
  the depth is at least 1 (and none otherwise);
  the files below a command are its inputs, in order, each with its path and digest; and no branch
  passes more commands than the depth asked for.
\<close>

theorem fanin_is_right:
  fixes fl :: ppath and h :: host and entries :: "command_log list" and depth :: int
    and sha :: "bytes \<Rightarrow> string" and work_dir :: ppath
  defines "found \<equiv> fanin sha h work_dir entries fl depth"
  shows "dep_file found = work_path h work_dir fl \<and> dep_digest found = hash_of sha h fl \<and>
    dep_out found = False \<and>
    right_file sha h work_dir out_files in_files entries found \<and> file_height found \<le> nat depth \<and>
    (if depth < 1 then dep_next found = []
     else newest_first (\<lambda>cmd. \<exists>f \<in> set (out_files cmd). digest f = hash_of sha h fl) entries
       (map dep_command (dep_next found)))"
proof -
  have "if depth < 1 then dep_next found = []
    else newest_first (\<lambda>cmd. \<exists>f \<in> set (out_files cmd). digest f = hash_of sha h fl) entries
      (map dep_command (dep_next found))"
    using fan_root [of "nat depth - 1" False out_files in_files sha h work_dir entries fl]
      list_entries_newest_first [of out_files "hash_of sha h fl" entries]
    by (cases "nat depth") (simp_all add: found_def fanin_def Let_def del: fan.simps(2))
  then show ?thesis
    using fan_good [of "nat depth" False out_files in_files sha h work_dir entries fl None "{}"]
    by (simp add: found_def fanin_def good_call_def digest_of_def)
qed

text \<open>
  The fan-out of a file is right in the same way, with the inputs and the outputs of a command
  in each other's place.
\<close>

theorem fanout_is_right:
  fixes fl :: ppath and h :: host and entries :: "command_log list" and depth :: int
    and sha :: "bytes \<Rightarrow> string" and work_dir :: ppath
  defines "found \<equiv> fanout sha h work_dir entries fl depth"
  shows "dep_file found = work_path h work_dir fl \<and> dep_digest found = hash_of sha h fl \<and>
    dep_out found = True \<and>
    right_file sha h work_dir in_files out_files entries found \<and> file_height found \<le> nat depth \<and>
    (if depth < 1 then dep_next found = []
     else newest_first (\<lambda>cmd. \<exists>f \<in> set (in_files cmd). digest f = hash_of sha h fl) entries
       (map dep_command (dep_next found)))"
proof -
  have "if depth < 1 then dep_next found = []
    else newest_first (\<lambda>cmd. \<exists>f \<in> set (in_files cmd). digest f = hash_of sha h fl) entries
      (map dep_command (dep_next found))"
    using fan_root [of "nat depth - 1" True in_files out_files sha h work_dir entries fl]
      list_entries_newest_first [of in_files "hash_of sha h fl" entries]
    by (cases "nat depth") (simp_all add: found_def fanout_def Let_def del: fan.simps(2))
  then show ?thesis
    using fan_good [of "nat depth" True in_files out_files sha h work_dir entries fl None "{}"]
    by (simp add: found_def fanout_def good_call_def digest_of_def)
qed

text \<open>
  A file that a logged command has produced is traced back to it: once the entry of the command is
  written, the fan-in of every file with the digest of one of its outputs, in the index read
  from the log, has the command directly below the file.
\<close>

theorem produced_file_is_traced:
  assumes "write_log clock now dir log h = Some (Inr h')"
    and "wf_command_log log" and "storable (JInt (exit_code log))" and "3 \<le> deep"
    and "list_all (\<lambda>f. \<not> is_dir h f) (iterdir h dir)" and "load_index (Suc n) deep h dir = Inr logs"
    and "f \<in> set (out_files log)" and "hash_of sha g fl = digest f" and "0 < depth"
  shows "\<exists>logs'. load_index (Suc n) deep h' dir = Inr logs' \<and>
    log\<lparr>exit_code := 0, log_stdin := [], log_stdout := [], log_stderr := []\<rparr> \<in>
      set (map dep_command (dep_next (fanin sha g work_dir logs' fl depth)))"
proof -
  let ?log = "log\<lparr>exit_code := 0, log_stdin := [], log_stdout := [], log_stderr := []\<rparr>"
  from write_log_indexed [OF assms(1-6)] have index: "load_index (Suc n) deep h' dir = Inr (logs @ [?log])"
    by (simp add: as_read_def)
  have "x \<in> set (list_entries True xs)" if "x \<in> set xs" for x xs
    using that by (simp add: list_entries_def)
  then have "?log \<in> set (list_entries True (logs @ [?log]))" by simp
  moreover have "list_ex (\<lambda>f. digest f = hash_of sha g fl) (out_files ?log)"
    using assms(7,8) by (auto simp: list_ex_iff)
  moreover obtain m where "nat depth = Suc m" using assms(9) by (cases "nat depth") auto
  ultimately have "?log \<in> set (map dep_command (dep_next (fanin sha g work_dir (logs @ [?log]) fl depth)))"
    using fan_root [of m False out_files in_files sha g work_dir "logs @ [?log]" fl]
    by (simp add: fanin_def del: fan.simps)
  with index show ?thesis by blast
qed

theorem produced_file_is_traced_witness:
  "\<exists>h' logs'. write_log (\<lambda>k. demo_time) 0 (PPath ''/'' []) demo_log empty_host = Some (Inr h') \<and>
    load_index (Suc 0) 3 h' (PPath ''/'' []) = Inr logs' \<and>
    demo_log\<lparr>exit_code := 0, log_stdin := [], log_stdout := [], log_stderr := []\<rparr> \<in>
      set (map dep_command (dep_next (fanin (\<lambda>d. ''cd34'') \<lparr>cwd = [], tree = [([''g''], FileNode [7] 0)]\<rparr>
        (PPath ''/'' []) logs' (PPath '''' [''g'']) 2)))"
proof -
  obtain h' where w: "write_log (\<lambda>k. demo_time) 0 (PPath ''/'' []) demo_log empty_host = Some (Inr h')"
    by (rule demo_written)
  have "storable (JInt 0)" by code_simp
  then have e: "storable (JInt (exit_code demo_log))" by (simp add: demo_log_def)
  have d: "list_all (\<lambda>f. \<not> is_dir empty_host f) (iterdir empty_host (PPath ''/'' []))" by code_simp
  have i: "load_index (Suc 0) 3 empty_host (PPath ''/'' []) = Inr []" by code_simp
  have o: "new_file_log (PPath ''/'' [''dev'', ''stdout'']) ''cd34'' None \<in> set (out_files demo_log)"
    by (simp add: demo_log_def)
  have s: "hash_of (\<lambda>d. ''cd34'') \<lparr>cwd = [], tree = [([''g''], FileNode [7] 0)]\<rparr> (PPath '''' [''g'']) =
      digest (new_file_log (PPath ''/'' [''dev'', ''stdout'']) ''cd34'' None)"
    by (simp add: hash_of_def is_file_def find_node_def locate_def base_of_def is_absolute_def node_at_def
        entry_at_def dotdot_def read_file_def hash_file_eq new_file_log_def)
  from w produced_file_is_traced [OF w wf_demo_log e le_refl d i o s, of 2 "PPath ''/'' []"] show ?thesis by auto
qed

text \<open>
  The search takes a file that is not there for the output of every command that produced a
  directory, because directories are logged with an empty digest, and a missing file has one.
\<close>

theorem missing_file_matches_directories:
  assumes "\<not> is_file h fl" and "list_ex (\<lambda>f. digest f = '''') (out_files cmd)"
    and "cmd \<in> set entries" and "0 < depth"
  shows "cmd \<in> set (map dep_command (dep_next (fanin sha h work_dir entries fl depth)))"
proof -
  obtain n where "nat depth = Suc n" using assms(4) by (cases "nat depth") auto
  moreover have "hash_of sha h fl = ''''" using assms(1) by (simp add: hash_of_def)
  moreover have "cmd \<in> set (list_entries True entries)" using assms(3) by (simp add: list_entries_def)
  ultimately show ?thesis
    using assms(2) fan_root [of n False out_files in_files sha h work_dir entries fl]
    by (simp add: fanin_def del: fan.simps)
qed

theorem missing_file_matches_directories_witness:
  "demo_log\<lparr>out_files := [new_file_log (PPath ''/'' [''w'', ''d'']) '''' None]\<rparr> \<in>
   set (map dep_command (dep_next (fanin (\<lambda>d. ''ff'') \<lparr>cwd = [], tree = []\<rparr> (PPath ''/'' [''w''])
     [demo_log\<lparr>out_files := [new_file_log (PPath ''/'' [''w'', ''d'']) '''' None]\<rparr>]
     (PPath '''' [''no-such-fl'']) 1)))"
proof (rule missing_file_matches_directories)
  show "\<not> is_file \<lparr>cwd = [], tree = []\<rparr> (PPath '''' [''no-such-fl''])" by code_simp
qed (simp_all add: new_file_log_def)

end
