(* ===== verification/Run_Log.thy ===== *)
theory Run_Log
  imports Download_Content Front_End Command_Inspector
begin

text \<open>
  The log of a run as a whole: what it says of the outputs is so on the host when the run is over,
  and once it is written, the command is found from the files that it has produced.
\<close>

section \<open>The outputs of a run\<close>

definition stream_paths :: "ppath set" where
  "stream_paths = {parse_path ''/dev/stdout'', parse_path ''/dev/stderr''}"

text \<open>The names selected for the download do not get in each other's way.\<close>

definition names_apart :: "'s environment \<Rightarrow> file_matcher list \<Rightarrow> bool \<Rightarrow> bool" where
  "names_apart env filters nd \<longleftrightarrow>
     (case select_files (a_container env) filters nd of
        Inl e \<Rightarrow> True
      | Inr cands \<Rightarrow> apart (work_dir_of (a_container env)) cands)"

text \<open>An entry is one of the streams, or a file of the host has its digest.\<close>

definition true_entry :: "(bytes \<Rightarrow> string) \<Rightarrow> host \<Rightarrow> host \<Rightarrow> file_log \<Rightarrow> bool" where
  "true_entry hf h h' f \<longleftrightarrow> (digest f \<noteq> '''' \<longrightarrow> path f \<in> stream_paths \<or> (\<exists>p. stored_as hf h p f h'))"

lemma finish_log_outputs:
  "\<forall>f \<in> set (out_files (finish_log hf stdin_too buffered result st log)) - set (out_files log).
     path f \<in> stream_paths"
  by (auto simp: finish_log_def Let_def optional_entry_def stream_entry_def stream_paths_def new_file_log_def
      split: option.splits if_splits)

lemma execute_outputs:
  assumes "execute env log0 st = (Inr log1, st1)" and "out_files log0 = []"
  shows "\<forall>f \<in> set (out_files log1). path f \<in> stream_paths"
  using assms finish_log_outputs [of _ _ _ _ _ log0]
  by (fastforce simp: execute_def container_exec_def start_failed_def bindr_eq_Inr Let_def split: sum.splits if_splits prod.splits)

lemma download_results_true:
  assumes d: "download_results env log st = (Inr log', st')"
    and env: "safe_diff (a_container env)" "or_empty (output_filters st) = parse_matchers ms" "\<not> given_file (output_tar st)"
      "names_apart env (parse_matchers ms) (no_defaults st)"
    and cwd: "cwd (files st) = cwd h" and log: "\<forall>f \<in> set (out_files log). path f \<in> stream_paths"
  shows "\<forall>f \<in> set (out_files log'). true_entry (sha env) h (files st') f"
proof -
  from d obtain paths implicit ds where
    down: "download_files (sha env) (clock env) (zone env) (stats_of st) (a_container env) (tar_text env)
        (parse_matchers ms) (no_defaults st) paths implicit (output_tar st) (files st) = (Inr (), ds)"
    and log': "out_files log' = out_files log @ out_log ds" and st': "files st' = fs ds"
    unfolding download_results_def Let_def env(2) by (auto simp: bindr_eq_Inr split: prod.splits)
  obtain cands where sel: "select_files (a_container env) (parse_matchers ms) (no_defaults st) = Inr cands"
    using down download_files_unselected by (cases "select_files (a_container env) (parse_matchers ms) (no_defaults st)") auto
  have "apart (work_dir_of (a_container env)) cands" using env(4) sel by (simp add: names_apart_def)
  from download_files_truthful [OF down env(1) sel this env(3)]
  have "\<forall>f \<in> set (out_log ds). digest f \<noteq> '''' \<longrightarrow> (\<exists>p. stored_as (sha env) (files st) p f (files st'))"
    unfolding truthful_def st' by blast
  moreover have "stored_as s (files st) p f g = stored_as s h p f g" for s p f g
    using cwd by (simp add: stored_as_def resolve_def base_of_def)
  ultimately show ?thesis using log unfolding log' true_entry_def by auto
qed

lemma download_results_settings:
  "download_results env log st = (r, st') \<Longrightarrow>
     output_filters st' = output_filters st \<and> output_tar st' = output_tar st \<and> no_defaults st' = no_defaults st"
  by (auto simp: download_results_def Let_def split: prod.splits)

lemma run_body_true:
  assumes b: "run_body env log0 ins st = (Inr log, st')" and log0: "out_files log0 = []"
    and env: "safe_diff (a_container env)" "or_empty (output_filters st) = parse_matchers ms" "\<not> given_file (output_tar st)"
      "names_apart env (parse_matchers ms) (no_defaults st)"
  shows "\<forall>f \<in> set (out_files log). true_entry (sha env) (files st) (files st') f"
proof -
  obtain r st1 where e: "execute env log0 st = (r, st1)" by fastforce
  then have st1: "st1 = st\<lparr>terminal := terminal st1\<rparr>" by (auto simp: execute_def split: prod.splits)
  have true: "\<forall>f \<in> set (out_files log). true_entry (sha env) (files st) (files st') f"
    if "download_results env log1 st2 = (Inr log, st')" "\<forall>f \<in> set (out_files log1). path f \<in> stream_paths"
      "cwd (files st2) = cwd (files st)" "output_filters st2 = output_filters st" "output_tar st2 = output_tar st"
      "no_defaults st2 = no_defaults st" for log1 st2
    using download_results_true [OF that(1) env(1) _ _ _ that(3,2), of ms] env that(4-6) by simp
  have same: "files st1 = files st" "output_filters st1 = output_filters st" "output_tar st1 = output_tar st"
      "no_defaults st1 = no_defaults st"
    by (subst st1, simp)+
  show ?thesis
  proof (cases r)
    case (Inl x)
    with b have "download_results env log0 st1 = (Inr log, st')" by (simp add: run_body_cases [OF e] split: if_splits)
    with true [OF this] log0 same show ?thesis by simp
  next
    case (Inr log1)
    let ?log = "log1\<lparr>in_files := in_files log1 @ ins\<rparr>"
    from execute_outputs [OF e [unfolded Inr] log0] have streams: "\<forall>f \<in> set (out_files ?log). path f \<in> stream_paths" by auto
    show ?thesis
    proof (cases "exit_code log1 = 0")
      case False
      with b Inr have "log = ?log" by (simp add: run_body_cases [OF e] Let_def)
      with streams show ?thesis by (simp add: true_entry_def)
    next
      case True
      with b Inr have "handle (download_results env ?log)
          (\<lambda>e. if e = KeyboardInterrupt then download_results env ?log else raise e) st1 = (Inr log, st')"
        by (simp add: run_body_cases [OF e] Let_def)
      then show ?thesis
      proof (cases rule: handle_Inr)
        case 1
        from true [OF this streams] same show ?thesis by simp
      next
        case (2 x st2)
        then have again: "download_results env ?log st2 = (Inr log, st')" by (simp split: if_splits)
        from keepsD [OF download_results_stays [OF env(1)] _ 2(1), of "output_tar st" "files st" ms] same env(2)
        have "stays (output_tar st) (files st) (files st2)" by simp
        then have "cwd (files st2) = cwd (files st)"
          by (simp add: stays_def keeps_outside_def writes_only_def split: option.splits)
        with true [OF again streams] download_results_settings [OF 2(1)] same show ?thesis by simp
      qed
    qed
  qed
qed

lemma run_log_entry:
  assumes "run_tool env args st = (Inr log, st')" and "safe_diff (a_container env)"
    and "or_empty (output_filters st) = parse_matchers ms" and "names_apart env (parse_matchers ms) (no_defaults st)"
    and "\<not> given_file (output_tar st)" and "f \<in> set (out_files log)" and "digest f \<noteq> ''''"
  shows "path f \<in> stream_paths \<or> (\<exists>p. stored_as (sha env) (files st) p f (files st'))"
proof -
  from assms(1) obtain ups log0 ins st1 st2 where p: "prepare env args st = (Inr (ups, log0, ins), st1)"
    and b: "run_body env log0 ins st1 = (Inr log, st2)" and same: "files_are (download_settings st) st1"
    and "files st' = files st2" by (rule run_tool_body)
  with run_body_true [OF b _ assms(2), of ms] prepare_log [OF p] assms(3-6)
  have "true_entry (sha env) (files st) (files st') f" by simp
  with assms(7) show ?thesis by (simp add: true_entry_def)
qed

text \<open>
  C4: The log of a run tells the truth: every output that it lists with a digest is the standard
  output, the standard error, or a file of the host with this digest when the run is over, if the
  names selected for the download do not get in each other's way and there is no \<^verbatim>\<open>--out\<close>.
\<close>

theorem run_log_is_true:
  assumes "run_tool env args st = (Inr log, st')" and "safe_diff (a_container env)"
    and "or_empty (output_filters st) = parse_matchers ms" and "names_apart env (parse_matchers ms) (no_defaults st)"
    and "\<not> given_file (output_tar st)" and "f \<in> set (out_files log)" and "digest f \<noteq> ''''"
  shows "path f \<in> {parse_path ''/dev/stdout'', parse_path ''/dev/stderr''} \<or>
    (\<exists>p d. path f = resolve (files st) p \<and> read_file (files st') p = Inr d \<and> sha env d = digest f)"
  using run_log_entry [OF assms] found_read by (auto simp: stored_as_def stream_paths_def)

section \<open>From a file to the command\<close>

text \<open>Writing the log leaves every file that was there as it was.\<close>

lemma logging_keeps_files:
  assumes "open_log now (home w) (uuid w) d h = (Inr dir, h1)" and "write_log clk now dir log h1 = Some (Inr h')"
    and "find_node h p = Some n"
  shows "find_node h' p = Some n"
proof -
  have "only_adds (\<lambda>n. True) h h1"
    using keepsD [OF open_log_only_adds [of "\<lambda>n. True"] only_adds_refl assms(1)] by simp
  from only_adds_found [OF this assms(3)] have "find_node h1 p = Some n" .
  with only_adds_found [OF write_log_only_adds [OF assms(2)]] show ?thesis by blast
qed

lemma stored_hash:
  assumes "stored_as hf h p f h'" and "\<And>n. find_node h' p = Some n \<Longrightarrow> find_node g p = Some n"
  shows "hash_of hf g p = digest f"
proof -
  from assms obtain d t where "find_node g p = Some (FileNode d t)" "hf d = digest f"
    unfolding stored_as_def by blast
  then show ?thesis using found_read by (simp add: hash_of_def is_file_def hash_file_eq)
qed

text \<open>
  C39: A file that a run has downloaded leads back to the run: once the log of the run is written,
  the fan-in of the file, in the index read from the log, has the command directly below the file.
  The run is one without \<^verbatim>\<open>--out\<close>, from a container that reports no changed path with \<open>..\<close>
  below its working directory; the names it selects have different places on the host, none of them
  the temporary file of another; and the directory of the log holds log files only, all readable,
  and is searched at least one level deep.
\<close>

theorem downloaded_file_is_traced:
  assumes "run_tool env args st = (Inr log, st')" and "safe_diff (a_container env)"
    and "or_empty (output_filters st) = parse_matchers ms" and "names_apart env (parse_matchers ms) (no_defaults st)"
    and "\<not> given_file (output_tar st)" and "f \<in> set (out_files log)" and "digest f \<noteq> ''''"
    and "path f \<notin> {parse_path ''/dev/stdout'', parse_path ''/dev/stderr''}"
    and "open_log now (home w) (uuid w) None (files st') = (Inr dir, h1)" and "write_log clk now dir log h1 = Some (Inr h')"
    and "wf_command_log log" and "storable (JInt (exit_code log))" and "3 \<le> deep"
    and "list_all (\<lambda>q. \<not> is_dir h1 q) (iterdir h1 dir)" and "load_index (Suc n) deep h1 dir = Inr logs"
    and "0 < levels"
  shows "\<exists>logs' p. load_index (Suc n) deep h' dir = Inr logs' \<and> path f = resolve (files st) p \<and>
    log\<lparr>exit_code := 0, log_stdin := [], log_stdout := [], log_stderr := []\<rparr> \<in>
      set (map dep_command (dep_next (fanin (sha env) h' work_dir logs' p levels)))"
proof -
  from run_log_entry [OF assms(1-7)] assms(8) obtain p where p: "stored_as (sha env) (files st) p f (files st')"
    by (auto simp: stream_paths_def)
  then have "hash_of (sha env) h' p = digest f"
    by (rule stored_hash) (rule logging_keeps_files [OF assms(9,10)])
  from produced_file_is_traced [OF assms(10-15,6) this assms(16)] p show ?thesis
    unfolding stored_as_def by blast
qed

section \<open>An example\<close>

text \<open>The run of the example on a host with the directory of the log.\<close>

definition traced_tool :: tool where
  "traced_tool = (demo_tool '''')\<lparr>files := tool_host\<lparr>tree := ([''.cincan''], DirNode 0) # tree tool_host\<rparr>\<rparr>"

abbreviation traced_time :: datetime where
  "traced_time \<equiv> DateTime 2021 1 1 0 0 0 0"

definition traced_env :: "bytes list environment" where
  "traced_env = (demo_env hello two_polls 0)\<lparr>zone := (\<lambda>t. traced_time), import_time := traced_time\<rparr>"

definition traced_run :: "command_log result \<times> tool" where
  "traced_run = run_tool traced_env [''cat'', ''d/f''] traced_tool"

definition traced_file :: file_log where
  "traced_file = \<lparr>path = PPath ''/'' [''h'', ''d'', ''f''], digest = [CHR 0x05], timestamp = Some (traced_time)\<rparr>"

definition traced_log :: command_log where
  "traced_log =
     \<lparr>command = [''busybox'', ''cat'', ''d/f''], log_time = traced_time, exit_code = 0, log_stdin = [],
      log_stdout = [], log_stderr = [],
      in_files = [new_file_log (PPath ''/'' [''h'', ''d'', ''f'']) [CHR 0x04] (Some (traced_time))],
      out_files = [new_file_log (PPath ''/'' [''dev'', ''stdout'']) ''hi'' None, traced_file]\<rparr>"

definition traced_host :: host where
  "traced_host = \<lparr>cwd = [''h''], tree = [([''.cincan''], DirNode 0), ([''h''], DirNode 0), ([''h'', ''d''], DirNode 0),
     ([''h'', ''pipe''], OtherNode 0), ([''h'', ''d'', ''f''], FileNode [5] 9)]\<rparr>"

lemma traced_runs: "fst traced_run = Inr traced_log" "files (snd traced_run) = traced_host"
  by code_simp+

lemma traced:
  "run_tool traced_env [''cat'', ''d/f''] traced_tool = (Inr traced_log, snd traced_run)"
  "safe_diff (a_container traced_env)" "or_empty (output_filters traced_tool) = parse_matchers []"
  "names_apart traced_env (parse_matchers []) (no_defaults traced_tool)"
  "\<not> given_file (output_tar traced_tool)" "traced_file \<in> set (out_files traced_log)" "digest traced_file \<noteq> ''''"
  "path traced_file \<notin> {parse_path ''/dev/stdout'', parse_path ''/dev/stderr''}"
proof -
  show "run_tool traced_env [''cat'', ''d/f''] traced_tool = (Inr traced_log, snd traced_run)"
    using traced_runs(1) by (simp add: traced_run_def prod_eq_iff)
qed code_simp+

theorem run_log_is_true_witness:
  "\<exists>p d. path traced_file = resolve (files traced_tool) p \<and> read_file traced_host p = Inr d \<and>
    decode_text d = digest traced_file"
  using run_log_is_true [OF traced(1-7)] traced(8) by (simp add: traced_env_def demo_env_def traced_runs(2))

definition traced_place :: "ppath result \<times> host" where
  "traced_place = open_log 5 (home demo_place) (uuid demo_place) None traced_host"

theorem downloaded_file_is_traced_witness:
  "\<exists>h' logs' p. write_log (\<lambda>k. traced_time) 5 (projr (fst traced_place)) traced_log (snd traced_place) = Some (Inr h') \<and>
    load_index (Suc 0) 3 h' (projr (fst traced_place)) = Inr logs' \<and>
    traced_log \<in> set (map dep_command (dep_next (fanin decode_text h' (PPath ''/'' [''h'']) logs' p 2)))"
proof -
  let ?dir = "projr (fst traced_place)"
  let ?w = "write_log (\<lambda>k. traced_time) 5 ?dir traced_log (snd traced_place)"
  have "fst traced_place = Inr ?dir" by code_simp
  then have o: "open_log 5 (home demo_place) (uuid demo_place) None (files (snd traced_run)) = (Inr ?dir, snd traced_place)"
    by (simp add: traced_place_def traced_runs(2) prod_eq_iff)
  let ?at = "locate (snd traced_place) (log_file ?dir traced_time)"
  have "?at = Inr (projr ?at)" and "node_at (snd traced_place) (projr ?at) = None"
    by code_simp+
  then obtain h' where w: "?w = Some (Inr h')"
    using write_log_free [where clock = "\<lambda>k. traced_time"] by blast
  have "storable (JInt 0)" by code_simp
  then have e: "storable (JInt (exit_code traced_log))" by (simp add: traced_log_def)
  have wf: "wf_command_log traced_log"
    by (simp add: traced_log_def traced_file_def wf_command_log_def wf_file_log_def new_file_log_def printable_time_def
        wf_path_def wf_part_def slash_def
        valid_datetime_def days_in_month_def)
  have d: "list_all (\<lambda>q. \<not> is_dir (snd traced_place) q) (iterdir (snd traced_place) ?dir)"
    and i: "load_index (Suc 0) 3 (snd traced_place) ?dir = Inr []"
    by code_simp+
  have "traced_log\<lparr>exit_code := 0, log_stdin := [], log_stdout := [], log_stderr := []\<rparr> = traced_log"
    by (simp add: traced_log_def)
  with w downloaded_file_is_traced [OF traced o w wf e le_refl d i, of 2 "PPath ''/'' [''h'']"] show ?thesis
    by (auto simp: traced_env_def demo_env_def)
qed

end
